(* ===== verification/Sponge_Prelude.thy ===== *)
theory Sponge_Prelude
  imports Main "HOL-Library.Word" "HOL-Library.Sublist"
begin

text \<open>
  Shared vocabulary of the development: the machine integers of the C++ sources, the failures
  a C++ operation can end in, and generic facts on lists that the components share.

  \<^item> \<open>size_t\<close>/\<open>uint64_t\<close> values are natural numbers below \<open>W64\<close>; \<open>u64_add\<close> and
    \<open>u64_sub\<close> are the wrapping operations, and \<open>to_ssize\<close>/\<open>of_ssize\<close> the conversions
    between \<open>size_t\<close> and \<open>ssize_t\<close>.
  \<^item> 8, 16 and 32 bit fields of packets are words of that width.
  \<^item> An exception, a failed \<open>assert\<close> and a signed overflow are the \<open>Inl\<close> values of a result.
\<close>

section \<open>Types\<close>

type_synonym byte = "8 word"
type_synonym bytes = "byte list"

datatype cpp_error =
    Out_Of_Range      \<comment> \<open>\<open>std::out_of_range\<close>\<close>
  | Runtime_Error     \<comment> \<open>\<open>std::runtime_error\<close>\<close>
  | Assert_Failed     \<comment> \<open>a failed \<open>assert\<close>\<close>
  | Signed_Overflow   \<comment> \<open>overflow of a signed \<open>int\<close>, undefined in C++\<close>
  | Invalid_Argument  \<comment> \<open>\<open>std::invalid_argument\<close>\<close>
  | System_Error      \<comment> \<open>\<open>std::system_error\<close>, thrown as \<open>tagged_error\<close> or \<open>unix_error\<close>\<close>
  | Length_Error      \<comment> \<open>\<open>std::length_error\<close>\<close>
  | Empty_Optional    \<comment> \<open>access to a \<open>std::optional\<close> that holds no value\<close>

type_synonym 'a result = "cpp_error + 'a"

section \<open>64-bit unsigned arithmetic on natural numbers\<close>

definition W64 :: nat where
  "W64 = 2 ^ 64"

definition u64 :: "nat \<Rightarrow> nat" where
  "u64 n = n mod W64"

definition u64_add :: "nat \<Rightarrow> nat \<Rightarrow> nat" where
  "u64_add a b = (a + b) mod W64"

definition u64_sub :: "nat \<Rightarrow> nat \<Rightarrow> nat" where
  "u64_sub a b = nat ((int a - int b) mod int W64)"

definition to_ssize :: "nat \<Rightarrow> int" where
  "to_ssize n = (if n < 2 ^ 63 then int n else int n - int W64)"

definition of_ssize :: "int \<Rightarrow> nat" where
  "of_ssize k = nat (k mod int W64)"

section \<open>Sequencing results\<close>

fun bind_result :: "'a result \<Rightarrow> ('a \<Rightarrow> 'b result) \<Rightarrow> 'b result" where
  "bind_result (Inl e) f = Inl e"
| "bind_result (Inr x) f = f x"

text \<open>A computation that may not return: \<open>None\<close> when it runs forever.\<close>

fun bind_run :: "'a result option \<Rightarrow> ('a \<Rightarrow> 'b result option) \<Rightarrow> 'b result option" where
  "bind_run None f = None"
| "bind_run (Some (Inl e)) f = Some (Inl e)"
| "bind_run (Some (Inr x)) f = f x"

section \<open>Strings\<close>

text \<open>\<open>std::string::resize\<close> cuts a string or extends it with zero bytes.\<close>

definition string_resize :: "bytes \<Rightarrow> nat \<Rightarrow> bytes" where
  "string_resize s n = take n s @ replicate (n - length s) 0"

section \<open>Lemma collections\<close>

named_theorems u64_simps \<open>64-bit operations that do not wrap\<close>
named_theorems inv_intros \<open>operations that preserve the invariant of their component\<close>
named_theorems eval_simps \<open>definitions unfolded to evaluate the model on a concrete input\<close>

section \<open>Facts on 64-bit operations\<close>

lemma W64_pos [simp]: "0 < W64"
  by (simp add: W64_def)

lemma W64_gt_one [simp]: "Suc 0 < W64"
  by (simp add: W64_def)

lemma W64_gt_32: "2 ^ 32 < W64"
  by (simp add: W64_def)

lemma u64_less [simp]: "u64 n < W64"
  by (simp add: u64_def)

lemma u64_add_less [simp]: "u64_add a b < W64"
  by (simp add: u64_add_def)

lemma u64_sub_less [simp]: "u64_sub a b < W64"
  by (simp add: u64_sub_def nat_less_iff)

lemma u64_id [u64_simps]: "n < W64 \<Longrightarrow> u64 n = n"
  by (simp add: u64_def)

lemma u64_add_exact [u64_simps]: "a + b < W64 \<Longrightarrow> u64_add a b = a + b"
  by (simp add: u64_add_def)

lemma u64_add_0 [simp]: "u64_add a 0 = u64 a"
  by (simp add: u64_add_def u64_def)

lemma u64_sub_exact [u64_simps]:
  assumes "b \<le> a" "a < W64"
  shows "u64_sub a b = a - b"
proof -
  have "(int a - int b) mod int W64 = int (a - b)"
    using assms by (simp add: of_nat_diff)
  then show ?thesis
    by (simp add: u64_sub_def)
qed

lemma u64_sub_wrap:
  assumes "a < b" "b \<le> W64"
  shows "u64_sub a b = a + W64 - b"
proof -
  have "(int a - int b) mod int W64 = (int a - int b + int W64) mod int W64"
    by simp
  also have "\<dots> = int a - int b + int W64"
    using assms by (intro mod_pos_pos_trivial) auto
  also have "\<dots> = int (a + W64 - b)"
    using assms by (simp add: of_nat_diff)
  finally show ?thesis
    by (simp add: u64_sub_def)
qed

lemma u64_add_assoc: "u64_add (u64_add a b) c = u64_add a (b + c)"
  by (simp add: u64_add_def mod_add_left_eq add.assoc)

lemma u64_add_mod_left [simp]: "u64_add (u64 a) b = u64 (a + b)"
  by (simp add: u64_add_def u64_def mod_add_left_eq)

lemma of_ssize_to_ssize: "n < W64 \<Longrightarrow> of_ssize (to_ssize n) = n"
  by (simp add: of_ssize_def to_ssize_def)

lemma to_ssize_small [u64_simps]: "n < 2 ^ 63 \<Longrightarrow> to_ssize n = int n"
  by (simp add: to_ssize_def)

lemma of_ssize_exact [u64_simps]: "0 \<le> k \<Longrightarrow> k < int W64 \<Longrightarrow> of_ssize k = nat k"
  by (simp add: of_ssize_def)

section \<open>Facts on results\<close>

lemma bind_result_cong:
  "x = x' \<Longrightarrow> (\<And>z. x' = Inr z \<Longrightarrow> f z = f' z) \<Longrightarrow> bind_result x f = bind_result x' f'"
  by (cases x') simp_all

lemma bind_run_good:
  assumes "\<exists>x. m = Some (Inr x) \<and> P x" "\<And>x. P x \<Longrightarrow> \<exists>y. f x = Some (Inr y) \<and> Q y"
  shows "\<exists>y. bind_run m f = Some (Inr y) \<and> Q y"
  using assms by force

lemma bind_run_Inr_iff: "bind_run m f = Some (Inr y) \<longleftrightarrow> (\<exists>x. m = Some (Inr x) \<and> f x = Some (Inr y))"
  by (cases "(m, f)" rule: bind_run.cases) auto

lemma bind_run_mono [partial_function_mono]:
  assumes "mono_option B" "\<And>y. mono_option (\<lambda>f. C y f)"
  shows "mono_option (\<lambda>f. bind_run (B f) (\<lambda>y. C y f))"
proof (rule monotoneI)
  fix f g :: "'a \<Rightarrow> 'b option" assume fg: "fun_ord option_ord f g"
  have B: "option_ord (B f) (B g)" and C: "\<And>y. option_ord (C y f) (C y g)"
    using assms fg by (simp_all add: monotone_def)
  show "option_ord (bind_run (B f) (\<lambda>y. C y f)) (bind_run (B g) (\<lambda>y. C y g))"
  proof (cases "B f")
    case (Some r)
    then have "B g = Some r" using B by (simp add: flat_ord_def)
    then show ?thesis using Some C by (cases r) (simp_all add: flat_ord_def)
  qed (simp add: flat_ord_def)
qed

lemma bind_result_Inr_iff:
  "bind_result x f = Inr y \<longleftrightarrow> (\<exists>z. x = Inr z \<and> f z = Inr y)"
  by (cases x) auto

section \<open>Facts on lists\<close>

lemma take_min_length [simp]: "take (min n (length xs)) xs = take n xs"
  by (simp add: min_def)

lemma drop_min_length [simp]: "drop (min n (length xs)) xs = drop n xs"
  by (simp add: min_def)

lemma drop_append_take:
  "n \<le> length xs \<Longrightarrow> drop n (xs @ ys) = drop n xs @ ys"
  by simp

lemma prefix_take: "prefix (take n xs) xs"
  by (metis append_take_drop_id prefixI)

lemma take_eq_nth_prefix:
  assumes "length xs \<le> length ys" "\<And>i. i < length xs \<Longrightarrow> xs ! i = ys ! i"
  shows "xs = take (length xs) ys"
  using assms by (intro nth_equalityI) auto

lemma string_resize_extend: "length s \<le> n \<Longrightarrow> string_resize s n = s @ replicate (n - length s) 0"
  by (simp add: string_resize_def)

lemma length_string_resize [simp]: "length (string_resize s n) = n"
  by (simp add: string_resize_def)

section \<open>Evaluation of the model on concrete inputs\<close>

text \<open>Lengths and positions of concrete lists stay numerals, so that the comparisons with \<open>W64\<close>
  are decided by binary arithmetic.\<close>

lemma length_Cons_num: "length (x # xs) = length xs + 1"
  by simp

lemmas eval_lists [eval_simps] = length_Cons_num take_Cons' drop_Cons' nth_Cons'
lemmas eval_u64 [eval_simps] = u64_simps W64_def
lemmas eval_del = One_nat_def list.size(4) add_2_eq_Suc add_2_eq_Suc'

end
