(* ===== verification/Buffers.thy ===== *)
theory Buffers
  imports Sponge_Prelude
begin

text \<open>
  \<open>libsponge/util/buffer.hh\<close> and \<open>.cc\<close>: read-only strings that discard bytes from the front
  (\<open>Buffer\<close>), their concatenations (\<open>BufferList\<close>) and views of them (\<open>BufferViewList\<close>).  The
  shared storage is never written, so a buffer is its storage and its offset, and a copy of a
  buffer is the buffer.  The locale \<open>front_string\<close> says what users of the three classes rely on:
  the bytes that are left are the string with a prefix dropped, and dropping more bytes than there
  are fails.  It is interpreted on each of the classes.
\<close>

section \<open>Buffer\<close>

record Buffer =
  buf_storage :: "bytes option"
  buf_starting_offset :: nat

definition Buffer_empty :: Buffer where
  "Buffer_empty = \<lparr>buf_storage = None, buf_starting_offset = 0\<rparr>"

definition Buffer_new :: "bytes \<Rightarrow> Buffer" where
  "Buffer_new str = \<lparr>buf_storage = Some str, buf_starting_offset = 0\<rparr>"

definition Buffer_str :: "Buffer \<Rightarrow> bytes" where
  "Buffer_str b =
     (case buf_storage b of None \<Rightarrow> [] | Some s \<Rightarrow> drop (buf_starting_offset b) s)"

definition Buffer_at :: "Buffer \<Rightarrow> nat \<Rightarrow> byte result" where
  "Buffer_at b n = (if n < length (Buffer_str b) then Inr (Buffer_str b ! n) else Inl Out_Of_Range)"

definition Buffer_size :: "Buffer \<Rightarrow> nat" where
  "Buffer_size b = length (Buffer_str b)"

definition Buffer_copy :: "Buffer \<Rightarrow> bytes" where
  "Buffer_copy b = Buffer_str b"

definition Buffer_remove_prefix :: "Buffer \<Rightarrow> nat \<Rightarrow> Buffer result" where
  "Buffer_remove_prefix b n =
     (if n > length (Buffer_str b) then Inl Out_Of_Range
      else let offset = buf_starting_offset b + n
           in Inr \<lparr>buf_storage =
                     (case buf_storage b of
                        None \<Rightarrow> None
                      | Some s \<Rightarrow> if offset = length s then None else Some s),
                   buf_starting_offset = offset\<rparr>)"

section \<open>BufferList\<close>

type_synonym BufferList = "Buffer list"

definition BufferList_of_Buffer :: "Buffer \<Rightarrow> BufferList" where
  "BufferList_of_Buffer b = [b]"

definition BufferList_append :: "BufferList \<Rightarrow> BufferList \<Rightarrow> BufferList" where
  "BufferList_append l other = l @ other"

definition BufferList_new :: "bytes \<Rightarrow> BufferList" where
  "BufferList_new str = BufferList_append [] (BufferList_of_Buffer (Buffer_new str))"

definition BufferList_to_Buffer :: "BufferList \<Rightarrow> Buffer result" where
  "BufferList_to_Buffer l =
     (case l of [] \<Rightarrow> Inr Buffer_empty | [b] \<Rightarrow> Inr b | _ \<Rightarrow> Inl Runtime_Error)"

definition BufferList_concatenate :: "BufferList \<Rightarrow> bytes" where
  "BufferList_concatenate l = fold (\<lambda>b ret. ret @ Buffer_str b) l []"

definition BufferList_size :: "BufferList \<Rightarrow> nat" where
  "BufferList_size l = fold (\<lambda>b ret. u64_add ret (Buffer_size b)) l 0"

fun BufferList_remove_prefix :: "BufferList \<Rightarrow> nat \<Rightarrow> BufferList result" where
  "BufferList_remove_prefix [] n = (if n > 0 then Inl Out_Of_Range else Inr [])"
| "BufferList_remove_prefix (b # l) n =
     (if n > 0 then
        if n < length (Buffer_str b)
        then bind_result (Buffer_remove_prefix b n) (\<lambda>b'. Inr (b' # l))
        else BufferList_remove_prefix l (n - length (Buffer_str b))
      else Inr (b # l))"

section \<open>BufferViewList\<close>

text \<open>A view is the bytes it shows.  An \<open>iovec\<close> is the bytes at its base and its length.\<close>

type_synonym BufferViewList = "bytes list"

definition BufferViewList_of_string :: "bytes \<Rightarrow> BufferViewList" where
  "BufferViewList_of_string str = [str]"

definition BufferViewList_of_cstring :: "bytes \<Rightarrow> BufferViewList" where
  "BufferViewList_of_cstring s = BufferViewList_of_string (takeWhile (\<lambda>c. c \<noteq> 0) s)"

definition BufferViewList_of_BufferList :: "BufferList \<Rightarrow> BufferViewList" where
  "BufferViewList_of_BufferList l = map Buffer_str l"

fun BufferViewList_remove_prefix :: "BufferViewList \<Rightarrow> nat \<Rightarrow> BufferViewList result" where
  "BufferViewList_remove_prefix [] n = (if n > 0 then Inl Out_Of_Range else Inr [])"
| "BufferViewList_remove_prefix (v # l) n =
     (if n > 0 then
        if n < length v then Inr (drop n v # l)
        else BufferViewList_remove_prefix l (n - length v)
      else Inr (v # l))"

definition BufferViewList_size :: "BufferViewList \<Rightarrow> nat" where
  "BufferViewList_size l = fold (\<lambda>v ret. u64_add ret (length v)) l 0"

definition BufferViewList_as_iovecs :: "BufferViewList \<Rightarrow> (bytes \<times> nat) list" where
  "BufferViewList_as_iovecs l = map (\<lambda>v. (v, length v)) l"

section \<open>What the users rely on\<close>

locale front_string =
  fixes str :: "'b \<Rightarrow> bytes"
    and wf :: "'b \<Rightarrow> bool"
    and remove_prefix :: "'b \<Rightarrow> nat \<Rightarrow> 'b result"
  assumes remove_prefix_fails: "length (str b) < n \<Longrightarrow> remove_prefix b n = Inl Out_Of_Range"
    and remove_prefix_drops: "wf b \<Longrightarrow> n \<le> length (str b) \<Longrightarrow>
      \<exists>b'. remove_prefix b n = Inr b' \<and> wf b' \<and> str b' = drop n (str b)"
begin

lemma remove_prefix_Inr:
  assumes "wf b" "remove_prefix b n = Inr b'"
  shows "n \<le> length (str b) \<and> wf b' \<and> str b' = drop n (str b)"
proof -
  have "n \<le> length (str b)"
    using assms(2) remove_prefix_fails [of b n] by (cases "length (str b) < n") auto
  then show ?thesis using remove_prefix_drops [OF assms(1)] assms(2) by fastforce
qed

lemma remove_prefix_succeeds: "wf b \<Longrightarrow> (\<exists>b'. remove_prefix b n = Inr b') \<longleftrightarrow> n \<le> length (str b)"
  using remove_prefix_drops remove_prefix_Inr by blast

text \<open>Removing a prefix piecewise is removing it at once.\<close>

lemma remove_prefix_twice:
  assumes "wf b" "m + n \<le> length (str b)"
  shows "\<exists>b' b''. remove_prefix b m = Inr b' \<and> remove_prefix b' n = Inr b'' \<and>
    str b'' = drop (m + n) (str b)"
proof -
  obtain b' where b': "remove_prefix b m = Inr b'" "wf b'" "str b' = drop m (str b)"
    using remove_prefix_drops [OF assms(1), of m] assms(2) by auto
  then obtain b'' where "remove_prefix b' n = Inr b''" "str b'' = drop n (str b')"
    using remove_prefix_drops [OF b'(2), of n] assms(2) by (auto simp: le_diff_conv2)
  then show ?thesis using b' by (auto simp: add.commute)
qed

end

section \<open>The classes provide it\<close>

definition Buffer_wf :: "Buffer \<Rightarrow> bool" where
  "Buffer_wf b = (case buf_storage b of None \<Rightarrow> True | Some s \<Rightarrow> buf_starting_offset b \<le> length s)"

lemma Buffer_str_new [simp]: "Buffer_str (Buffer_new s) = s"
  by (simp add: Buffer_str_def Buffer_new_def)

lemma Buffer_str_empty [simp]: "Buffer_str Buffer_empty = []"
  by (simp add: Buffer_str_def Buffer_empty_def)

lemma Buffer_wf_new [simp]: "Buffer_wf (Buffer_new s)" "Buffer_wf Buffer_empty"
  by (simp_all add: Buffer_wf_def Buffer_new_def Buffer_empty_def)

interpretation buf: front_string Buffer_str Buffer_wf Buffer_remove_prefix
proof
  fix b :: Buffer and n
  show "length (Buffer_str b) < n \<Longrightarrow> Buffer_remove_prefix b n = Inl Out_Of_Range"
    by (simp add: Buffer_remove_prefix_def)
  show "Buffer_wf b \<Longrightarrow> n \<le> length (Buffer_str b) \<Longrightarrow>
      \<exists>b'. Buffer_remove_prefix b n = Inr b' \<and> Buffer_wf b' \<and> Buffer_str b' = drop n (Buffer_str b)"
    by (auto simp: Buffer_remove_prefix_def Buffer_wf_def Buffer_str_def Let_def add.commute
        split: option.splits)
qed

lemma fold_append_concat: "fold (\<lambda>x acc. acc @ f x) l a = a @ concat (map f l)"
  by (induction l arbitrary: a) auto

lemma fold_u64_add: "fold (\<lambda>x acc. u64_add acc (length (f x))) l (u64 a) = u64 (a + length (concat (map f l)))"
  by (induction l arbitrary: a) (simp_all add: add.assoc)

lemma BufferList_concatenate_eq: "BufferList_concatenate l = concat (map Buffer_str l)"
  by (simp add: BufferList_concatenate_def fold_append_concat)

lemma BufferList_concatenate_simps [simp]:
  "BufferList_concatenate [] = []"
  "BufferList_concatenate (b # l) = Buffer_str b @ BufferList_concatenate l"
  "BufferList_concatenate (BufferList_append l l') = BufferList_concatenate l @ BufferList_concatenate l'"
  "BufferList_concatenate (BufferList_new s) = s"
  "BufferList_concatenate (BufferList_of_Buffer b) = Buffer_str b"
  by (simp_all add: BufferList_concatenate_eq BufferList_append_def BufferList_new_def
      BufferList_of_Buffer_def)

lemma BufferList_size_eq: "BufferList_size l = u64 (length (BufferList_concatenate l))"
  using fold_u64_add [of Buffer_str l 0]
  by (simp add: BufferList_size_def Buffer_size_def BufferList_concatenate_eq u64_id)

lemma BufferViewList_size_eq: "BufferViewList_size l = u64 (length (concat l))"
  using fold_u64_add [of id l 0] by (simp add: BufferViewList_size_def u64_id)

lemma BufferList_remove_prefix_fails:
  "length (BufferList_concatenate l) < n \<Longrightarrow> BufferList_remove_prefix l n = Inl Out_Of_Range"
  by (induction l n rule: BufferList_remove_prefix.induct) auto

lemma BufferList_remove_prefix_drops:
  "\<forall>b \<in> set l. Buffer_wf b \<Longrightarrow> n \<le> length (BufferList_concatenate l) \<Longrightarrow>
     \<exists>l'. BufferList_remove_prefix l n = Inr l' \<and> (\<forall>b \<in> set l'. Buffer_wf b) \<and>
       BufferList_concatenate l' = drop n (BufferList_concatenate l)"
proof (induction l n rule: BufferList_remove_prefix.induct)
  case (2 b l n)
  show ?case
  proof (cases "n > 0 \<and> n < length (Buffer_str b)")
    case True
    then show ?thesis using 2(2,3) buf.remove_prefix_drops [of b n] by force
  next
    case False
    then show ?thesis using 2 by auto
  qed
qed auto

interpretation bl: front_string BufferList_concatenate "\<lambda>l. \<forall>b \<in> set l. Buffer_wf b" BufferList_remove_prefix
  by unfold_locales (simp_all add: BufferList_remove_prefix_fails BufferList_remove_prefix_drops)

lemma BufferViewList_remove_prefix_fails:
  "length (concat l) < n \<Longrightarrow> BufferViewList_remove_prefix l n = Inl Out_Of_Range"
  by (induction l n rule: BufferViewList_remove_prefix.induct) auto

lemma BufferViewList_remove_prefix_drops:
  "n \<le> length (concat l) \<Longrightarrow> \<exists>l'. BufferViewList_remove_prefix l n = Inr l' \<and> concat l' = drop n (concat l)"
  by (induction l n rule: BufferViewList_remove_prefix.induct) auto

interpretation bv: front_string concat "\<lambda>_. True" BufferViewList_remove_prefix
  by unfold_locales (simp_all add: BufferViewList_remove_prefix_fails BufferViewList_remove_prefix_drops)

section \<open>Properties\<close>

text \<open>C38: removing a prefix from a list of buffers fails exactly when there are fewer bytes than asked
  for; otherwise the bytes that remain are the concatenation without its first \<open>n\<close> bytes, wherever
  the boundaries between the buffers are, and a view of the list shows the same bytes after the
  same removal.\<close>

theorem BufferList_remove_prefix_correct:
  assumes "\<forall>b \<in> set l. Buffer_wf b"
  shows "if n \<le> length (BufferList_concatenate l)
    then \<exists>l' v. BufferList_remove_prefix l n = Inr l' \<and>
      BufferViewList_remove_prefix (BufferViewList_of_BufferList l) n = Inr v \<and>
      BufferList_concatenate l' = drop n (BufferList_concatenate l) \<and>
      concat v = drop n (BufferList_concatenate l)
    else BufferList_remove_prefix l n = Inl Out_Of_Range \<and>
      BufferViewList_remove_prefix (BufferViewList_of_BufferList l) n = Inl Out_Of_Range"
proof -
  have view: "concat (BufferViewList_of_BufferList l) = BufferList_concatenate l"
    by (simp add: BufferViewList_of_BufferList_def BufferList_concatenate_eq)
  show ?thesis
    using bl.remove_prefix_drops [OF assms, of n] bl.remove_prefix_fails [of l n]
      bv.remove_prefix_drops [where b = "BufferViewList_of_BufferList l" and n = n]
      bv.remove_prefix_fails [where b = "BufferViewList_of_BufferList l" and n = n]
    unfolding view by auto
qed

theorem BufferList_remove_prefix_correct_witness:
  "\<exists>l'. BufferList_remove_prefix [Buffer_new [1, 2], Buffer_new [3, 4]] 3 = Inr l' \<and>
     BufferList_concatenate l' = [4]"
  using BufferList_remove_prefix_correct [of "[Buffer_new [1, 2], Buffer_new [3, 4]]" 3]
  by (auto simp: numeral_3_eq_3)

end
