(* ===== verification/Net_Parser.thy ===== *)
theory Net_Parser
  imports Buffers
begin

unbundle bit_operations_syntax

text \<open>
  \<open>libsponge/util/parser.hh\<close> and \<open>.cc\<close>: reading and writing integers in network byte order.  A
  parsing function maps the state of a \<open>NetParser\<close> to a value and the new state; \<open>p_bind\<close>
  sequences two of them the way the statements of the sources are.  An exception thrown by the
  buffer is an \<open>Inl\<close>; the lemmas show there is none.

  \<open>yields f s v t\<close> is the specification of a parsing function: started without an error on the
  bytes \<open>s\<close>, it returns \<open>v\<close> without an error and leaves \<open>t\<close>.  The locale \<open>wire_format\<close> is the
  contract of a header format (its parser inverts its serializer), which every header of the
  development satisfies; the lemmas inside show that the format is then unambiguous.
\<close>

section \<open>ParseResult\<close>

datatype ParseResult =
    NoError | BadChecksum | PacketTooShort | WrongIPVersion | HeaderTooShort | TruncatedPacket | Unsupported

text \<open>The table of names ends before \<open>Unsupported\<close>, whose access is out of the bounds of the array.\<close>

fun ParseResult_index :: "ParseResult \<Rightarrow> nat" where
  "ParseResult_index NoError = 0"
| "ParseResult_index BadChecksum = 1"
| "ParseResult_index PacketTooShort = 2"
| "ParseResult_index WrongIPVersion = 3"
| "ParseResult_index HeaderTooShort = 4"
| "ParseResult_index TruncatedPacket = 5"
| "ParseResult_index Unsupported = 6"

definition ParseResult_names :: "string list" where
  "ParseResult_names =
     [''NoError'', ''BadChecksum'', ''PacketTooShort'', ''WrongIPVersion'', ''HeaderTooShort'', ''TruncatedPacket'']"

definition ParseResult_as_string :: "ParseResult \<Rightarrow> string result" where
  "ParseResult_as_string r =
     (if ParseResult_index r < length ParseResult_names then Inr (ParseResult_names ! ParseResult_index r)
      else Inl Out_Of_Range)"

section \<open>NetParser\<close>

record NetParser =
  np_buffer :: Buffer
  np_error :: ParseResult

type_synonym 'a parser = "NetParser \<Rightarrow> ('a \<times> NetParser) result"

definition NetParser_new :: "Buffer \<Rightarrow> NetParser" where
  "NetParser_new buffer = \<lparr>np_buffer = buffer, np_error = NoError\<rparr>"

definition NetParser_error :: "NetParser \<Rightarrow> bool" where
  "NetParser_error p = (np_error p \<noteq> NoError)"

definition NetParser_set_error :: "ParseResult \<Rightarrow> NetParser \<Rightarrow> NetParser" where
  "NetParser_set_error res p = p\<lparr>np_error := res\<rparr>"

definition NetParser_check_size :: "nat \<Rightarrow> NetParser \<Rightarrow> NetParser" where
  "NetParser_check_size n p =
     (if n > Buffer_size (np_buffer p) then NetParser_set_error PacketTooShort p else p)"

text \<open>The loop of \<open>_parse_int\<close>: \<open>i\<close> is the position and \<open>k\<close> the number of bytes left.\<close>

fun parse_int_loop :: "Buffer \<Rightarrow> nat \<Rightarrow> nat \<Rightarrow> 'a::len word \<Rightarrow> 'a word result" where
  "parse_int_loop b i 0 ret = Inr ret"
| "parse_int_loop b i (Suc k) ret =
     bind_result (Buffer_at b i) (\<lambda>c. parse_int_loop b (Suc i) k (push_bit 8 ret + ucast c))"

definition NetParser_parse_int :: "'a::len word parser" where
  "NetParser_parse_int p =
     (let len = LENGTH('a) div 8; p1 = NetParser_check_size len p
      in if NetParser_error p1 then Inr (0, p1)
         else bind_result (parse_int_loop (np_buffer p1) 0 len 0)
                (\<lambda>ret. bind_result (Buffer_remove_prefix (np_buffer p1) len)
                   (\<lambda>b. Inr (ret, p1\<lparr>np_buffer := b\<rparr>))))"

definition NetParser_u32 :: "32 word parser" where
  "NetParser_u32 = NetParser_parse_int"

definition NetParser_u16 :: "16 word parser" where
  "NetParser_u16 = NetParser_parse_int"

definition NetParser_u8 :: "8 word parser" where
  "NetParser_u8 = NetParser_parse_int"

definition NetParser_remove_prefix :: "nat \<Rightarrow> unit parser" where
  "NetParser_remove_prefix n p =
     (let p1 = NetParser_check_size n p
      in if NetParser_error p1 then Inr ((), p1)
         else bind_result (Buffer_remove_prefix (np_buffer p1) n) (\<lambda>b. Inr ((), p1\<lparr>np_buffer := b\<rparr>)))"

text \<open>Sequencing, and reading the state of the parser: \<open>p.buffer().size()\<close>, \<open>p.buffer().str()\<close> and
  \<open>p.get_error()\<close>.\<close>

definition p_return :: "'a \<Rightarrow> 'a parser" where
  "p_return x p = Inr (x, p)"

definition p_bind :: "'a parser \<Rightarrow> ('a \<Rightarrow> 'b parser) \<Rightarrow> 'b parser" where
  "p_bind f g p = bind_result (f p) (\<lambda>(x, p'). g x p')"

definition p_size :: "nat parser" where
  "p_size p = Inr (Buffer_size (np_buffer p), p)"

definition p_str :: "bytes parser" where
  "p_str p = Inr (Buffer_str (np_buffer p), p)"

definition p_get_error :: "ParseResult parser" where
  "p_get_error p = Inr (np_error p, p)"

section \<open>NetUnparser\<close>

definition NetUnparser_unparse_int :: "bytes \<Rightarrow> 'a::len word \<Rightarrow> bytes" where
  "NetUnparser_unparse_int s val =
     (let len = LENGTH('a) div 8
      in s @ map (\<lambda>i. ucast (drop_bit ((len - i - 1) * 8) val AND 0xff)) [0 ..< len])"

definition NetUnparser_u32 :: "bytes \<Rightarrow> 32 word \<Rightarrow> bytes" where
  "NetUnparser_u32 = NetUnparser_unparse_int"

definition NetUnparser_u16 :: "bytes \<Rightarrow> 16 word \<Rightarrow> bytes" where
  "NetUnparser_u16 = NetUnparser_unparse_int"

definition NetUnparser_u8 :: "bytes \<Rightarrow> 8 word \<Rightarrow> bytes" where
  "NetUnparser_u8 = NetUnparser_unparse_int"

section \<open>Specification of parsing functions\<close>

definition np_ok :: "NetParser \<Rightarrow> bool" where
  "np_ok p \<longleftrightarrow> Buffer_wf (np_buffer p) \<and> np_error p = NoError"

definition np_str :: "NetParser \<Rightarrow> bytes" where
  "np_str p = Buffer_str (np_buffer p)"

definition yields :: "'a parser \<Rightarrow> bytes \<Rightarrow> 'a \<Rightarrow> bytes \<Rightarrow> bool" where
  "yields f s v t \<longleftrightarrow>
     (\<forall>p. np_ok p \<longrightarrow> np_str p = s \<longrightarrow> (\<exists>p'. f p = Inr (v, p') \<and> np_ok p' \<and> np_str p' = t))"

text \<open>A parsing function that throws no exception on any input, and consumes a prefix of it.\<close>

definition p_safe :: "'a parser \<Rightarrow> bool" where
  "p_safe f \<longleftrightarrow>
     (\<forall>p. Buffer_wf (np_buffer p) \<longrightarrow>
        (\<exists>v p'. f p = Inr (v, p') \<and> Buffer_wf (np_buffer p') \<and> suffix (np_str p') (np_str p)))"

named_theorems yields_intros \<open>specifications of the parsing functions\<close>
named_theorems safe_intros \<open>parsing functions that throw no exception\<close>

locale wire_format =
  fixes parse :: "'h \<Rightarrow> (ParseResult \<times> 'h) parser"
    and serialize :: "'h \<Rightarrow> bytes result"
    and wf :: "'h \<Rightarrow> bool"
    and fits :: "'h \<Rightarrow> bytes \<Rightarrow> bool"
    and typed :: "'h \<Rightarrow> bool"
  assumes wf_typed: "wf h \<Longrightarrow> typed h"
    and serialize_ok: "wf h \<Longrightarrow> \<exists>bs. serialize h = Inr bs"
    and roundtrip: "wf h \<Longrightarrow> serialize h = Inr bs \<Longrightarrow> fits h rest \<Longrightarrow> typed h0 \<Longrightarrow>
      yields (parse h0) (bs @ rest) (NoError, h) rest"
begin

text \<open>A parser state that starts with a serialized header gives back that header and what follows.\<close>

lemma parse_serialized:
  assumes "wf h" "fits h rest" "typed h0" "np_ok p" "serialize h = Inr bs" "np_str p = bs @ rest"
  shows "\<exists>p'. parse h0 p = Inr ((NoError, h), p') \<and> np_ok p' \<and> np_str p' = rest"
  using roundtrip [OF assms(1,5,2,3)] assms(4,6) unfolding yields_def by blast

text \<open>No byte string is a serialized header followed by a payload in two ways.\<close>

lemma unambiguous:
  assumes "wf h" "wf h'" "fits h r" "fits h' r'"
    and "serialize h = Inr bs" "serialize h' = Inr bs'" "bs @ r = bs' @ r'"
  shows "h = h' \<and> r = r'"
proof -
  define p where "p = NetParser_new (Buffer_new (bs @ r))"
  have "np_ok p" "np_str p = bs @ r"
    by (simp_all add: p_def NetParser_new_def np_ok_def np_str_def)
  then show ?thesis
    using parse_serialized [OF assms(1,3) wf_typed [OF assms(1)] _ assms(5), of p]
      parse_serialized [OF assms(2,4) wf_typed [OF assms(1)] _ assms(6), of p] assms(7) by auto
qed

end

section \<open>Rules for yields\<close>

lemma yields_return [yields_intros]: "yields (p_return x) s x s"
  by (simp add: yields_def p_return_def)

lemma yields_bind:
  assumes "yields f s v t" "yields (g v) t w u"
  shows "yields (p_bind f g) s w u"
  unfolding yields_def
proof (intro allI impI)
  fix p assume "np_ok p" "np_str p = s"
  then obtain p' where p': "f p = Inr (v, p')" "np_ok p'" "np_str p' = t"
    using assms(1) by (auto simp: yields_def)
  then show "\<exists>p'. p_bind f g p = Inr (w, p') \<and> np_ok p' \<and> np_str p' = u"
    using assms(2) by (auto simp: yields_def p_bind_def)
qed

lemma yields_input: "s = s' \<Longrightarrow> yields f s' v t \<Longrightarrow> yields f s v t"
  by simp

lemma yields_size [yields_intros]: "yields p_size s (length s) s"
  by (auto simp: yields_def p_size_def Buffer_size_def np_str_def)

lemma yields_str [yields_intros]: "yields p_str s s s"
  by (auto simp: yields_def p_str_def np_str_def)

lemma yields_get_error [yields_intros]: "yields p_get_error s NoError s"
  by (auto simp: yields_def p_get_error_def np_ok_def)

lemma yields_remove_prefix [yields_intros]:
  "n = length bs \<Longrightarrow> yields (NetParser_remove_prefix n) (bs @ rest) () rest"
  unfolding yields_def
proof (intro allI impI)
  fix p assume n: "n = length bs" and p: "np_ok p" "np_str p = bs @ rest"
  then obtain b where "Buffer_remove_prefix (np_buffer p) n = Inr b" "Buffer_wf b" "Buffer_str b = rest"
    using buf.remove_prefix_drops [of "np_buffer p" n] by (auto simp: np_ok_def np_str_def)
  then show "\<exists>p'. NetParser_remove_prefix n p = Inr ((), p') \<and> np_ok p' \<and> np_str p' = rest"
    using p n by (simp add: NetParser_remove_prefix_def NetParser_check_size_def NetParser_error_def
        np_ok_def np_str_def Buffer_size_def)
qed

section \<open>Bit fields\<close>

lemma unat_bounds:
  "unat (b :: 8 word) < 256" "unat (u :: 16 word) < 65536" "unat (v :: 32 word) < 4294967296"
  using unsigned_less [of b, where 'a = nat] unsigned_less [of u, where 'a = nat] unsigned_less [of v, where 'a = nat]
  by simp_all

lemma take_bit_small: "unat (w :: 'a::len word) < 2 ^ n \<Longrightarrow> take_bit n w = w"
  by (simp add: word_unat_eq_iff unsigned_take_bit_eq take_bit_nat_eq_self)

lemma drop_bit_small:
  assumes "unat (w :: 'a::len word) < 2 ^ n"
  shows "drop_bit n w = 0"
proof -
  have "unat (drop_bit n w) = 0" unfolding unat_drop_bit_eq using assms by (simp add: drop_bit_eq_div)
  then show ?thesis by (simp only: unat_eq_zero)
qed

section \<open>Integers in network byte order\<close>

definition be_val :: "bytes \<Rightarrow> nat" where
  "be_val bs = foldl (\<lambda>r c. r * 256 + unat c) 0 bs"

lemma of_nat_foldl_be:
  "foldl (\<lambda>r c. push_bit 8 r + ucast c) (of_nat a) bs =
     (of_nat (foldl (\<lambda>r c. r * 256 + unat c) a bs) :: 'a::len word)"
proof (induction bs arbitrary: a)
  case (Cons c bs)
  have "push_bit 8 (of_nat a) + ucast c = (of_nat (a * 256 + unat c) :: 'a word)"
    by (simp add: push_bit_eq_mult mult.commute)
  then show ?case using Cons [of "a * 256 + unat c"] by (simp only: foldl_Cons)
qed simp

lemma parse_int_loop_eq:
  "i + k \<le> length (Buffer_str b) \<Longrightarrow>
     parse_int_loop b i k ret = Inr (foldl (\<lambda>r c. push_bit 8 r + ucast c) ret (take k (drop i (Buffer_str b))))"
proof (induction b i k ret rule: parse_int_loop.induct)
  case (2 b i k ret)
  then have "drop i (Buffer_str b) = Buffer_str b ! i # drop (Suc i) (Buffer_str b)"
    by (simp add: Cons_nth_drop_Suc)
  then show ?case using 2 by (simp add: Buffer_at_def)
qed simp

lemma yields_parse_int:
  assumes "length bs = LENGTH('a::len) div 8"
  shows "yields (NetParser_parse_int :: 'a word parser) (bs @ rest) (of_nat (be_val bs)) rest"
  unfolding yields_def
proof (intro allI impI)
  fix p assume p: "np_ok p" "np_str p = bs @ rest"
  let ?b = "np_buffer p" and ?len = "LENGTH('a) div 8"
  have str: "Buffer_str ?b = bs @ rest" using p by (simp add: np_str_def)
  obtain b where b: "Buffer_remove_prefix ?b ?len = Inr b" "Buffer_wf b" "Buffer_str b = rest"
    using buf.remove_prefix_drops [of ?b ?len] p assms str by (auto simp: np_ok_def)
  have "parse_int_loop ?b 0 ?len 0 = Inr (of_nat (be_val bs) :: 'a word)"
    using parse_int_loop_eq [of 0 ?len ?b "0 :: 'a word"] of_nat_foldl_be [of 0 bs, where 'a = 'a] assms str
    by (simp add: be_val_def)
  then show "\<exists>p'. NetParser_parse_int p = Inr (of_nat (be_val bs) :: 'a word, p') \<and> np_ok p' \<and> np_str p' = rest"
    using b p assms str
    by (simp add: NetParser_parse_int_def NetParser_check_size_def NetParser_error_def Buffer_size_def
        Let_def np_ok_def np_str_def)
qed


abbreviation u8_bytes :: "8 word \<Rightarrow> bytes" where
  "u8_bytes v \<equiv> NetUnparser_u8 [] v"

abbreviation u16_bytes :: "16 word \<Rightarrow> bytes" where
  "u16_bytes v \<equiv> NetUnparser_u16 [] v"

abbreviation u32_bytes :: "32 word \<Rightarrow> bytes" where
  "u32_bytes v \<equiv> NetUnparser_u32 [] v"

lemma NetUnparser_append:
  "s \<noteq> [] \<Longrightarrow> NetUnparser_u8 s v = s @ u8_bytes v"
  "s \<noteq> [] \<Longrightarrow> NetUnparser_u16 s w = s @ u16_bytes w"
  "s \<noteq> [] \<Longrightarrow> NetUnparser_u32 s x = s @ u32_bytes x"
  by (simp_all add: NetUnparser_u8_def NetUnparser_u16_def NetUnparser_u32_def NetUnparser_unparse_int_def)

lemma NetUnparser_not_Nil [simp]:
  "NetUnparser_u8 s v \<noteq> []" "NetUnparser_u16 s w \<noteq> []" "NetUnparser_u32 s x \<noteq> []"
  by (simp_all add: NetUnparser_u8_def NetUnparser_u16_def NetUnparser_u32_def NetUnparser_unparse_int_def)

lemma unat_byte_and: "unat (ucast (v AND 0xff) :: byte) = unat (v :: 'a::len word) mod 256"
proof -
  have "(v AND 0xff :: 'a word) = take_bit 8 v"
    by (simp add: take_bit_eq_mask mask_eq_exp_minus_1)
  then have "unat (ucast (v AND 0xff) :: byte) = take_bit 8 (unat v)"
    by (simp add: unsigned_ucast_eq unsigned_take_bit_eq)
  then show ?thesis by (simp add: take_bit_eq_mod)
qed

lemma unat_byte_of:
  "unat (ucast (drop_bit k v AND 0xff) :: byte) = unat (v :: 'a::len word) div 2 ^ k mod 256"
  unfolding unat_byte_and unat_drop_bit_eq by (simp add: drop_bit_eq_div)

lemma u8_bytes_eq: "u8_bytes v = [v]"
proof -
  have "unat v < 256" using unsigned_less [of v] by simp
  then have "unat (ucast (v AND 0xff) :: byte) = unat v" by (simp only: unat_byte_and mod_less)
  then have "(ucast (v AND 0xff) :: byte) = v" by (simp only: word_unat_eq_iff)
  then show ?thesis by (simp add: NetUnparser_u8_def NetUnparser_unparse_int_def)
qed

lemma u16_bytes_eq: "u16_bytes v = [ucast (drop_bit 8 v AND 0xff), ucast (v AND 0xff)]"
  by (simp add: NetUnparser_u16_def NetUnparser_unparse_int_def upt_rec)

lemma u32_bytes_eq: "u32_bytes v =
  [ucast (drop_bit 24 v AND 0xff), ucast (drop_bit 16 v AND 0xff),
   ucast (drop_bit 8 v AND 0xff), ucast (v AND 0xff)]"
  by (simp add: NetUnparser_u32_def NetUnparser_unparse_int_def upt_rec)

lemma be_val_u8: "be_val (u8_bytes v) = unat v"
  by (simp add: u8_bytes_eq be_val_def)

lemma be_val_u16: "be_val (u16_bytes v) = unat v"
proof -
  have "unat v < 256 * 256" using unsigned_less [of v] by simp
  then have "unat v div 256 < 256" by (rule less_mult_imp_div_less)
  then show ?thesis unfolding u16_bytes_eq be_val_def foldl.simps unat_byte_of unfolding unat_byte_and by simp
qed

lemma be_val_u32: "be_val (u32_bytes v) = unat v"
proof -
  define n where "n = unat v"
  have "n < 256 * 2 ^ 24" using unsigned_less [of v] by (simp add: n_def)
  then have top: "n div 2 ^ 24 mod 256 = n div 2 ^ 8 div 256 div 256"
    by (simp add: less_mult_imp_div_less flip: div_mult2_eq)
  have mid: "n div 2 ^ 16 mod 256 = n div 2 ^ 8 div 256 mod 256"
    by (simp flip: div_mult2_eq)
  have "((n div 2 ^ 8 div 256 div 256 * 256 + n div 2 ^ 8 div 256 mod 256) * 256 + n div 2 ^ 8 mod 256) * 256
      + n mod 256 = n"
    using div_mult_mod_eq [of "n div 2 ^ 8 div 256" 256] div_mult_mod_eq [of "n div 2 ^ 8" 256]
    by (simp only:) simp
  then show ?thesis
    unfolding u32_bytes_eq be_val_def foldl.simps unat_byte_of unfolding unat_byte_and n_def [symmetric]
    by (simp only: top mid mult_0 add_0)
qed

lemma be_val_append: "be_val (bs @ [c]) = be_val bs * 256 + unat c"
  by (simp add: be_val_def)

lemma be_val_less: "be_val bs < 256 ^ length bs"
proof (induction bs rule: rev_induct)
  case (snoc c bs)
  have "unat c < 256" using unsigned_less [of c] by simp
  moreover have "be_val bs * 256 + 256 \<le> 256 ^ length bs * 256" using snoc by (simp flip: add_mult_distrib)
  ultimately show ?case by (simp add: be_val_append)
qed (simp add: be_val_def)

lemma be_val_inj: "length bs = length cs \<Longrightarrow> be_val bs = be_val cs \<Longrightarrow> bs = cs"
proof (induction bs arbitrary: cs rule: rev_induct)
  case (snoc c bs)
  then obtain d ds where cs: "cs = ds @ [d]" by (cases cs rule: rev_cases) auto
  have *: "unat c < 256" "unat d < 256" using unsigned_less [of c] unsigned_less [of d] by simp_all
  have eq: "be_val bs * 256 + unat c = be_val ds * 256 + unat d"
    using snoc.prems cs by (simp add: be_val_append)
  have "be_val bs = be_val ds" "unat c = unat d"
    using arg_cong [OF eq, of "\<lambda>x. x div 256"] arg_cong [OF eq, of "\<lambda>x. x mod 256"] * by simp_all
  then show ?case using snoc cs by (simp add: word_unat_eq_iff)
qed simp

lemma u32_bytes_be_val:
  assumes "length bs = 4"
  shows "u32_bytes (of_nat (be_val bs)) = bs"
proof (rule be_val_inj)
  show "length (u32_bytes (of_nat (be_val bs))) = length bs" using assms by (simp add: u32_bytes_eq)
  show "be_val (u32_bytes (of_nat (be_val bs))) = be_val bs"
    using be_val_less [of bs] assms by (simp add: be_val_u32 unat_of_nat)
qed

lemma int_bytes_length [simp]:
  "length (u8_bytes v) = 1" "length (u16_bytes w) = 2" "length (u32_bytes x) = 4"
  by (simp_all add: u8_bytes_eq u16_bytes_eq u32_bytes_eq)

lemma yields_u8 [yields_intros]: "yields NetParser_u8 (u8_bytes v @ rest) v rest"
  using yields_parse_int [of "u8_bytes v" rest, where 'a = 8]
  by (simp add: be_val_u8 NetParser_u8_def)

lemma yields_u16 [yields_intros]: "yields NetParser_u16 (u16_bytes v @ rest) v rest"
  using yields_parse_int [of "u16_bytes v" rest, where 'a = 16]
  by (simp add: be_val_u16 NetParser_u16_def)

lemma yields_u32 [yields_intros]: "yields NetParser_u32 (u32_bytes v @ rest) v rest"
  using yields_parse_int [of "u32_bytes v" rest, where 'a = 32]
  by (simp add: be_val_u32 NetParser_u32_def)


section \<open>No input makes a parser throw\<close>

lemma p_safe_return [safe_intros]: "p_safe (p_return x)"
  by (simp add: p_safe_def p_return_def)

lemma p_safe_bind [safe_intros]:
  assumes "p_safe f" "\<And>x. p_safe (g x)"
  shows "p_safe (p_bind f g)"
  unfolding p_safe_def
proof (intro allI impI)
  fix p :: NetParser assume "Buffer_wf (np_buffer p)"
  then obtain v p1 where p1: "f p = Inr (v, p1)" "Buffer_wf (np_buffer p1)" "suffix (np_str p1) (np_str p)"
    using assms(1) by (auto simp: p_safe_def)
  then obtain w p2 where "g v p1 = Inr (w, p2)" "Buffer_wf (np_buffer p2)" "suffix (np_str p2) (np_str p1)"
    using assms(2) [of v] by (auto simp: p_safe_def)
  then show "\<exists>v p'. p_bind f g p = Inr (v, p') \<and> Buffer_wf (np_buffer p') \<and> suffix (np_str p') (np_str p)"
    using p1 by (auto simp: p_bind_def intro: suffix_order.order_trans)
qed

lemma p_safe_if [safe_intros]: "p_safe f \<Longrightarrow> p_safe g \<Longrightarrow> p_safe (if c then f else g)"
  by simp

lemma p_safe_reads [safe_intros]: "p_safe p_size" "p_safe p_str" "p_safe p_get_error"
  by (simp_all add: p_safe_def p_size_def p_str_def p_get_error_def)

lemma NetParser_check_size_eq:
  "NetParser_check_size n p = (if n > length (np_str p) then p\<lparr>np_error := PacketTooShort\<rparr> else p)"
  by (simp add: NetParser_check_size_def NetParser_set_error_def Buffer_size_def np_str_def)

lemma p_safe_remove_prefix [safe_intros]: "p_safe (NetParser_remove_prefix n)"
  unfolding p_safe_def
proof (intro allI impI)
  fix p :: NetParser assume wf: "Buffer_wf (np_buffer p)"
  show "\<exists>v p'. NetParser_remove_prefix n p = Inr (v, p') \<and> Buffer_wf (np_buffer p') \<and>
      suffix (np_str p') (np_str p)"
  proof (cases "n \<le> length (np_str p) \<and> np_error p = NoError")
    case True
    then obtain b where "Buffer_remove_prefix (np_buffer p) n = Inr b" "Buffer_wf b" "Buffer_str b = drop n (np_str p)"
      using buf.remove_prefix_drops [OF wf, of n] by (auto simp: np_str_def)
    then show ?thesis
      using True by (simp add: NetParser_remove_prefix_def NetParser_check_size_eq NetParser_error_def)
        (simp add: np_str_def suffix_drop)
  next
    case False
    then show ?thesis
      using wf by (auto simp: NetParser_remove_prefix_def NetParser_check_size_eq NetParser_error_def Let_def np_str_def)
  qed
qed

lemma NetParser_parse_int_cases:
  assumes "Buffer_wf (np_buffer p)"
  obtains (short) "length (np_str p) < LENGTH('a::len) div 8"
      "NetParser_parse_int p = Inr (0 :: 'a word, p\<lparr>np_error := PacketTooShort\<rparr>)"
  | (failed) "LENGTH('a) div 8 \<le> length (np_str p)" "np_error p \<noteq> NoError" "NetParser_parse_int p = Inr (0 :: 'a word, p)"
  | (read) b where "LENGTH('a) div 8 \<le> length (np_str p)" "np_error p = NoError"
      "NetParser_parse_int p =
         Inr (of_nat (be_val (take (LENGTH('a) div 8) (np_str p))) :: 'a word, p\<lparr>np_buffer := b\<rparr>)"
      "Buffer_wf b" "Buffer_str b = drop (LENGTH('a) div 8) (np_str p)"
proof -
  let ?len = "LENGTH('a) div 8"
  consider "length (np_str p) < ?len" | "?len \<le> length (np_str p)" "np_error p \<noteq> NoError"
    | "?len \<le> length (np_str p)" "np_error p = NoError" by linarith
  then show ?thesis
  proof cases
    case 1
    then show ?thesis
      by (intro short) (simp_all add: NetParser_parse_int_def NetParser_check_size_eq NetParser_error_def)
  next
    case 2
    then show ?thesis
      by (intro failed) (simp_all add: NetParser_parse_int_def NetParser_check_size_eq NetParser_error_def)
  next
    case 3
    let ?bs = "take ?len (np_str p)"
    have "yields (NetParser_parse_int :: 'a word parser) (?bs @ drop ?len (np_str p))
        (of_nat (be_val ?bs)) (drop ?len (np_str p))"
      using 3 by (intro yields_parse_int) simp
    moreover have "np_ok p" using assms 3 by (simp add: np_ok_def)
    ultimately obtain p' where p': "NetParser_parse_int p = Inr (of_nat (be_val ?bs) :: 'a word, p')"
      "np_ok p'" "np_str p' = drop ?len (np_str p)"
      by (auto simp: yields_def)
    have "p' = p\<lparr>np_buffer := np_buffer p'\<rparr>"
      using p'(1) 3 by (auto simp: NetParser_parse_int_def NetParser_check_size_eq NetParser_error_def
          bind_result_Inr_iff Let_def)
    then show ?thesis
      using p' 3 by (intro read [of "np_buffer p'"]) (simp_all add: np_ok_def np_str_def)
  qed
qed

lemma p_safe_parse_int: "p_safe (NetParser_parse_int :: 'a::len word parser)"
  unfolding p_safe_def
proof (intro allI impI)
  fix p :: NetParser assume wf: "Buffer_wf (np_buffer p)"
  show "\<exists>v p'. NetParser_parse_int p = Inr (v :: 'a word, p') \<and> Buffer_wf (np_buffer p') \<and>
      suffix (np_str p') (np_str p)"
    by (cases rule: NetParser_parse_int_cases [OF wf, where 'a = 'a])
      (use wf in \<open>simp_all add: np_str_def suffix_drop\<close>)
qed

lemmas p_safe_ints [safe_intros] =
  p_safe_parse_int [where 'a = 8, folded NetParser_u8_def]
  p_safe_parse_int [where 'a = 16, folded NetParser_u16_def]
  p_safe_parse_int [where 'a = 32, folded NetParser_u32_def]

section \<open>Properties\<close>

text \<open>C37: reading an integer in network byte order.  Whatever is in the buffer, the parser throws no
  exception: it either reports that the packet is too short, keeps an earlier error, or returns the
  big-endian value of the next bytes and removes exactly those; and it reads back what
  \<open>NetUnparser\<close> wrote.\<close>

theorem NetParser_u32_correct:
  assumes "Buffer_wf (np_buffer p)"
  shows "\<exists>v p'. NetParser_u32 p = Inr (v, p') \<and>
    (if length (np_str p) < 4 then v = 0 \<and> p' = p\<lparr>np_error := PacketTooShort\<rparr>
     else if np_error p \<noteq> NoError then v = 0 \<and> p' = p
     else np_error p' = NoError \<and> np_str p = u32_bytes v @ np_str p')"
proof -
  have four: "LENGTH(32) div 8 = 4" by simp
  from assms show ?thesis
  proof (cases rule: NetParser_parse_int_cases [of p, where 'a = 32])
    case (read b)
    note read = read [unfolded four]
    let ?v = "of_nat (be_val (take 4 (np_str p))) :: 32 word" and ?p' = "p\<lparr>np_buffer := b\<rparr>"
    have "length (take 4 (np_str p)) = 4" using read(1) by simp
    then have "u32_bytes ?v @ np_str ?p' = np_str p"
      using read(5) by (simp add: u32_bytes_be_val np_str_def del: length_take)
    with read show ?thesis by (intro exI [of _ ?v] exI [of _ ?p']) (simp add: NetParser_u32_def)
  qed (simp_all add: NetParser_u32_def)
qed

theorem NetParser_u32_correct_witness:
  "\<exists>v p'. NetParser_u32 (NetParser_new (Buffer_new [1, 2, 3, 4, 5])) = Inr (v, p') \<and>
     [1, 2, 3, 4, 5] = u32_bytes v @ np_str p'"
proof -
  let ?p = "NetParser_new (Buffer_new [1, 2, 3, 4, 5])"
  have wf: "Buffer_wf (np_buffer ?p)" and str: "np_str ?p = [1, 2, 3, 4, 5]" and err: "np_error ?p = NoError"
    by (simp_all add: NetParser_new_def np_str_def)
  have len: "\<not> length (np_str ?p) < 4" by (simp only: str) simp
  have ok: "\<not> np_error ?p \<noteq> NoError" by (simp only: err not_not)
  from NetParser_u32_correct [OF wf, unfolded if_not_P [OF len] if_not_P [OF ok], unfolded str]
  show ?thesis by (elim exE conjE) (intro exI conjI)
qed

end
