(* ===== verification/Checksum.thy ===== *)
theory Checksum
  imports Net_Parser
begin

unbundle bit_operations_syntax

text \<open>
  The class \<open>InternetChecksum\<close> of \<open>libsponge/util/util.hh\<close> and \<open>.cc\<close>: the ones' complement sum of
  the 16-bit big-endian words of a byte string, with a 32-bit accumulator and a parity bit so that
  data can be added in pieces of any length.  The lemmas relate the folded accumulator to the
  natural-number sum of the words modulo \<open>65535\<close>, and show that storing the computed checksum in
  the (zeroed) checksum field makes the checksum of the whole \<open>0\<close>.
\<close>

section \<open>The class\<close>

record InternetChecksum =
  ic_sum :: "32 word"
  ic_parity :: bool

definition InternetChecksum_new :: "32 word \<Rightarrow> InternetChecksum" where
  "InternetChecksum_new initial_sum = \<lparr>ic_sum = initial_sum, ic_parity = False\<rparr>"

definition InternetChecksum_add_byte :: "byte \<Rightarrow> InternetChecksum \<Rightarrow> InternetChecksum" where
  "InternetChecksum_add_byte c ic =
     (let val = ucast c :: 16 word;
          val' = (if \<not> ic_parity ic then push_bit 8 val else val)
      in \<lparr>ic_sum = ic_sum ic + ucast val', ic_parity = (\<not> ic_parity ic)\<rparr>)"

definition InternetChecksum_add :: "InternetChecksum \<Rightarrow> bytes \<Rightarrow> InternetChecksum" where
  "InternetChecksum_add ic data = fold InternetChecksum_add_byte data ic"

lemma fold_carry_less:
  assumes "(ret :: 32 word) > 0xffff"
  shows "unat (drop_bit 16 ret + (ret AND 0xffff)) = unat ret div 65536 + unat ret mod 65536"
    "unat (drop_bit 16 ret + (ret AND 0xffff)) < unat ret"
proof -
  have and16: "ret AND 0xffff = take_bit 16 ret"
    by (simp add: take_bit_eq_mask mask_eq_exp_minus_1)
  have hi: "unat (drop_bit 16 ret) = unat ret div 65536"
    unfolding unat_drop_bit_eq by (simp add: drop_bit_eq_div)
  have lo: "unat (ret AND 0xffff) = unat ret mod 65536"
    unfolding and16 unsigned_take_bit_eq by (simp add: take_bit_eq_mod)
  have ret: "unat ret > 65535" "unat ret < 65536 * 65536"
    using assms unsigned_less [of ret] by (simp_all add: word_less_nat_alt)
  then have "unat ret div 65536 < 65536" by (intro less_mult_imp_div_less) simp
  moreover have "unat ret mod 65536 < 65536" by simp
  ultimately have "unat ret div 65536 + unat ret mod 65536 < 2 ^ 32"
    by (simp del: mod_less_divisor)
  then show sum: "unat (drop_bit 16 ret + (ret AND 0xffff)) = unat ret div 65536 + unat ret mod 65536"
    by (simp add: unat_word_ariths hi lo)
  have "unat ret div 65536 \<ge> 1" using ret by (simp add: Suc_le_eq div_greater_zero_iff)
  then have "unat ret div 65536 < unat ret div 65536 * 65536" by simp
  then show "unat (drop_bit 16 ret + (ret AND 0xffff)) < unat ret"
    unfolding sum using div_mult_mod_eq [of "unat ret" 65536] by linarith
qed

function fold_carry :: "32 word \<Rightarrow> 32 word" where
  "fold_carry ret = (if ret > 0xffff then fold_carry (drop_bit 16 ret + (ret AND 0xffff)) else ret)"
  by auto
termination
  by (relation "measure unat") (auto intro: fold_carry_less(2))

declare fold_carry.simps [simp del]

definition InternetChecksum_value :: "InternetChecksum \<Rightarrow> 16 word" where
  "InternetChecksum_value ic = ucast (NOT (fold_carry (ic_sum ic)))"

section \<open>Specification\<close>

text \<open>The sum of the 16-bit words of a byte string that starts at an even (\<open>par = False\<close>) or an odd
  position, as a natural number.\<close>

fun word_sum :: "bool \<Rightarrow> bytes \<Rightarrow> nat" where
  "word_sum par [] = 0"
| "word_sum par (c # bs) = (if par then unat c else 256 * unat c) + word_sum (\<not> par) bs"

text \<open>The parity after a byte string.\<close>

definition par_after :: "bool \<Rightarrow> bytes \<Rightarrow> bool" where
  "par_after par bs = (par \<noteq> odd (length bs))"

section \<open>Adding data\<close>

lemma InternetChecksum_add_eq:
  "InternetChecksum_add ic data =
     \<lparr>ic_sum = ic_sum ic + of_nat (word_sum (ic_parity ic) data), ic_parity = par_after (ic_parity ic) data\<rparr>"
proof (induction data arbitrary: ic)
  case Nil
  then show ?case by (simp add: InternetChecksum_add_def par_after_def)
next
  case (Cons c data)
  have c: "unat c < 256" using unsigned_less [of c] by simp
  have "unat (push_bit 8 (ucast c :: 16 word)) = 256 * unat c"
    using c by (simp add: push_bit_eq_mult unat_word_ariths unsigned_ucast_eq take_bit_eq_mod)
  then have hi: "ucast (push_bit 8 (ucast c :: 16 word)) = (of_nat (256 * unat c) :: 32 word)"
    by (metis of_nat_unat)
  have "unat (ucast c :: 16 word) = unat c"
    using c by (simp add: unsigned_ucast_eq take_bit_eq_mod)
  then have lo: "ucast (ucast c :: 16 word) = (of_nat (unat c) :: 32 word)"
    by (metis of_nat_unat)
  have step: "InternetChecksum_add_byte c ic =
      \<lparr>ic_sum = ic_sum ic + of_nat (if ic_parity ic then unat c else 256 * unat c), ic_parity = (\<not> ic_parity ic)\<rparr>"
    unfolding InternetChecksum_add_byte_def Let_def using hi lo by (simp del: of_nat_mult)
  have "InternetChecksum_add ic (c # data) = InternetChecksum_add (InternetChecksum_add_byte c ic) data"
    by (simp add: InternetChecksum_add_def)
  then show ?case by (simp add: Cons step par_after_def add.assoc)
qed

lemma word_sum_append: "word_sum par (a @ b) = word_sum par a + word_sum (par_after par a) b"
proof (induction a arbitrary: par)
  case (Cons c a)
  have "par_after (\<not> par) a = par_after par (c # a)" by (auto simp: par_after_def)
  then show ?case using Cons by simp
qed (simp add: par_after_def)

text \<open>Adding data in pieces is adding it at once.\<close>

lemma InternetChecksum_add_append:
  "InternetChecksum_add ic (a @ b) = InternetChecksum_add (InternetChecksum_add ic a) b"
  by (simp add: InternetChecksum_add_def)

lemma word_sum_bound: "word_sum par bs \<le> 65280 * length bs"
proof (induction bs arbitrary: par)
  case (Cons c bs)
  have "unat c < 256" using unsigned_less [of c] by simp
  then show ?case using Cons [of False] Cons [of True] by simp
qed simp

section \<open>Folding the carries\<close>

lemma fold_carry_spec:
  "unat (fold_carry w) \<le> 65535 \<and> unat (fold_carry w) mod 65535 = unat w mod 65535 \<and>
   (fold_carry w = 0 \<longleftrightarrow> w = 0) \<and> unat (fold_carry w) \<le> unat w"
proof (induction w rule: fold_carry.induct)
  case (1 w)
  show ?case
  proof (cases "w > 0xffff")
    case True
    let ?w = "drop_bit 16 w + (w AND 0xffff)"
    note w = fold_carry_less [OF True]
    have "unat w > 65535" using True by (simp add: word_less_nat_alt)
    then have "unat w div 65536 > 0" by (simp add: div_greater_zero_iff)
    then have pos: "unat ?w \<noteq> 0" using w(1) by simp
    have "unat w mod 65535 = (unat w div 65536 * 65536 + unat w mod 65536) mod 65535"
      by (simp only: div_mult_mod_eq)
    also have "unat w div 65536 * 65536 + unat w mod 65536 = unat ?w + unat w div 65536 * 65535"
      using w(1) by simp
    finally have "unat ?w mod 65535 = unat w mod 65535" by simp
    then show ?thesis
      using 1 [OF True] True pos w(2) by (auto simp: fold_carry.simps [of w])
  next
    case False
    then have "unat w \<le> 65535" by (simp add: word_less_nat_alt not_less)
    then show ?thesis using False by (simp add: fold_carry.simps [of w])
  qed
qed

lemma InternetChecksum_value_eq: "unat (InternetChecksum_value ic) = 65535 - unat (fold_carry (ic_sum ic))"
proof -
  let ?w = "fold_carry (ic_sum ic)"
  have le: "unat ?w \<le> 65535" using fold_carry_spec by blast
  have "NOT ?w = - 1 - ?w" by (simp add: not_eq_complement)
  moreover have "unat (- 1 - ?w) = unat (- 1 :: 32 word) - unat ?w"
    by (rule unat_sub) simp
  ultimately have "unat (NOT ?w) = 2 ^ 32 - 1 - unat ?w"
    by (simp add: unsigned_minus_1_eq_mask mask_eq_exp_minus_1)
  then have "unat (InternetChecksum_value ic) = (2 ^ 32 - 1 - unat ?w) mod 2 ^ 16"
    by (simp add: InternetChecksum_value_def unsigned_ucast_eq take_bit_eq_mod)
  also have "2 ^ 32 - 1 - unat ?w = (65535 - unat ?w) + 65535 * 2 ^ 16"
    using le by simp
  also have "\<dots> mod 2 ^ 16 = (65535 - unat ?w) mod 2 ^ 16"
    by (simp only: mod_mult_self1)
  finally show ?thesis by simp
qed

lemma InternetChecksum_value_zero_iff:
  "InternetChecksum_value ic = 0 \<longleftrightarrow> ic_sum ic \<noteq> 0 \<and> unat (ic_sum ic) mod 65535 = 0"
proof -
  let ?c = "fold_carry (ic_sum ic)"
  have spec: "unat ?c \<le> 65535" "unat ?c mod 65535 = unat (ic_sum ic) mod 65535" "?c = 0 \<longleftrightarrow> ic_sum ic = 0"
    using fold_carry_spec by blast+
  have "InternetChecksum_value ic = 0 \<longleftrightarrow> unat (InternetChecksum_value ic) = 0"
    by (simp only: unat_eq_zero)
  also have "\<dots> \<longleftrightarrow> unat ?c = 65535"
    using spec(1) by (auto simp: InternetChecksum_value_eq)
  also have "\<dots> \<longleftrightarrow> ?c \<noteq> 0 \<and> unat ?c mod 65535 = 0"
  proof
    assume "?c \<noteq> 0 \<and> unat ?c mod 65535 = 0"
    then have "0 < unat ?c" "65535 dvd unat ?c" by (auto simp: unat_gt_0 mod_eq_0_iff_dvd)
    then show "unat ?c = 65535" using spec(1) dvd_imp_le by (metis le_antisym)
  qed auto
  finally show ?thesis using spec by simp
qed

section \<open>Inserting the checksum\<close>

lemma word_sum_u16: "word_sum False (u16_bytes v) = unat v"
  using be_val_u16 [of v] by (simp add: u16_bytes_eq be_val_def)

lemma unat_plus_of_nat: "unat ((w :: 32 word) + of_nat n) = (unat w + n) mod 2 ^ 32"
  by (simp add: unat_word_ariths(1) unat_of_nat mod_add_right_eq)

lemma checksum_inserted:
  assumes even: "even (length pre)"
    and small: "unat init + word_sum False (pre @ u16_bytes 0 @ post) + 65535 < 2 ^ 32"
    and ck: "ck = InternetChecksum_value (InternetChecksum_add (InternetChecksum_new init) (pre @ u16_bytes 0 @ post))"
  shows "InternetChecksum_value (InternetChecksum_add (InternetChecksum_new init) (pre @ u16_bytes ck @ post)) = 0"
proof -
  define s where "s = unat init + word_sum False (pre @ u16_bytes 0 @ post)"
  have split: "word_sum False (pre @ u16_bytes v @ post) = word_sum False pre + unat v + word_sum False post" for v
    using even by (simp add: word_sum_append par_after_def word_sum_u16)
  have sum: "unat (init + of_nat (word_sum False (pre @ u16_bytes v @ post))) = s + unat v"
    if "s + unat v < 2 ^ 32" for v
  proof -
    have "unat (init + of_nat (word_sum False (pre @ u16_bytes v @ post))) =
        (unat init + word_sum False (pre @ u16_bytes v @ post)) mod 2 ^ 32"
      by (rule unat_plus_of_nat)
    also have "unat init + word_sum False (pre @ u16_bytes v @ post) = s + unat v"
      unfolding s_def split by simp
    finally show ?thesis using that by (simp only: mod_less)
  qed
  define c where "c = unat (fold_carry (init + of_nat (word_sum False (pre @ u16_bytes 0 @ post))))"
  have c: "c \<le> 65535" "c mod 65535 = s mod 65535" "c \<le> s"
    using fold_carry_spec [of "init + of_nat (word_sum False (pre @ u16_bytes 0 @ post))"] sum [of 0] small
    by (auto simp: c_def s_def)
  have ck_eq: "unat ck = 65535 - c"
    by (simp add: ck InternetChecksum_value_eq InternetChecksum_add_eq InternetChecksum_new_def c_def)
  obtain d where d: "s = c + d" "65535 dvd d"
    using c(2,3) by (metis le_add_diff_inverse mod_eq_dvd_iff_nat)
  have "s + unat ck = d + 65535" using d ck_eq c(1) by simp
  moreover have "s + unat ck < 2 ^ 32" using small ck_eq by (simp add: s_def)
  ultimately have w: "unat (init + of_nat (word_sum False (pre @ u16_bytes ck @ post))) = d + 65535"
    using sum [of ck] by simp
  then have "init + of_nat (word_sum False (pre @ u16_bytes ck @ post)) \<noteq> 0" by (metis add_is_0 numeral_neq_zero unat_0)
  moreover have "(d + 65535) mod 65535 = 0" using d(2) by simp
  ultimately show ?thesis
    by (simp add: InternetChecksum_value_zero_iff InternetChecksum_add_eq InternetChecksum_new_def w del: mod_add_self2)
qed

lemma checksum_small:
  assumes "even (length pre)" "length pre + 2 + length post \<le> 65535" "unat init < 2 ^ 19"
    and "ck = InternetChecksum_value (InternetChecksum_add (InternetChecksum_new init) (pre @ u16_bytes 0 @ post))"
  shows "InternetChecksum_value (InternetChecksum_add (InternetChecksum_new init) (pre @ u16_bytes ck @ post)) = 0"
proof (rule checksum_inserted [OF assms(1) _ assms(4)])
  have "word_sum False (pre @ u16_bytes 0 @ post) \<le> 65280 * (length pre + 2 + length post)"
    using word_sum_bound [of False "pre @ u16_bytes 0 @ post"] by simp
  then show "unat init + word_sum False (pre @ u16_bytes 0 @ post) + 65535 < 2 ^ 32"
    using assms(2,3) by simp
qed

text \<open>The ones' complement sum of 16-bit words whose sum is \<open>n\<close>.\<close>

definition ones_complement :: "nat \<Rightarrow> nat" where
  "ones_complement n = (if n = 0 then 0 else (n - 1) mod 65535 + 1)"

lemma fold_carry_ones_complement: "unat (fold_carry w) = ones_complement (unat w)"
proof (cases "w = 0")
  case True
  then show ?thesis by (simp add: ones_complement_def fold_carry.simps)
next
  case False
  have spec: "unat (fold_carry w) \<le> 65535" "unat (fold_carry w) mod 65535 = unat w mod 65535" "fold_carry w \<noteq> 0"
    "unat (fold_carry w) \<le> unat w"
    using fold_carry_spec [of w] False by blast+
  obtain m n where mn: "unat (fold_carry w) = Suc m" "unat w = Suc n"
    using False spec(3) by (metis not0_implies_Suc unat_eq_zero)
  have "65535 dvd n - m"
    using spec(2,4) mod_eq_dvd_iff_nat [of "Suc m" "Suc n" 65535] unfolding mn by simp
  then have "n mod 65535 = m mod 65535"
    using spec(4) mod_eq_dvd_iff_nat [of m n 65535] unfolding mn by simp
  then show ?thesis using spec(1) by (simp add: ones_complement_def mn)
qed

lemma InternetChecksum_pieces:
  "fold (\<lambda>d ic. InternetChecksum_add ic d) pieces ic = InternetChecksum_add ic (concat pieces)"
  by (induction pieces arbitrary: ic) (simp_all add: InternetChecksum_add_append InternetChecksum_add_def)

section \<open>Properties\<close>

text \<open>C35: the checksum computed over data with a zeroed checksum field at an even offset, written into
  that field in network byte order, makes the checksum of the whole zero, which is what a receiver
  tests.  The bound keeps the 32-bit accumulator from overflowing; it holds for every datagram of
  at most \<open>65535\<close> bytes.\<close>

theorem InternetChecksum_verifies:
  assumes "even (length pre)" "length pre + 2 + length post \<le> 65535" "unat init < 2 ^ 19"
    and "ck = InternetChecksum_value (InternetChecksum_add (InternetChecksum_new init) (pre @ u16_bytes 0 @ post))"
  shows "InternetChecksum_value (InternetChecksum_add (InternetChecksum_new init) (pre @ u16_bytes ck @ post)) = 0"
  using assms by (rule checksum_small)

theorem InternetChecksum_verifies_witness:
  "InternetChecksum_value (InternetChecksum_add (InternetChecksum_new 6)
     ([0x45, 0] @ u16_bytes (InternetChecksum_value
        (InternetChecksum_add (InternetChecksum_new 6) ([0x45, 0] @ u16_bytes 0 @ [1, 2, 3])))
      @ [1, 2, 3])) = 0"
  by (rule InternetChecksum_verifies) simp_all

text \<open>C36: in whatever pieces the data is added, the value is the complement of the ones' complement sum
  of the initial sum and the 16-bit big-endian words of the concatenation (the last one padded with
  zero when the length is odd).\<close>

theorem InternetChecksum_reference:
  assumes "unat init + word_sum False (concat pieces) < 2 ^ 32"
  shows "unat (InternetChecksum_value
      (fold (\<lambda>d ic. InternetChecksum_add ic d) pieces (InternetChecksum_new init))) =
    65535 - ones_complement (unat init + word_sum False (concat pieces))"
  using assms unfolding InternetChecksum_pieces
  by (simp add: InternetChecksum_value_eq fold_carry_ones_complement
      InternetChecksum_add_eq InternetChecksum_new_def unat_plus_of_nat)

theorem InternetChecksum_reference_witness:
  "unat (InternetChecksum_value
      (fold (\<lambda>d ic. InternetChecksum_add ic d) [[0x12], [0x34, 0xff], [0xff]] (InternetChecksum_new 0))) =
    65535 - 0x1234"
  using InternetChecksum_reference [of 0 "[[0x12], [0x34, 0xff], [0xff]]"]
  by (simp add: ones_complement_def)

end
