(* ===== verification/Text_Numbers.thy ===== *)
theory Text_Numbers
  imports Checksum
begin

text \<open>
  Numbers as text: what \<open>std::to_string\<close>, a stream with the manipulators \<open>hex\<close>, \<open>setw\<close>, \<open>setfill('0')\<close>
  and \<open>boolalpha\<close>, \<open>inet_ntoa\<close> and \<open>std::stoi\<close> do.
\<close>

section \<open>Digits\<close>

definition digit :: "nat \<Rightarrow> char" where
  "digit d = ''0123456789abcdef'' ! d"

fun print_base :: "nat \<Rightarrow> nat \<Rightarrow> string" where
  "print_base b n = (if n < b \<or> b < 2 then [digit n] else print_base b (n div b) @ [digit (n mod b)])"

declare print_base.simps [simp del]

definition to_string :: "nat \<Rightarrow> string" where
  "to_string n = print_base 10 n"

definition to_hex :: "nat \<Rightarrow> string" where
  "to_hex n = print_base 16 n"

definition zero_fill :: "nat \<Rightarrow> string \<Rightarrow> string" where
  "zero_fill width s = replicate (width - length s) (CHR ''0'') @ s"

definition boolalpha :: "bool \<Rightarrow> string" where
  "boolalpha b = (if b then ''true'' else ''false'')"

text \<open>The dotted quad of an address in host byte order.\<close>

definition inet_ntoa :: "32 word \<Rightarrow> string" where
  "inet_ntoa ip =
     to_string (unat (drop_bit 24 ip AND 0xff)) @ ''.'' @ to_string (unat (drop_bit 16 ip AND 0xff)) @ ''.'' @
     to_string (unat (drop_bit 8 ip AND 0xff)) @ ''.'' @ to_string (unat (ip AND 0xff))"

text \<open>\<open>stoi\<close> reads the digits a string starts with; without any it throws.  A sign, leading white space and
  numbers beyond \<open>int\<close> do not occur in the sources.\<close>

definition digit_value :: "char \<Rightarrow> nat option" where
  "digit_value c = (let v = of_char c in if 48 \<le> v \<and> v \<le> 57 then Some (v - 48) else None)"

definition stoi :: "string \<Rightarrow> nat result" where
  "stoi s =
     (let digits = takeWhile (\<lambda>c. digit_value c \<noteq> None) s
      in if digits = [] then Inl Invalid_Argument
         else Inr (foldl (\<lambda>n c. n * 10 + the (digit_value c)) 0 digits))"

section \<open>Printing and reading back\<close>

lemma length_digits: "length ''0123456789abcdef'' = 16"
  by simp

lemma digit_value_digit: "d < 10 \<Longrightarrow> digit_value (digit d) = Some d"
proof -
  have "\<forall>d \<in> set [0 ..< 10]. digit_value (digit d) = Some d"
    by (simp add: digit_value_def digit_def upt_rec)
  then show "d < 10 \<Longrightarrow> digit_value (digit d) = Some d" by simp
qed

lemma digit_inj: "d < 16 \<Longrightarrow> e < 16 \<Longrightarrow> digit d = digit e \<Longrightarrow> d = e"
proof -
  have "distinct ''0123456789abcdef''" by simp
  then show "d < 16 \<Longrightarrow> e < 16 \<Longrightarrow> digit d = digit e \<Longrightarrow> d = e"
    unfolding digit_def by (subst (asm) nth_eq_iff_index_eq) simp_all
qed

lemma to_string_digits: "\<forall>c \<in> set (to_string n). digit_value c \<noteq> None"
proof -
  have "\<forall>c \<in> set (print_base 10 n). digit_value c \<noteq> None" for n
  proof (induction "10 :: nat" n rule: print_base.induct)
    case (1 n)
    then show ?case by (subst print_base.simps) (auto simp: digit_value_digit)
  qed
  then show ?thesis by (simp add: to_string_def)
qed

lemma stoi_to_string: "stoi (to_string n) = Inr n"
proof -
  have val: "foldl (\<lambda>n c. n * 10 + the (digit_value c)) 0 (print_base 10 n) = n" for n
  proof (induction "10 :: nat" n rule: print_base.induct)
    case (1 n)
    then show ?case by (subst print_base.simps) (auto simp: digit_value_digit)
  qed
  have ne: "print_base 10 n \<noteq> []" by (subst print_base.simps) simp
  have tw: "takeWhile (\<lambda>c. digit_value c \<noteq> None) (print_base 10 n) = print_base 10 n"
    using to_string_digits [of n] by (simp add: takeWhile_eq_all_conv to_string_def)
  show ?thesis unfolding stoi_def to_string_def Let_def tw using val ne by simp
qed

lemma to_string_inj: "to_string m = to_string n \<Longrightarrow> m = n"
  using stoi_to_string by (metis sum.inject(2))

lemma print_base_inj: "2 \<le> b \<Longrightarrow> b \<le> 16 \<Longrightarrow> print_base b m = print_base b n \<Longrightarrow> m = n"
proof (induction b m arbitrary: n rule: print_base.induct)
  case (1 b m)
  have len: "length (print_base b k) = 1 \<longleftrightarrow> k < b" for k
  proof -
    have "print_base b j \<noteq> []" for j by (subst print_base.simps) simp
    then show ?thesis using 1(2) by (subst print_base.simps) auto
  qed
  have d: "digit (k mod b) = digit (j mod b) \<Longrightarrow> k mod b = j mod b" for k j
    using 1(2,3) by (intro digit_inj) (auto intro: less_le_trans [OF mod_less_divisor])
  show ?case
  proof (cases "m < b")
    case True
    then have "n < b" using len [of m] len [of n] 1(4) by simp
    then show ?thesis using True 1(3,4) digit_inj [of m n] by (simp add: print_base.simps)
  next
    case False
    then have "\<not> n < b" using len [of m] len [of n] 1(4) by simp
    then have "print_base b (m div b) = print_base b (n div b)" "m mod b = n mod b"
      using False 1(2,4) d [of m n] by (simp_all add: print_base.simps [of b m] print_base.simps [of b n])
    then show ?thesis using 1(1) [OF _ 1(2,3)] False 1(2) by (metis div_mult_mod_eq not_less)
  qed
qed

section \<open>Dotted quads\<close>

lemma to_string_dot: "to_string m @ CHR ''.'' # s = to_string n @ CHR ''.'' # t \<longleftrightarrow> m = n \<and> s = t"
proof
  assume eq: "to_string m @ CHR ''.'' # s = to_string n @ CHR ''.'' # t"
  have dot: "digit_value (CHR ''.'') = None" by (simp add: digit_value_def)
  have tw: "takeWhile (\<lambda>c. digit_value c \<noteq> None) (to_string k @ CHR ''.'' # u) = to_string k" for k u
    using to_string_digits [of k] dot by (simp add: takeWhile_append)
  have "to_string m = to_string n" using tw [of m s] tw [of n t] eq by simp
  then show "m = n \<and> s = t" using eq to_string_inj by auto
qed simp

lemma inet_ntoa_inj: "inet_ntoa a = inet_ntoa b \<Longrightarrow> a = b"
proof -
  assume "inet_ntoa a = inet_ntoa b"
  then have oct: "drop_bit 24 a AND 0xff = drop_bit 24 b AND 0xff" "drop_bit 16 a AND 0xff = drop_bit 16 b AND 0xff"
      "drop_bit 8 a AND 0xff = drop_bit 8 b AND 0xff" "a AND 0xff = b AND 0xff"
    unfolding word_unat_eq_iff by (auto simp: inet_ntoa_def to_string_dot dest!: to_string_inj)
  have "u32_bytes a = u32_bytes b" unfolding u32_bytes_eq using oct by simp
  then have "unat a = unat b" using be_val_u32 by metis
  then show "a = b" by (simp add: word_unat_eq_iff)
qed

end
