(* ===== verification/Ethernet.thy ===== *)
theory Ethernet
  imports Net_Parser
begin

text \<open>
  \<open>libsponge/tcp_helpers/ethernet_header.hh\<close>, \<open>ethernet_frame.hh\<close>, \<open>arp_message.hh\<close> and their \<open>.cc\<close>:
  Ethernet frames and ARP messages.  An Ethernet address is a list of six bytes.  Both formats are
  instances of \<open>wire_format\<close>.
\<close>

section \<open>EthernetHeader\<close>

type_synonym EthernetAddress = bytes

definition ETHERNET_BROADCAST :: EthernetAddress where
  "ETHERNET_BROADCAST = [0xff, 0xff, 0xff, 0xff, 0xff, 0xff]"

record EthernetHeader =
  eth_dst :: EthernetAddress
  eth_src :: EthernetAddress
  eth_type :: "16 word"

definition EthernetHeader_LENGTH :: nat where
  "EthernetHeader_LENGTH = 14"

definition TYPE_IPv4 :: "16 word" where
  "TYPE_IPv4 = 0x800"

definition TYPE_ARP :: "16 word" where
  "TYPE_ARP = 0x806"

definition EthernetHeader_default :: EthernetHeader where
  "EthernetHeader_default = \<lparr>eth_dst = replicate 6 0, eth_src = replicate 6 0, eth_type = 0\<rparr>"

text \<open>The loops \<open>for (auto &byte : a) byte = p.u8()\<close> and \<open>for (auto &byte : a) u8(ret, byte)\<close>.\<close>

fun parse_address :: "EthernetAddress \<Rightarrow> EthernetAddress parser" where
  "parse_address [] = p_return []"
| "parse_address (_ # a) =
     p_bind NetParser_u8 (\<lambda>c. p_bind (parse_address a) (\<lambda>cs. p_return (c # cs)))"

definition unparse_address :: "bytes \<Rightarrow> EthernetAddress \<Rightarrow> bytes" where
  "unparse_address ret a = fold (\<lambda>c ret. NetUnparser_u8 ret c) a ret"

definition EthernetHeader_parse :: "EthernetHeader \<Rightarrow> (ParseResult \<times> EthernetHeader) parser" where
  "EthernetHeader_parse h =
     p_bind p_size (\<lambda>n.
     if n < EthernetHeader_LENGTH then p_return (PacketTooShort, h)
     else p_bind (parse_address (eth_dst h)) (\<lambda>dst. p_bind (parse_address (eth_src h)) (\<lambda>src.
          p_bind NetParser_u16 (\<lambda>type. p_bind p_get_error (\<lambda>err.
          p_return (err, \<lparr>eth_dst = dst, eth_src = src, eth_type = type\<rparr>))))))"

definition EthernetHeader_serialize :: "EthernetHeader \<Rightarrow> bytes" where
  "EthernetHeader_serialize h =
     (let ret = unparse_address [] (eth_dst h);
          ret = unparse_address ret (eth_src h)
      in NetUnparser_u16 ret (eth_type h))"

section \<open>EthernetFrame\<close>

record EthernetFrame =
  fr_header :: EthernetHeader
  fr_payload :: BufferList

definition EthernetFrame_default :: EthernetFrame where
  "EthernetFrame_default = \<lparr>fr_header = EthernetHeader_default, fr_payload = []\<rparr>"

definition EthernetFrame_parse :: "EthernetFrame \<Rightarrow> Buffer \<Rightarrow> (ParseResult \<times> EthernetFrame) result" where
  "EthernetFrame_parse fr buffer =
     bind_result (EthernetHeader_parse (fr_header fr) (NetParser_new buffer)) (\<lambda>((_, header), p).
       Inr (np_error p, \<lparr>fr_header = header, fr_payload = BufferList_of_Buffer (np_buffer p)\<rparr>))"

definition EthernetFrame_serialize :: "EthernetFrame \<Rightarrow> BufferList" where
  "EthernetFrame_serialize fr =
     (let ret = BufferList_append [] (BufferList_new (EthernetHeader_serialize (fr_header fr)))
      in BufferList_append ret (fr_payload fr))"

section \<open>ARPMessage\<close>

record ARPMessage =
  arp_hardware_type :: "16 word"
  arp_protocol_type :: "16 word"
  arp_hardware_address_size :: "8 word"
  arp_protocol_address_size :: "8 word"
  arp_opcode :: "16 word"
  arp_sender_ethernet_address :: EthernetAddress
  arp_sender_ip_address :: "32 word"
  arp_target_ethernet_address :: EthernetAddress
  arp_target_ip_address :: "32 word"

definition ARPMessage_LENGTH :: nat where
  "ARPMessage_LENGTH = 28"

definition TYPE_ETHERNET :: "16 word" where
  "TYPE_ETHERNET = 1"

definition OPCODE_REQUEST :: "16 word" where
  "OPCODE_REQUEST = 1"

definition OPCODE_REPLY :: "16 word" where
  "OPCODE_REPLY = 2"

definition ARPMessage_default :: ARPMessage where
  "ARPMessage_default =
     \<lparr>arp_hardware_type = TYPE_ETHERNET, arp_protocol_type = TYPE_IPv4, arp_hardware_address_size = 6,
      arp_protocol_address_size = 4, arp_opcode = 0, arp_sender_ethernet_address = replicate 6 0,
      arp_sender_ip_address = 0, arp_target_ethernet_address = replicate 6 0, arp_target_ip_address = 0\<rparr>"

definition ARPMessage_supported :: "ARPMessage \<Rightarrow> bool" where
  "ARPMessage_supported m \<longleftrightarrow>
     arp_hardware_type m = TYPE_ETHERNET \<and> arp_protocol_type m = TYPE_IPv4 \<and>
     arp_hardware_address_size m = 6 \<and> arp_protocol_address_size m = 4 \<and>
     (arp_opcode m = OPCODE_REQUEST \<or> arp_opcode m = OPCODE_REPLY)"

definition ARPMessage_parse_from :: "ARPMessage \<Rightarrow> (ParseResult \<times> ARPMessage) parser" where
  "ARPMessage_parse_from m =
     p_bind p_size (\<lambda>n.
     if n < ARPMessage_LENGTH then p_return (PacketTooShort, m)
     else
       p_bind NetParser_u16 (\<lambda>hardware_type. p_bind NetParser_u16 (\<lambda>protocol_type.
       p_bind NetParser_u8 (\<lambda>hardware_address_size. p_bind NetParser_u8 (\<lambda>protocol_address_size.
       p_bind NetParser_u16 (\<lambda>opcode.
         let m' = m\<lparr>arp_hardware_type := hardware_type, arp_protocol_type := protocol_type,
                    arp_hardware_address_size := hardware_address_size,
                    arp_protocol_address_size := protocol_address_size, arp_opcode := opcode\<rparr>
         in if \<not> ARPMessage_supported m' then p_return (Unsupported, m')
            else
              p_bind (parse_address (arp_sender_ethernet_address m)) (\<lambda>sender_eth.
              p_bind NetParser_u32 (\<lambda>sender_ip.
              p_bind (parse_address (arp_target_ethernet_address m)) (\<lambda>target_eth.
              p_bind NetParser_u32 (\<lambda>target_ip.
              p_bind p_get_error (\<lambda>err.
              p_return (err, m'\<lparr>arp_sender_ethernet_address := sender_eth, arp_sender_ip_address := sender_ip,
                                arp_target_ethernet_address := target_eth, arp_target_ip_address := target_ip\<rparr>))))))))))))"

definition ARPMessage_parse :: "ARPMessage \<Rightarrow> Buffer \<Rightarrow> (ParseResult \<times> ARPMessage) result" where
  "ARPMessage_parse m buffer =
     bind_result (ARPMessage_parse_from m (NetParser_new buffer)) (\<lambda>(r, _). Inr r)"

definition ARPMessage_serialize :: "ARPMessage \<Rightarrow> bytes result" where
  "ARPMessage_serialize m =
     (if \<not> ARPMessage_supported m then Inl Runtime_Error
      else let ret = NetUnparser_u16 [] (arp_hardware_type m);
               ret = NetUnparser_u16 ret (arp_protocol_type m);
               ret = NetUnparser_u8 ret (arp_hardware_address_size m);
               ret = NetUnparser_u8 ret (arp_protocol_address_size m);
               ret = NetUnparser_u16 ret (arp_opcode m);
               ret = unparse_address ret (arp_sender_ethernet_address m);
               ret = NetUnparser_u32 ret (arp_sender_ip_address m);
               ret = unparse_address ret (arp_target_ethernet_address m)
           in Inr (NetUnparser_u32 ret (arp_target_ip_address m)))"

section \<open>Addresses\<close>

lemma unparse_address_eq: "unparse_address ret a = ret @ a"
proof (induction a arbitrary: ret)
  case (Cons c a)
  have "NetUnparser_u8 ret c = ret @ [c]"
    by (cases "ret = []") (simp_all add: NetUnparser_append u8_bytes_eq)
  then show ?case using Cons by (simp add: unparse_address_def)
qed (simp add: unparse_address_def)

lemma yields_address [yields_intros]:
  "length a = length a0 \<Longrightarrow> yields (parse_address a0) (a @ rest) a rest"
proof (induction a0 arbitrary: a)
  case Nil
  then show ?case by (simp add: yields_return)
next
  case (Cons c0 a0)
  then obtain c a' where a: "a = c # a'" "length a' = length a0" by (cases a) auto
  have "yields NetParser_u8 (c # a' @ rest) c (a' @ rest)"
    using yields_u8 [of c "a' @ rest"] by (simp add: u8_bytes_eq)
  then show ?case
    unfolding a parse_address.simps append_Cons
    by (rule yields_bind) (rule yields_bind, rule Cons.IH [OF a(2)], rule yields_return)
qed

lemma parse_address_safe [safe_intros]: "p_safe (parse_address a)"
  by (induction a) (simp_all add: safe_intros)

section \<open>Ethernet frames\<close>

definition EthernetHeader_wf :: "EthernetHeader \<Rightarrow> bool" where
  "EthernetHeader_wf h \<longleftrightarrow> length (eth_dst h) = 6 \<and> length (eth_src h) = 6"

lemma EthernetHeader_serialize_eq:
  "length (eth_dst h) = 6 \<Longrightarrow> EthernetHeader_serialize h = eth_dst h @ eth_src h @ u16_bytes (eth_type h)"
  by (subgoal_tac "eth_dst h \<noteq> []") (auto simp: EthernetHeader_serialize_def Let_def unparse_address_eq NetUnparser_append)

lemma EthernetHeader_roundtrip:
  assumes "EthernetHeader_wf h" "EthernetHeader_wf h0"
  shows "yields (EthernetHeader_parse h0) (EthernetHeader_serialize h @ rest) (NoError, h) rest"
proof -
  have len: "length (eth_dst h) = length (eth_dst h0)" "length (eth_src h) = length (eth_src h0)"
    and six: "length (eth_dst h) = 6" "length (eth_src h) = 6"
    using assms by (simp_all add: EthernetHeader_wf_def)
  have n: "\<not> length (EthernetHeader_serialize h @ rest) < EthernetHeader_LENGTH"
    using six by (simp add: EthernetHeader_serialize_eq EthernetHeader_LENGTH_def)
  have input: "EthernetHeader_serialize h @ rest = eth_dst h @ eth_src h @ u16_bytes (eth_type h) @ rest"
    using six by (simp add: EthernetHeader_serialize_eq)
  have h: "\<lparr>eth_dst = eth_dst h, eth_src = eth_src h, eth_type = eth_type h\<rparr> = h" by simp
  have "yields (p_return (NoError, \<lparr>eth_dst = eth_dst h, eth_src = eth_src h, eth_type = eth_type h\<rparr>)) rest
      (NoError, h) rest"
    unfolding h by (rule yields_return)
  then show ?thesis
    unfolding EthernetHeader_parse_def
    by (intro yields_bind [OF yields_size] if_not_P [OF n, THEN ssubst, where P = "\<lambda>f. yields f s v t" for s v t]
        yields_input [OF input] yields_bind [OF yields_address [OF len(1)]]
        yields_bind [OF yields_address [OF len(2)]] yields_bind [OF yields_u16] yields_bind [OF yields_get_error])
qed


interpretation eth_fmt: wire_format EthernetHeader_parse "\<lambda>h. Inr (EthernetHeader_serialize h)" EthernetHeader_wf
  "\<lambda>_ _. True" EthernetHeader_wf
  by unfold_locales (auto simp: EthernetHeader_roundtrip)

lemma EthernetHeader_parse_safe [safe_intros]: "p_safe (EthernetHeader_parse h)"
  unfolding EthernetHeader_parse_def by (intro safe_intros)

lemma EthernetFrame_parse_serialized:
  assumes "EthernetHeader_wf (fr_header fr)" "EthernetHeader_wf (fr_header fr0)" "Buffer_wf b"
    and "Buffer_str b = BufferList_concatenate (EthernetFrame_serialize fr)"
  shows "\<exists>pb. EthernetFrame_parse fr0 b = Inr (NoError, \<lparr>fr_header = fr_header fr, fr_payload = [pb]\<rparr>) \<and>
    Buffer_wf pb \<and> Buffer_str pb = BufferList_concatenate (fr_payload fr)"
proof -
  have p: "np_ok (NetParser_new b)"
      "np_str (NetParser_new b) = EthernetHeader_serialize (fr_header fr) @ BufferList_concatenate (fr_payload fr)"
    using assms(3,4) by (simp_all add: np_ok_def np_str_def NetParser_new_def EthernetFrame_serialize_def)
  obtain p' where "EthernetHeader_parse (fr_header fr0) (NetParser_new b) = Inr ((NoError, fr_header fr), p')"
      "np_ok p'" "np_str p' = BufferList_concatenate (fr_payload fr)"
    using eth_fmt.parse_serialized [OF assms(1) _ assms(2) p(1) refl p(2)] by blast
  then show ?thesis
    by (simp add: EthernetFrame_parse_def BufferList_of_Buffer_def np_ok_def np_str_def)
qed

section \<open>ARP messages\<close>

definition ARPMessage_wf :: "ARPMessage \<Rightarrow> bool" where
  "ARPMessage_wf m \<longleftrightarrow> length (arp_sender_ethernet_address m) = 6 \<and> length (arp_target_ethernet_address m) = 6"

lemma ARPMessage_serialize_eq:
  "ARPMessage_supported m \<Longrightarrow> ARPMessage_serialize m =
     Inr (u16_bytes (arp_hardware_type m) @ u16_bytes (arp_protocol_type m) @
       u8_bytes (arp_hardware_address_size m) @ u8_bytes (arp_protocol_address_size m) @ u16_bytes (arp_opcode m) @
       arp_sender_ethernet_address m @ u32_bytes (arp_sender_ip_address m) @
       arp_target_ethernet_address m @ u32_bytes (arp_target_ip_address m))"
  by (simp add: ARPMessage_serialize_def Let_def unparse_address_eq NetUnparser_append)

lemma ARPMessage_roundtrip:
  assumes "ARPMessage_wf m \<and> ARPMessage_supported m" "ARPMessage_serialize m = Inr bs" "ARPMessage_wf m0"
  shows "yields (ARPMessage_parse_from m0) (bs @ rest) (NoError, m) rest"
proof -
  have len: "length (arp_sender_ethernet_address m) = length (arp_sender_ethernet_address m0)"
      "length (arp_target_ethernet_address m) = length (arp_target_ethernet_address m0)"
    and six: "length (arp_sender_ethernet_address m) = 6" "length (arp_target_ethernet_address m) = 6"
    using assms by (simp_all add: ARPMessage_wf_def)
  have bs: "bs @ rest = u16_bytes (arp_hardware_type m) @ u16_bytes (arp_protocol_type m) @
       u8_bytes (arp_hardware_address_size m) @ u8_bytes (arp_protocol_address_size m) @ u16_bytes (arp_opcode m) @
       arp_sender_ethernet_address m @ u32_bytes (arp_sender_ip_address m) @
       arp_target_ethernet_address m @ u32_bytes (arp_target_ip_address m) @ rest"
    using assms(1,2) ARPMessage_serialize_eq [of m] by auto
  have n: "\<not> length (bs @ rest) < ARPMessage_LENGTH"
    unfolding bs using six by (simp add: ARPMessage_LENGTH_def)
  let ?m' = "m0\<lparr>arp_hardware_type := arp_hardware_type m, arp_protocol_type := arp_protocol_type m,
     arp_hardware_address_size := arp_hardware_address_size m,
     arp_protocol_address_size := arp_protocol_address_size m, arp_opcode := arp_opcode m\<rparr>"
  have sup: "\<not> \<not> ARPMessage_supported ?m'" using assms(1) by (simp add: ARPMessage_supported_def)
  let ?m = "?m'\<lparr>arp_sender_ethernet_address := arp_sender_ethernet_address m,
      arp_sender_ip_address := arp_sender_ip_address m, arp_target_ethernet_address := arp_target_ethernet_address m,
      arp_target_ip_address := arp_target_ip_address m\<rparr>"
  have m: "?m = m" by simp
  have "yields (p_return (NoError, ?m)) rest (NoError, m) rest"
    unfolding m by (rule yields_return)
  then show ?thesis
    unfolding ARPMessage_parse_from_def Let_def
    by (intro yields_bind [OF yields_size] if_not_P [OF n, THEN ssubst, where P = "\<lambda>f. yields f s v t" for s v t]
        yields_input [OF bs] yields_bind [OF yields_u16] yields_bind [OF yields_u8] yields_bind [OF yields_u32]
        if_not_P [OF sup, THEN ssubst, where P = "\<lambda>f. yields f s v t" for s v t]
        yields_bind [OF yields_address [OF len(1)]] yields_bind [OF yields_address [OF len(2)]]
        yields_bind [OF yields_get_error])
qed

interpretation arp_fmt: wire_format ARPMessage_parse_from ARPMessage_serialize
  "\<lambda>m. ARPMessage_wf m \<and> ARPMessage_supported m" "\<lambda>_ _. True" ARPMessage_wf
  by unfold_locales (auto simp: ARPMessage_roundtrip ARPMessage_serialize_eq)

lemma ARPMessage_parse_safe [safe_intros]: "p_safe (ARPMessage_parse_from m)"
  unfolding ARPMessage_parse_from_def Let_def by (intro safe_intros)

lemma ARPMessage_parse_serialized:
  assumes "ARPMessage_wf m" "ARPMessage_supported m" "ARPMessage_wf m0" "ARPMessage_serialize m = Inr bs"
    and "Buffer_wf b" "Buffer_str b = bs @ rest"
  shows "ARPMessage_parse m0 b = Inr (NoError, m)"
proof -
  have p: "np_ok (NetParser_new b)" "np_str (NetParser_new b) = bs @ rest"
    using assms(5,6) by (simp_all add: np_ok_def np_str_def NetParser_new_def)
  obtain p' where "ARPMessage_parse_from m0 (NetParser_new b) = Inr ((NoError, m), p')"
    using arp_fmt.parse_serialized [OF _ _ assms(3) p(1) assms(4) p(2)] assms(1,2) by blast
  then show ?thesis by (simp add: ARPMessage_parse_def)
qed

section \<open>Properties\<close>

text \<open>C33: an ARP message that is supported serializes to 28 bytes which \<open>parse\<close> reads back exactly, also
  with bytes behind it; an unsupported message is refused by \<open>serialize\<close> with an exception.\<close>

theorem ARPMessage_codec:
  assumes "ARPMessage_wf m" "ARPMessage_wf m0"
  shows "if ARPMessage_supported m
    then \<exists>bs. ARPMessage_serialize m = Inr bs \<and> length bs = ARPMessage_LENGTH \<and>
      (\<forall>rest. ARPMessage_parse m0 (Buffer_new (bs @ rest)) = Inr (NoError, m))
    else ARPMessage_serialize m = Inl Runtime_Error"
proof (cases "ARPMessage_supported m")
  case True
  then obtain bs where bs: "ARPMessage_serialize m = Inr bs" using ARPMessage_serialize_eq by blast
  have "length bs = ARPMessage_LENGTH"
    using bs ARPMessage_serialize_eq [OF True] assms(1)
    by (auto simp: ARPMessage_wf_def ARPMessage_LENGTH_def)
  moreover have "ARPMessage_parse m0 (Buffer_new (bs @ rest)) = Inr (NoError, m)" for rest
    using assms(1) True assms(2) bs Buffer_wf_new(1) Buffer_str_new by (rule ARPMessage_parse_serialized)
  ultimately show ?thesis using bs True by auto
next
  case False
  then show ?thesis by (simp add: ARPMessage_serialize_def)
qed

theorem ARPMessage_codec_witness:
  "\<exists>bs. ARPMessage_serialize (ARPMessage_default\<lparr>arp_opcode := OPCODE_REQUEST, arp_target_ip_address := 0x0a000001\<rparr>) = Inr bs \<and>
     ARPMessage_parse ARPMessage_default (Buffer_new (bs @ [])) =
       Inr (NoError, ARPMessage_default\<lparr>arp_opcode := OPCODE_REQUEST, arp_target_ip_address := 0x0a000001\<rparr>)"
proof -
  let ?m = "ARPMessage_default\<lparr>arp_opcode := OPCODE_REQUEST, arp_target_ip_address := 0x0a000001\<rparr>"
  have wf: "ARPMessage_wf ?m" "ARPMessage_wf ARPMessage_default" "ARPMessage_supported ?m"
    by (simp_all add: ARPMessage_wf_def ARPMessage_default_def ARPMessage_supported_def)
  then show ?thesis using ARPMessage_codec [OF wf(1,2)] unfolding if_P [OF wf(3)] by blast
qed

text \<open>C34: a frame that is serialized and parsed comes back with its addresses, type and payload bytes,
  however the payload was split into buffers.\<close>

theorem EthernetFrame_roundtrip:
  assumes "EthernetHeader_wf (fr_header fr)" "EthernetHeader_wf (fr_header fr0)"
  shows "\<exists>pb. EthernetFrame_parse fr0 (Buffer_new (BufferList_concatenate (EthernetFrame_serialize fr))) =
      Inr (NoError, \<lparr>fr_header = fr_header fr, fr_payload = [pb]\<rparr>) \<and>
    Buffer_str pb = BufferList_concatenate (fr_payload fr)"
  using EthernetFrame_parse_serialized [OF assms Buffer_wf_new(1) Buffer_str_new] by blast

theorem EthernetFrame_roundtrip_witness:
  "\<exists>pb. EthernetFrame_parse EthernetFrame_default (Buffer_new (BufferList_concatenate (EthernetFrame_serialize
       \<lparr>fr_header = EthernetHeader_default\<lparr>eth_dst := ETHERNET_BROADCAST\<rparr>, fr_payload = [Buffer_new [1], Buffer_new [2]]\<rparr>))) =
      Inr (NoError, \<lparr>fr_header = EthernetHeader_default\<lparr>eth_dst := ETHERNET_BROADCAST\<rparr>, fr_payload = [pb]\<rparr>) \<and>
    Buffer_str pb = [1, 2]"
  using EthernetFrame_roundtrip [of "\<lparr>fr_header = EthernetHeader_default\<lparr>eth_dst := ETHERNET_BROADCAST\<rparr>,
      fr_payload = [Buffer_new [1], Buffer_new [2]]\<rparr>" EthernetFrame_default]
  by (simp add: EthernetHeader_wf_def EthernetHeader_default_def EthernetFrame_default_def ETHERNET_BROADCAST_def)

end
