(* ===== verification/Addresses.thy ===== *)
theory Addresses
  imports Text_Numbers Ethernet
begin

text \<open>
  Socket addresses: \<open>src/libsponge/util/address.hh\<close> and \<open>address.cc\<close>.

  An address is the bytes of a \<open>sockaddr_storage\<close> with the number of them in use.  A \<open>sockaddr_in\<close>
  has sixteen bytes: the family in host byte order (little endian), the port and the IPv4 address in
  network byte order, and eight bytes of padding.  The resolver of the C library is the argument
  \<open>res\<close>: its two functions \<open>getaddrinfo\<close> and \<open>getnameinfo\<close> return an error number with their answer.
\<close>

section \<open>The class\<close>

definition AF_INET :: "16 word" where
  "AF_INET = 2"

definition sizeof_sockaddr_storage :: nat where
  "sizeof_sockaddr_storage = 128"

definition sizeof_sockaddr_in :: nat where
  "sizeof_sockaddr_in = 16"

record Address =
  ad_size :: nat
  ad_storage :: bytes

record addrinfo_hints =
  ai_flags :: nat
  ai_family :: "16 word"

definition AI_NUMERICHOST :: nat where
  "AI_NUMERICHOST = 4"

definition AI_ALL :: nat where
  "AI_ALL = 16"

definition AI_NUMERICSERV :: nat where
  "AI_NUMERICSERV = 1024"

record resolver =
  getaddrinfo :: "string \<Rightarrow> string \<Rightarrow> addrinfo_hints \<Rightarrow> int \<times> (bytes \<times> nat) option"
  getnameinfo :: "bytes \<Rightarrow> nat \<Rightarrow> int \<times> string \<times> string"

definition Address_of_sockaddr :: "bytes \<Rightarrow> nat \<Rightarrow> Address result" where
  "Address_of_sockaddr addr len =
     (if len > sizeof_sockaddr_storage then Inl Runtime_Error
      else Inr \<lparr>ad_size = len, ad_storage = take len addr @ drop len (replicate sizeof_sockaddr_storage 0)\<rparr>)"

definition Address_resolve :: "resolver \<Rightarrow> string \<Rightarrow> string \<Rightarrow> addrinfo_hints \<Rightarrow> Address result" where
  "Address_resolve res node service hints =
     (let (gai_ret, resolved_address) = getaddrinfo res node service hints
      in if gai_ret \<noteq> 0 then Inl System_Error
         else case resolved_address of
                None \<Rightarrow> Inl Runtime_Error
              | Some (ai_addr, ai_addrlen) \<Rightarrow> Address_of_sockaddr ai_addr ai_addrlen)"

definition make_hints :: "nat \<Rightarrow> 16 word \<Rightarrow> addrinfo_hints" where
  "make_hints flags family = \<lparr>ai_flags = flags, ai_family = family\<rparr>"

definition Address_of_host :: "resolver \<Rightarrow> string \<Rightarrow> string \<Rightarrow> Address result" where
  "Address_of_host res hostname service = Address_resolve res hostname service (make_hints AI_ALL AF_INET)"

definition Address_of_ip :: "resolver \<Rightarrow> string \<Rightarrow> 16 word \<Rightarrow> Address result" where
  "Address_of_ip res ip port =
     Address_resolve res ip (to_string (unat port)) (make_hints (or AI_NUMERICHOST AI_NUMERICSERV) AF_INET)"

definition Address_ip_port :: "resolver \<Rightarrow> Address \<Rightarrow> (string \<times> 16 word) result" where
  "Address_ip_port res a =
     (let (gni_ret, ip, port) = getnameinfo res (ad_storage a) (ad_size a)
      in if gni_ret \<noteq> 0 then Inl System_Error
         else bind_result (stoi port) (\<lambda>p. Inr (ip, of_nat p)))"

definition Address_ip :: "resolver \<Rightarrow> Address \<Rightarrow> string result" where
  "Address_ip res a = bind_result (Address_ip_port res a) (\<lambda>p. Inr (fst p))"

definition Address_port :: "resolver \<Rightarrow> Address \<Rightarrow> 16 word result" where
  "Address_port res a = bind_result (Address_ip_port res a) (\<lambda>p. Inr (snd p))"

definition Address_to_string :: "resolver \<Rightarrow> Address \<Rightarrow> string result" where
  "Address_to_string res a =
     bind_result (Address_ip_port res a) (\<lambda>ip_and_port.
       Inr (fst ip_and_port @ '':'' @ to_string (unat (snd ip_and_port))))"

text \<open>\<open>ss_family\<close> is the first two bytes, \<open>sin_addr.s_addr\<close> the four bytes from offset 4, which
  \<open>be32toh\<close> reads in network byte order.\<close>

definition ss_family :: "bytes \<Rightarrow> 16 word" where
  "ss_family storage = ucast (storage ! 0) + push_bit 8 (ucast (storage ! 1))"

definition load_be32 :: "bytes \<Rightarrow> 32 word" where
  "load_be32 bs = of_nat (be_val bs)"

definition sockaddr_in :: "16 word \<Rightarrow> 32 word \<Rightarrow> bytes" where
  "sockaddr_in port ip = [ucast AF_INET, ucast (drop_bit 8 AF_INET)] @ u16_bytes port @ u32_bytes ip @ replicate 8 0"

definition Address_ipv4_numeric :: "Address \<Rightarrow> 32 word result" where
  "Address_ipv4_numeric a =
     (if ss_family (ad_storage a) \<noteq> AF_INET \<or> ad_size a \<noteq> sizeof_sockaddr_in then Inl Runtime_Error
      else Inr (load_be32 (take 4 (drop 4 (ad_storage a)))))"

definition Address_from_ipv4_numeric :: "32 word \<Rightarrow> Address result" where
  "Address_from_ipv4_numeric ip_address = Address_of_sockaddr (sockaddr_in 0 ip_address) sizeof_sockaddr_in"

definition Address_eq :: "Address \<Rightarrow> Address \<Rightarrow> bool" where
  "Address_eq a b \<longleftrightarrow> ad_size a = ad_size b \<and> take (ad_size a) (ad_storage a) = take (ad_size a) (ad_storage b)"

section \<open>Addresses and numbers\<close>

definition Address_wf :: "Address \<Rightarrow> bool" where
  "Address_wf a \<longleftrightarrow> length (ad_storage a) = sizeof_sockaddr_storage \<and> ad_size a \<le> sizeof_sockaddr_storage \<and>
     drop (ad_size a) (ad_storage a) = replicate (sizeof_sockaddr_storage - ad_size a) 0"

lemma Address_of_sockaddr_wf:
  "len \<le> length addr \<Longrightarrow> Address_of_sockaddr addr len = Inr a \<Longrightarrow> Address_wf a"
  by (auto simp: Address_of_sockaddr_def Address_wf_def split: if_splits)

definition ipv4_address :: "16 word \<Rightarrow> 32 word \<Rightarrow> Address" where
  "ipv4_address port ip = \<lparr>ad_size = sizeof_sockaddr_in, ad_storage = sockaddr_in port ip @ replicate 112 0\<rparr>"

lemma ad_size_ipv4: "ad_size (ipv4_address port ip) = sizeof_sockaddr_in"
  by (simp add: ipv4_address_def)

lemma length_sockaddr_in [simp]: "length (sockaddr_in port ip) = 16"
  by (simp add: sockaddr_in_def)

lemma Address_of_sockaddr_in: "Address_of_sockaddr (sockaddr_in port ip) sizeof_sockaddr_in = Inr (ipv4_address port ip)"
  by (simp add: Address_of_sockaddr_def ipv4_address_def sizeof_sockaddr_in_def sizeof_sockaddr_storage_def)

lemma Address_from_ipv4_numeric_eq [simp]: "Address_from_ipv4_numeric ip = Inr (ipv4_address 0 ip)"
  by (simp add: Address_from_ipv4_numeric_def Address_of_sockaddr_in)

lemma Address_ipv4_numeric_eq [simp]: "Address_ipv4_numeric (ipv4_address port ip) = Inr ip"
proof -
  have "take 4 (drop 4 (sockaddr_in port ip @ replicate 112 0)) = u32_bytes ip"
    by (simp add: sockaddr_in_def)
  moreover have "ss_family (sockaddr_in port ip @ replicate 112 0) = AF_INET"
    by (simp add: ss_family_def sockaddr_in_def AF_INET_def)
  ultimately show ?thesis
    by (simp add: Address_ipv4_numeric_def ipv4_address_def load_be32_def be_val_u32)
qed

lemma Address_eq_refl [simp]: "Address_eq a a"
  by (simp add: Address_eq_def)

lemma Address_eq_iff: "Address_wf a \<Longrightarrow> Address_wf b \<Longrightarrow> Address_eq a b \<longleftrightarrow> a = b"
proof
  assume wf: "Address_wf a" "Address_wf b" and eq: "Address_eq a b"
  then have sz: "ad_size a = ad_size b" and tk: "take (ad_size a) (ad_storage a) = take (ad_size b) (ad_storage b)"
    by (auto simp: Address_eq_def)
  have dr: "drop (ad_size a) (ad_storage a) = drop (ad_size b) (ad_storage b)"
    using wf sz by (simp add: Address_wf_def)
  from arg_cong2 [OF tk dr, of "(@)"] have "ad_storage a = ad_storage b" by (simp only: append_take_drop_id)
  then show "a = b" using sz by simp
qed simp

text \<open>What the sources rely on: without name lookup, \<open>getaddrinfo\<close> accepts a dotted quad and a decimal
  port and gives the \<open>sockaddr_in\<close> with them, and \<open>getnameinfo\<close> prints them.\<close>

definition resolver_ok :: "resolver \<Rightarrow> bool" where
  "resolver_ok res \<longleftrightarrow>
     (\<forall>ip port. getaddrinfo res (inet_ntoa ip) (to_string (unat (port :: 16 word)))
        (make_hints (or AI_NUMERICHOST AI_NUMERICSERV) AF_INET) = (0, Some (sockaddr_in port ip, sizeof_sockaddr_in))) \<and>
     (\<forall>ip port. getnameinfo res (ad_storage (ipv4_address port ip)) sizeof_sockaddr_in =
        (0, inet_ntoa ip, to_string (unat port)))"

lemma Address_of_ip_eq: "resolver_ok res \<Longrightarrow> Address_of_ip res (inet_ntoa ip) port = Inr (ipv4_address port ip)"
  by (simp add: Address_of_ip_def Address_resolve_def resolver_ok_def Address_of_sockaddr_in)

lemma Address_ip_port_eq: "resolver_ok res \<Longrightarrow> Address_ip_port res (ipv4_address port ip) = Inr (inet_ntoa ip, port)"
  using ad_size_ipv4 [of port ip] by (simp add: Address_ip_port_def resolver_ok_def stoi_to_string)

lemma Address_port_eq [simp]: "resolver_ok res \<Longrightarrow> Address_port res (ipv4_address port ip) = Inr port"
  by (simp add: Address_port_def Address_ip_port_eq)

text \<open>A resolver for numeric addresses, to show that the assumption can hold.\<close>

definition find_quad :: "string \<Rightarrow> 32 word option" where
  "find_quad node = find (\<lambda>ip. inet_ntoa ip = node) (map of_nat [0 ..< 2 ^ 32])"

definition numeric_resolver :: resolver where
  "numeric_resolver = \<lparr>
     getaddrinfo = (\<lambda>node service hints.
       case (stoi service, find_quad node) of
         (Inr port, Some ip) \<Rightarrow> (0, Some (sockaddr_in (of_nat port) ip, sizeof_sockaddr_in))
       | _ \<Rightarrow> (- 2, None)),
     getnameinfo = (\<lambda>storage len.
       (0, inet_ntoa (load_be32 (take 4 (drop 4 storage))), to_string (be_val (take 2 (drop 2 storage)))))\<rparr>"

lemma numeric_resolver_ok: "resolver_ok numeric_resolver"
proof -
  have f: "find_quad (inet_ntoa ip) = Some ip" for ip
  proof -
    let ?l = "map of_nat [0 ..< 2 ^ 32] :: 32 word list"
    have "unat ip < 2 ^ 32" using unat_bounds(3) [of ip] by simp
    then have "ip \<in> set ?l" by (auto simp: image_iff intro!: bexI [of _ "unat ip"])
    then obtain ip' where "find (\<lambda>ip'. inet_ntoa ip' = inet_ntoa ip) ?l = Some ip'"
      by (cases "find (\<lambda>ip'. inet_ntoa ip' = inet_ntoa ip) ?l") (auto simp: find_None_iff)
    moreover from this have "inet_ntoa ip' = inet_ntoa ip" by (auto simp: find_Some_iff)
    ultimately show ?thesis using inet_ntoa_inj unfolding find_quad_def by blast
  qed
  have st: "ad_storage (ipv4_address port ip) = sockaddr_in port ip @ replicate 112 0" for port ip by (simp add: ipv4_address_def)
  have "take 4 (drop 4 (ad_storage (ipv4_address port ip))) = u32_bytes ip" "take 2 (drop 2 (ad_storage (ipv4_address port ip))) = u16_bytes port"
    for port ip unfolding st by (simp_all add: sockaddr_in_def)
  then show ?thesis
    unfolding resolver_ok_def by (simp add: numeric_resolver_def stoi_to_string f load_be32_def be_val_u32 be_val_u16)
qed

lemma Address_wf_ipv4: "Address_wf (ipv4_address port ip)"
  by (rule Address_of_sockaddr_wf [OF _ Address_of_sockaddr_in]) (simp add: sizeof_sockaddr_in_def)

section \<open>Properties\<close>

text \<open>C39: an address made from a number gives the number back, and two such addresses are equal, byte by
  byte of the wrapped structure, exactly when the numbers are.\<close>

theorem Address_numeric_roundtrip:
  "\<exists>a b. Address_from_ipv4_numeric ip = Inr a \<and> Address_from_ipv4_numeric ip' = Inr b \<and>
     Address_ipv4_numeric a = Inr ip \<and> (Address_eq a b \<longleftrightarrow> ip = ip')"
proof -
  have "ipv4_address 0 ip = ipv4_address 0 ip' \<longleftrightarrow> ip = ip'"
    by (metis Address_ipv4_numeric_eq Inr_inject)
  then show ?thesis by (simp add: Address_eq_iff Address_wf_ipv4)
qed

end
