(* ===== verification/IPv4.thy ===== *)
theory IPv4
  imports Checksum
begin

unbundle bit_operations_syntax

text \<open>
  \<open>libsponge/tcp_helpers/ipv4_header.hh\<close>, \<open>ipv4_datagram.hh\<close> and their \<open>.cc\<close>: the IPv4 header and
  the datagram.  The payload of a datagram is a list of buffers.  The header is an instance of
  \<open>wire_format\<close> on inputs whose length and checksum agree with the header.
\<close>

section \<open>IPv4Header\<close>

record IPv4Header =
  ip_ver :: "8 word"
  ip_hlen :: "8 word"
  ip_tos :: "8 word"
  ip_len :: "16 word"
  ip_id :: "16 word"
  ip_df :: bool
  ip_mf :: bool
  ip_offset :: "16 word"
  ip_ttl :: "8 word"
  ip_proto :: "8 word"
  ip_cksum :: "16 word"
  ip_src :: "32 word"
  ip_dst :: "32 word"

definition IPv4Header_LENGTH :: nat where
  "IPv4Header_LENGTH = 20"

definition IPv4Header_DEFAULT_TTL :: "8 word" where
  "IPv4Header_DEFAULT_TTL = 128"

definition IPv4Header_PROTO_TCP :: "8 word" where
  "IPv4Header_PROTO_TCP = 6"

definition IPv4Header_default :: IPv4Header where
  "IPv4Header_default =
     \<lparr>ip_ver = 4, ip_hlen = 5, ip_tos = 0, ip_len = 0, ip_id = 0, ip_df = True, ip_mf = False, ip_offset = 0,
      ip_ttl = IPv4Header_DEFAULT_TTL, ip_proto = IPv4Header_PROTO_TCP, ip_cksum = 0, ip_src = 0, ip_dst = 0\<rparr>"

definition IPv4Header_parse :: "IPv4Header \<Rightarrow> (ParseResult \<times> IPv4Header) parser" where
  "IPv4Header_parse h =
     p_bind p_str (\<lambda>original_serialized_version. p_bind p_size (\<lambda>data_size.
     if data_size < IPv4Header_LENGTH then p_return (PacketTooShort, h)
     else
       p_bind NetParser_u8 (\<lambda>first_byte. p_bind NetParser_u8 (\<lambda>tos.
       p_bind NetParser_u16 (\<lambda>len. p_bind NetParser_u16 (\<lambda>id. p_bind NetParser_u16 (\<lambda>fo_val.
       p_bind NetParser_u8 (\<lambda>ttl. p_bind NetParser_u8 (\<lambda>proto. p_bind NetParser_u16 (\<lambda>cksum.
       p_bind NetParser_u32 (\<lambda>src. p_bind NetParser_u32 (\<lambda>dst.
         let ver = drop_bit 4 first_byte; hlen = first_byte AND 0x0f;
             h' = h\<lparr>ip_ver := ver, ip_hlen := hlen, ip_tos := tos, ip_len := len, ip_id := id,
                    ip_df := (fo_val AND 0x4000 \<noteq> 0), ip_mf := (fo_val AND 0x2000 \<noteq> 0),
                    ip_offset := fo_val AND 0x1fff, ip_ttl := ttl, ip_proto := proto, ip_cksum := cksum,
                    ip_src := src, ip_dst := dst\<rparr>
         in if data_size < 4 * unat hlen then p_return (PacketTooShort, h')
            else if ver \<noteq> 4 then p_return (WrongIPVersion, h')
            else if unat hlen < 5 then p_return (HeaderTooShort, h')
            else if data_size \<noteq> unat len then p_return (TruncatedPacket, h')
            else p_bind (NetParser_remove_prefix (unat hlen * 4 - IPv4Header_LENGTH)) (\<lambda>_.
                 p_bind p_get_error (\<lambda>err.
                 if err \<noteq> NoError then p_return (err, h')
                 else let check = InternetChecksum_add (InternetChecksum_new 0)
                                    (take (4 * unat hlen) original_serialized_version)
                      in if InternetChecksum_value check \<noteq> 0 then p_return (BadChecksum, h')
                         else p_return (NoError, h')))))))))))))))"

definition IPv4Header_fo_val :: "IPv4Header \<Rightarrow> 16 word" where
  "IPv4Header_fo_val h =
     (if ip_df h then 0x4000 else 0) OR (if ip_mf h then 0x2000 else 0) OR (ip_offset h AND 0x1fff)"

definition IPv4Header_serialize :: "IPv4Header \<Rightarrow> bytes result" where
  "IPv4Header_serialize h =
     (if ip_ver h \<noteq> 4 then Inl Runtime_Error
      else if 4 * unat (ip_hlen h) < IPv4Header_LENGTH then Inl Runtime_Error
      else let ret = NetUnparser_u8 [] (push_bit 4 (ip_ver h) OR (ip_hlen h AND 0xf));
               ret = NetUnparser_u8 ret (ip_tos h);
               ret = NetUnparser_u16 ret (ip_len h);
               ret = NetUnparser_u16 ret (ip_id h);
               ret = NetUnparser_u16 ret (IPv4Header_fo_val h);
               ret = NetUnparser_u8 ret (ip_ttl h);
               ret = NetUnparser_u8 ret (ip_proto h);
               ret = NetUnparser_u16 ret (ip_cksum h);
               ret = NetUnparser_u32 ret (ip_src h);
               ret = NetUnparser_u32 ret (ip_dst h)
           in Inr (string_resize ret (4 * unat (ip_hlen h))))"

definition IPv4Header_payload_length :: "IPv4Header \<Rightarrow> 16 word" where
  "IPv4Header_payload_length h = word_of_int (uint (ip_len h) - 4 * uint (ip_hlen h))"

definition IPv4Header_pseudo_cksum :: "IPv4Header \<Rightarrow> 32 word" where
  "IPv4Header_pseudo_cksum h =
     (let pcksum = drop_bit 16 (ip_src h) + (ip_src h AND 0xffff);
          pcksum = pcksum + (drop_bit 16 (ip_dst h) + (ip_dst h AND 0xffff));
          pcksum = pcksum + ucast (ip_proto h);
          pcksum = pcksum + ucast (IPv4Header_payload_length h)
      in pcksum)"

section \<open>IPv4Datagram\<close>

record IPv4Datagram =
  dg_header :: IPv4Header
  dg_payload :: BufferList

type_synonym InternetDatagram = IPv4Datagram

definition IPv4Datagram_default :: IPv4Datagram where
  "IPv4Datagram_default = \<lparr>dg_header = IPv4Header_default, dg_payload = []\<rparr>"

definition IPv4Datagram_parse :: "IPv4Datagram \<Rightarrow> Buffer \<Rightarrow> (ParseResult \<times> IPv4Datagram) result" where
  "IPv4Datagram_parse dg buffer =
     bind_result (IPv4Header_parse (dg_header dg) (NetParser_new buffer)) (\<lambda>((_, header), p).
       let payload = BufferList_of_Buffer (np_buffer p);
           dg' = \<lparr>dg_header = header, dg_payload = payload\<rparr>
       in if BufferList_size payload \<noteq> unat (IPv4Header_payload_length header) then Inr (PacketTooShort, dg')
          else Inr (np_error p, dg'))"

definition IPv4Datagram_serialize :: "IPv4Datagram \<Rightarrow> BufferList result" where
  "IPv4Datagram_serialize dg =
     (if BufferList_size (dg_payload dg) \<noteq> unat (IPv4Header_payload_length (dg_header dg)) then Inl Runtime_Error
      else let header_out = (dg_header dg)\<lparr>ip_cksum := 0\<rparr>
           in bind_result (IPv4Header_serialize header_out) (\<lambda>header_zero_checksum.
              let check = InternetChecksum_add (InternetChecksum_new 0) header_zero_checksum;
                  header_out = header_out\<lparr>ip_cksum := InternetChecksum_value check\<rparr>
              in bind_result (IPv4Header_serialize header_out) (\<lambda>header_bytes.
                 let ret = BufferList_append [] (BufferList_new header_bytes)
                 in Inr (BufferList_append ret (dg_payload dg)))))"

section \<open>Header round trip\<close>

definition IPv4Header_wf :: "IPv4Header \<Rightarrow> bool" where
  "IPv4Header_wf h \<longleftrightarrow> ip_ver h = 4 \<and> 5 \<le> unat (ip_hlen h) \<and> unat (ip_hlen h) < 16 \<and> unat (ip_offset h) < 2 ^ 13"

text \<open>The bytes before the checksum field and behind it.\<close>

definition ip_pre :: "IPv4Header \<Rightarrow> bytes" where
  "ip_pre h = u8_bytes (push_bit 4 (ip_ver h) OR (ip_hlen h AND 0xf)) @ u8_bytes (ip_tos h) @ u16_bytes (ip_len h) @
     u16_bytes (ip_id h) @ u16_bytes (IPv4Header_fo_val h) @ u8_bytes (ip_ttl h) @ u8_bytes (ip_proto h)"

definition ip_post :: "IPv4Header \<Rightarrow> bytes" where
  "ip_post h = u32_bytes (ip_src h) @ u32_bytes (ip_dst h) @ replicate (4 * unat (ip_hlen h) - 20) 0"

lemma length_ip_parts [simp]: "length (ip_pre h) = 10" "length (ip_post h) = 8 + (4 * unat (ip_hlen h) - 20)"
  by (simp_all add: ip_pre_def ip_post_def)

lemma ip_parts_cksum [simp]:
  "ip_pre (h\<lparr>ip_cksum := c\<rparr>) = ip_pre h" "ip_post (h\<lparr>ip_cksum := c\<rparr>) = ip_post h"
  by (simp_all add: ip_pre_def ip_post_def IPv4Header_fo_val_def)

lemma IPv4Header_serialize_eq:
  assumes "ip_ver h = 4" "5 \<le> unat (ip_hlen h)"
  shows "IPv4Header_serialize h = Inr (ip_pre h @ u16_bytes (ip_cksum h) @ ip_post h)"
proof -
  let ?s = "ip_pre h @ u16_bytes (ip_cksum h) @ u32_bytes (ip_src h) @ u32_bytes (ip_dst h)"
  have "length ?s \<le> 4 * unat (ip_hlen h)" using assms by simp
  from string_resize_extend [OF this] show ?thesis
    using assms by (simp add: IPv4Header_serialize_def IPv4Header_LENGTH_def Let_def NetUnparser_append
        ip_pre_def ip_post_def)
qed

lemma and_low_nibble: "unat (w :: byte) < 16 \<Longrightarrow> w AND 0xf = w"
proof -
  assume "unat w < 16"
  then have "take_bit 4 w = w" by (simp add: take_bit_small)
  moreover have "w AND 0xf = take_bit 4 w" by (simp add: take_bit_eq_mask mask_eq_exp_minus_1)
  ultimately show ?thesis by simp
qed

lemma ver_hlen_byte:
  assumes "unat hlen < 16"
  shows "drop_bit 4 (push_bit 4 (4 :: byte) OR (hlen AND 0xf)) = 4"
    "(push_bit 4 (4 :: byte) OR (hlen AND 0xf)) AND 0x0f = hlen"
proof -
  have "drop_bit 4 hlen = 0"
    using assms by (simp add: drop_bit_small)
  then show "drop_bit 4 (push_bit 4 (4 :: byte) OR (hlen AND 0xf)) = 4"
    using and_low_nibble [OF assms] by simp
  show "(push_bit 4 (4 :: byte) OR (hlen AND 0xf)) AND 0x0f = hlen"
    using and_low_nibble [OF assms] by (simp add: bit.conj_disj_distrib2)
qed

lemma fo_val_bits:
  assumes "unat (ip_offset h) < 2 ^ 13"
  shows "IPv4Header_fo_val h AND 0x4000 \<noteq> 0 \<longleftrightarrow> ip_df h" "IPv4Header_fo_val h AND 0x2000 \<noteq> 0 \<longleftrightarrow> ip_mf h"
    "IPv4Header_fo_val h AND 0x1fff = ip_offset h"
proof -
  have "take_bit 13 (ip_offset h) = ip_offset h"
    using assms by (rule take_bit_small)
  moreover have "ip_offset h AND 0x1fff = take_bit 13 (ip_offset h)"
    by (simp add: take_bit_eq_mask mask_eq_exp_minus_1)
  ultimately have low: "ip_offset h AND 0x1fff = ip_offset h" by simp
  have "(ip_offset h AND 0x1fff) AND 0x4000 = 0" "(ip_offset h AND 0x1fff) AND 0x2000 = 0"
    by (simp_all add: and.assoc)
  then have high: "ip_offset h AND 0x4000 = 0" "ip_offset h AND 0x2000 = 0" using low by simp_all
  show "IPv4Header_fo_val h AND 0x4000 \<noteq> 0 \<longleftrightarrow> ip_df h" "IPv4Header_fo_val h AND 0x2000 \<noteq> 0 \<longleftrightarrow> ip_mf h"
    "IPv4Header_fo_val h AND 0x1fff = ip_offset h"
    by (simp_all add: IPv4Header_fo_val_def bit.conj_disj_distrib2 low high)
qed

text \<open>Parsing a serialized header, whatever its checksum field.\<close>

lemma IPv4Header_parse_serialized:
  assumes wf: "IPv4Header_wf h" and bs: "IPv4Header_serialize h = Inr bs"
    and len: "unat (ip_len h) = 4 * unat (ip_hlen h) + length rest"
  shows "yields (IPv4Header_parse h0) (bs @ rest)
    (if InternetChecksum_value (InternetChecksum_add (InternetChecksum_new 0) bs) = 0 then NoError else BadChecksum, h)
    rest"
proof -
  have h: "ip_ver h = 4" "5 \<le> unat (ip_hlen h)" "unat (ip_hlen h) < 16" "unat (ip_offset h) < 2 ^ 13"
    using wf by (simp_all add: IPv4Header_wf_def)
  have bs: "bs = ip_pre h @ u16_bytes (ip_cksum h) @ ip_post h" using bs IPv4Header_serialize_eq h by simp
  have lbs: "length bs = 4 * unat (ip_hlen h)" using h by (simp add: bs)
  let ?pad = "replicate (4 * unat (ip_hlen h) - 20) 0 :: bytes"
  have pad: "unat (ip_hlen h) * 4 - IPv4Header_LENGTH = length ?pad"
    by (simp add: IPv4Header_LENGTH_def mult.commute)
  have upd: "h0\<lparr>ip_ver := 4, ip_hlen := ip_hlen h, ip_tos := ip_tos h, ip_len := ip_len h, ip_id := ip_id h,
      ip_df := ip_df h, ip_mf := ip_mf h, ip_offset := ip_offset h, ip_ttl := ip_ttl h, ip_proto := ip_proto h,
      ip_cksum := ip_cksum h, ip_src := ip_src h, ip_dst := ip_dst h\<rparr> = h"
    using h(1) by simp
  have conds: "\<not> length (bs @ rest) < IPv4Header_LENGTH" "\<not> length (bs @ rest) < 4 * unat (ip_hlen h)"
      "\<not> unat (ip_hlen h) < 5" "\<not> length (bs @ rest) \<noteq> unat (ip_len h)" "\<not> (4 :: byte) \<noteq> 4" "\<not> NoError \<noteq> NoError"
    using h lbs len by (simp_all add: IPv4Header_LENGTH_def)
  have tk: "take (4 * unat (ip_hlen h)) (bs @ rest) = bs" using lbs by simp
  have input: "bs @ rest = u8_bytes (push_bit 4 (ip_ver h) OR (ip_hlen h AND 0xf)) @ u8_bytes (ip_tos h) @
      u16_bytes (ip_len h) @ u16_bytes (ip_id h) @ u16_bytes (IPv4Header_fo_val h) @ u8_bytes (ip_ttl h) @
      u8_bytes (ip_proto h) @ u16_bytes (ip_cksum h) @ u32_bytes (ip_src h) @ u32_bytes (ip_dst h) @ ?pad @ rest"
    by (simp add: bs ip_pre_def ip_post_def)
  have "yields (p_return (if InternetChecksum_value (InternetChecksum_add (InternetChecksum_new 0) bs) = 0
      then NoError else BadChecksum, h)) rest
    (if InternetChecksum_value (InternetChecksum_add (InternetChecksum_new 0) bs) = 0 then NoError else BadChecksum, h) rest"
    by (rule yields_return)
  then have fin: "yields (if InternetChecksum_value (InternetChecksum_add (InternetChecksum_new 0) bs) \<noteq> 0
      then p_return (BadChecksum, h) else p_return (NoError, h)) rest
    (if InternetChecksum_value (InternetChecksum_add (InternetChecksum_new 0) bs) = 0 then NoError else BadChecksum, h) rest"
    by auto
  show ?thesis
    unfolding IPv4Header_parse_def
    apply (rule yields_bind, rule yields_str, rule yields_bind, rule yields_size)
    unfolding if_not_P [OF conds(1)]
    apply (rule yields_input [OF input])
    apply (rule yields_bind, rule yields_u8)+
    apply (rule yields_bind, rule yields_u16)+
    apply (rule yields_bind, rule yields_u8)+
    apply (rule yields_bind, rule yields_u16)
    apply (rule yields_bind, rule yields_u32)+
    unfolding Let_def h(1) ver_hlen_byte [OF h(3)] fo_val_bits [OF h(4)] upd if_not_P [OF conds(2)]
      if_not_P [OF conds(3)] if_not_P [OF conds(4)] if_not_P [OF conds(5)] pad
    apply (rule yields_bind, rule yields_remove_prefix, rule refl)
    apply (rule yields_bind, rule yields_get_error)
    unfolding if_not_P [OF conds(6)] tk
    by (rule fin)
qed

definition IPv4Header_fits :: "IPv4Header \<Rightarrow> bytes \<Rightarrow> bool" where
  "IPv4Header_fits h rest \<longleftrightarrow> unat (ip_len h) = 4 * unat (ip_hlen h) + length rest \<and>
     InternetChecksum_value (InternetChecksum_add (InternetChecksum_new 0)
       (ip_pre h @ u16_bytes (ip_cksum h) @ ip_post h)) = 0"

lemma IPv4Header_roundtrip:
  assumes "IPv4Header_wf h" "IPv4Header_serialize h = Inr bs" "IPv4Header_fits h rest"
  shows "yields (IPv4Header_parse h0) (bs @ rest) (NoError, h) rest"
  using IPv4Header_parse_serialized [OF assms(1,2), of rest h0] assms
  by (simp add: IPv4Header_fits_def IPv4Header_serialize_eq IPv4Header_wf_def)

interpretation ip_fmt: wire_format IPv4Header_parse IPv4Header_serialize IPv4Header_wf IPv4Header_fits "\<lambda>_. True"
  by unfold_locales (simp_all add: IPv4Header_roundtrip IPv4Header_serialize_eq IPv4Header_wf_def)

lemma IPv4Header_parse_safe [safe_intros]: "p_safe (IPv4Header_parse h)"
  unfolding IPv4Header_parse_def Let_def by (intro safe_intros)

section \<open>Datagrams\<close>

definition IPv4Datagram_wf :: "IPv4Datagram \<Rightarrow> bool" where
  "IPv4Datagram_wf dg \<longleftrightarrow> IPv4Header_wf (dg_header dg) \<and>
     unat (ip_len (dg_header dg)) = 4 * unat (ip_hlen (dg_header dg)) + length (BufferList_concatenate (dg_payload dg))"

lemma take_length_append: "take (length a) (a @ b) = a"
  by simp

lemma payload_length_eq:
  assumes "unat (ip_len h) = 4 * unat (ip_hlen h) + n"
  shows "unat (IPv4Header_payload_length h) = n"
proof -
  have n: "n < 2 ^ 16" using assms unat_bounds(2) [of "ip_len h"] by simp
  have "uint (ip_len h) - 4 * uint (ip_hlen h) = int n"
    unfolding uint_nat using assms by linarith
  then have "IPv4Header_payload_length h = word_of_int (int n)"
    unfolding IPv4Header_payload_length_def by (rule arg_cong)
  then show ?thesis using n by (simp add: unat_of_nat)
qed

lemma BufferList_size_exact: "length (BufferList_concatenate l) < 65536 \<Longrightarrow> BufferList_size l = length (BufferList_concatenate l)"
  unfolding BufferList_size_eq by (rule u64_id) (simp add: W64_def)

lemma IPv4Datagram_wf_size:
  assumes "IPv4Datagram_wf dg"
  shows "BufferList_size (dg_payload dg) = unat (IPv4Header_payload_length (dg_header dg))"
proof -
  have len: "unat (ip_len (dg_header dg)) = 4 * unat (ip_hlen (dg_header dg)) + length (BufferList_concatenate (dg_payload dg))"
    using assms by (simp add: IPv4Datagram_wf_def)
  then have "length (BufferList_concatenate (dg_payload dg)) < 65536"
    using unat_bounds(2) [of "ip_len (dg_header dg)"] by linarith
  then show ?thesis
    unfolding payload_length_eq [OF len] by (rule BufferList_size_exact)
qed

definition IPv4Datagram_cksum :: "IPv4Datagram \<Rightarrow> 16 word" where
  "IPv4Datagram_cksum dg = InternetChecksum_value (InternetChecksum_add (InternetChecksum_new 0)
     (ip_pre (dg_header dg) @ u16_bytes 0 @ ip_post (dg_header dg)))"

lemma IPv4Datagram_serialize_eq:
  assumes "IPv4Datagram_wf dg"
  shows "IPv4Datagram_serialize dg =
    Inr (Buffer_new (ip_pre (dg_header dg) @ u16_bytes (IPv4Datagram_cksum dg) @ ip_post (dg_header dg)) # dg_payload dg)"
proof -
  have h: "ip_ver (dg_header dg) = 4" "5 \<le> unat (ip_hlen (dg_header dg))"
    using assms by (simp_all add: IPv4Datagram_wf_def IPv4Header_wf_def)
  then show ?thesis
    using IPv4Datagram_wf_size [OF assms]
    by (simp add: IPv4Datagram_serialize_def IPv4Header_serialize_eq Let_def IPv4Datagram_cksum_def
        BufferList_append_def BufferList_new_def BufferList_of_Buffer_def)
qed

lemma IPv4Datagram_cksum_valid:
  assumes "IPv4Header_wf (dg_header dg)"
  shows "InternetChecksum_value (InternetChecksum_add (InternetChecksum_new 0)
    (ip_pre (dg_header dg) @ u16_bytes (IPv4Datagram_cksum dg) @ ip_post (dg_header dg))) = 0"
  using assms by (intro checksum_small) (simp_all add: IPv4Datagram_cksum_def IPv4Header_wf_def)

text \<open>A datagram is accepted whatever its checksum: \<open>IPv4Datagram::parse\<close> does not look at the result
  of parsing the header.\<close>

lemma IPv4Datagram_parse_any_cksum:
  assumes "IPv4Header_wf h" "unat (ip_len h) = 4 * unat (ip_hlen h) + length payload"
    and "Buffer_wf b" "Buffer_str b = ip_pre h @ u16_bytes (ip_cksum h) @ ip_post h @ payload"
  shows "\<exists>pb. IPv4Datagram_parse dg0 b = Inr (NoError, \<lparr>dg_header = h, dg_payload = [pb]\<rparr>) \<and>
    Buffer_str pb = payload \<and> Buffer_wf pb"
proof -
  have h: "ip_ver h = 4" "5 \<le> unat (ip_hlen h)" using assms(1) by (simp_all add: IPv4Header_wf_def)
  let ?bs = "ip_pre h @ u16_bytes (ip_cksum h) @ ip_post h"
  have bs: "IPv4Header_serialize h = Inr ?bs" using h by (rule IPv4Header_serialize_eq)
  have p: "np_ok (NetParser_new b)" "np_str (NetParser_new b) = ?bs @ payload"
    using assms(3,4) by (simp_all add: np_ok_def np_str_def NetParser_new_def)
  obtain r p' where p': "IPv4Header_parse (dg_header dg0) (NetParser_new b) = Inr ((r, h), p')"
      "np_ok p'" "np_str p' = payload"
    using IPv4Header_parse_serialized [OF assms(1) bs assms(2), of "dg_header dg0"] p unfolding yields_def by blast
  have "length payload < 65536"
    using assms(2) unat_bounds(2) [of "ip_len h"] by linarith
  then have "BufferList_size (BufferList_of_Buffer (np_buffer p')) = unat (IPv4Header_payload_length h)"
    unfolding payload_length_eq [OF assms(2)] using p'(3)
    by (subst BufferList_size_exact) (simp_all add: np_str_def)
  then show ?thesis
    using p' by (simp add: IPv4Datagram_parse_def Let_def BufferList_of_Buffer_def np_ok_def np_str_def)
qed

lemma pseudo_cksum_bound: "unat (IPv4Header_pseudo_cksum h) < 2 ^ 19"
proof -
  have half: "unat (drop_bit 16 (w :: 32 word)) < 65536" "unat (w AND 0xffff) < 65536" for w :: "32 word"
  proof -
    have "unat w < 65536 * 65536" using unsigned_less [of w] by simp
    then show "unat (drop_bit 16 w) < 65536"
      unfolding unat_drop_bit_eq by (simp add: drop_bit_eq_div less_mult_imp_div_less)
    have "w AND 0xffff = take_bit 16 w" by (simp add: take_bit_eq_mask mask_eq_exp_minus_1)
    then show "unat (w AND 0xffff) < 65536" by (simp only: unsigned_take_bit_eq) (simp add: take_bit_eq_mod)
  qed
  have small: "unat (ucast (v :: 8 word) :: 32 word) < 65536" "unat (ucast (u :: 16 word) :: 32 word) < 65536" for u v
    using unat_bounds(1) [of v] unat_bounds(2) [of u] unfolding unsigned_ucast_eq by (simp_all add: take_bit_eq_mod)
  have add: "unat (x + y) \<le> unat x + unat y" for x y :: "32 word"
    by (simp add: unat_word_ariths(1))
  let ?s = "drop_bit 16 (ip_src h) + (ip_src h AND 0xffff)" and ?t = "drop_bit 16 (ip_dst h) + (ip_dst h AND 0xffff)"
  let ?p = "ucast (ip_proto h) :: 32 word" and ?l = "ucast (IPv4Header_payload_length h) :: 32 word"
  have e: "(2 :: nat) ^ 19 = 524288" by simp
  show ?thesis unfolding IPv4Header_pseudo_cksum_def Let_def e
    using half [of "ip_src h"] half [of "ip_dst h"] small(1) [of "ip_proto h"] small(2) [of "IPv4Header_payload_length h"]
      add [of "?s + ?t + ?p" ?l] add [of "?s + ?t" ?p] add [of ?s ?t]
      add [of "drop_bit 16 (ip_src h)" "ip_src h AND 0xffff"] add [of "drop_bit 16 (ip_dst h)" "ip_dst h AND 0xffff"]
    by linarith
qed


lemma IPv4Datagram_parse_total_lemma:
  assumes "Buffer_wf b"
  shows "\<exists>r dg'. IPv4Datagram_parse dg b = Inr (r, dg') \<and>
    suffix (BufferList_concatenate (dg_payload dg')) (Buffer_str b) \<and>
    (r = NoError \<longrightarrow> BufferList_size (dg_payload dg') = unat (IPv4Header_payload_length (dg_header dg')))"
proof -
  have "Buffer_wf (np_buffer (NetParser_new b))" "np_str (NetParser_new b) = Buffer_str b"
    using assms by (simp_all add: NetParser_new_def np_str_def)
  then obtain r h p' where "IPv4Header_parse (dg_header dg) (NetParser_new b) = Inr ((r, h), p')"
    "suffix (np_str p') (Buffer_str b)"
    using IPv4Header_parse_safe [of "dg_header dg"] by (fastforce simp: p_safe_def)
  then show ?thesis
    by (auto simp: IPv4Datagram_parse_def Let_def np_str_def)
qed

section \<open>Properties\<close>

text \<open>C31: a datagram whose length field agrees with its payload serializes to bytes that \<open>parse\<close> accepts
  and that give back the header (with the computed checksum) and the payload; the header on the wire
  has a checksum that verifies.\<close>

theorem IPv4Datagram_roundtrip:
  assumes "IPv4Datagram_wf dg" "Buffer_wf b"
    and "IPv4Datagram_serialize dg = Inr l" "Buffer_str b = BufferList_concatenate l"
  shows "\<exists>dg'. IPv4Datagram_parse dg0 b = Inr (NoError, dg') \<and>
    dg_header dg' = (dg_header dg)\<lparr>ip_cksum := ip_cksum (dg_header dg')\<rparr> \<and>
    BufferList_concatenate (dg_payload dg') = BufferList_concatenate (dg_payload dg) \<and>
    InternetChecksum_value (InternetChecksum_add (InternetChecksum_new 0)
      (take (4 * unat (ip_hlen (dg_header dg))) (Buffer_str b))) = 0"
proof -
  let ?h = "(dg_header dg)\<lparr>ip_cksum := IPv4Datagram_cksum dg\<rparr>" and ?pay = "BufferList_concatenate (dg_payload dg)"
  have h: "IPv4Header_wf ?h" "unat (ip_len ?h) = 4 * unat (ip_hlen ?h) + length ?pay"
    using assms(1) by (simp_all add: IPv4Datagram_wf_def IPv4Header_wf_def)
  have str: "Buffer_str b = ip_pre ?h @ u16_bytes (ip_cksum ?h) @ ip_post ?h @ ?pay"
    using assms(3) unfolding assms(4) IPv4Datagram_serialize_eq [OF assms(1)] sum.inject by (elim subst) simp
  let ?bs = "ip_pre ?h @ u16_bytes (ip_cksum ?h) @ ip_post ?h"
  have len: "length ?bs = 4 * unat (ip_hlen (dg_header dg))"
    using h(1) by (auto simp: IPv4Header_wf_def)
  have "take (length ?bs) (?bs @ ?pay) = ?bs" by (rule take_length_append)
  then have "take (4 * unat (ip_hlen (dg_header dg))) (Buffer_str b) = ?bs"
    unfolding len str append_assoc .
  then have "InternetChecksum_value (InternetChecksum_add (InternetChecksum_new 0)
      (take (4 * unat (ip_hlen (dg_header dg))) (Buffer_str b))) = 0"
    using IPv4Datagram_cksum_valid [of dg] assms(1) by (simp add: IPv4Datagram_wf_def)
  moreover obtain pb where "IPv4Datagram_parse dg0 b = Inr (NoError, \<lparr>dg_header = ?h, dg_payload = [pb]\<rparr>)"
      "Buffer_str pb = ?pay"
    using IPv4Datagram_parse_any_cksum [OF h assms(2) str] by blast
  ultimately show ?thesis by simp
qed

theorem IPv4Datagram_roundtrip_witness:
  "\<exists>l dg'. IPv4Datagram_serialize \<lparr>dg_header = IPv4Header_default\<lparr>ip_len := 23\<rparr>, dg_payload = [Buffer_new [1, 2, 3]]\<rparr> = Inr l \<and>
     IPv4Datagram_parse IPv4Datagram_default (Buffer_new (BufferList_concatenate l)) = Inr (NoError, dg') \<and>
     BufferList_concatenate (dg_payload dg') = [1, 2, 3]"
proof -
  let ?dg = "\<lparr>dg_header = IPv4Header_default\<lparr>ip_len := 23\<rparr>, dg_payload = [Buffer_new [1, 2, 3]]\<rparr>"
  have wf: "IPv4Datagram_wf ?dg"
    by (simp add: IPv4Datagram_wf_def IPv4Header_wf_def IPv4Header_default_def)
  then obtain l where l: "IPv4Datagram_serialize ?dg = Inr l"
    using IPv4Datagram_serialize_eq by blast
  then obtain dg' where
    "IPv4Datagram_parse IPv4Datagram_default (Buffer_new (BufferList_concatenate l)) = Inr (NoError, dg')"
    "BufferList_concatenate (dg_payload dg') = BufferList_concatenate (dg_payload ?dg)"
    using IPv4Datagram_roundtrip [OF wf Buffer_wf_new(1) l Buffer_str_new, of IPv4Datagram_default] by blast
  moreover have "BufferList_concatenate (dg_payload ?dg) = [1, 2, 3]" by simp
  ultimately show ?thesis using l by metis
qed

text \<open>C32: no byte string makes \<open>IPv4Datagram::parse\<close> throw; the payload is a suffix of the input, and of an
  accepted datagram it has the length the header claims.\<close>

theorem IPv4Datagram_parse_total:
  assumes "Buffer_wf b"
  shows "\<exists>r dg'. IPv4Datagram_parse dg b = Inr (r, dg') \<and>
    suffix (BufferList_concatenate (dg_payload dg')) (Buffer_str b) \<and>
    (r = NoError \<longrightarrow> BufferList_size (dg_payload dg') = unat (IPv4Header_payload_length (dg_header dg')))"
  using assms by (rule IPv4Datagram_parse_total_lemma)

theorem IPv4Datagram_parse_total_witness:
  "\<exists>r dg'. IPv4Datagram_parse IPv4Datagram_default (Buffer_new [0x45, 0]) = Inr (r, dg')"
  using IPv4Datagram_parse_total [of "Buffer_new [0x45, 0]" IPv4Datagram_default] by auto

end
