(* ===== verification/Ordered_Map.thy ===== *)
theory Ordered_Map
  imports Sponge_Prelude
begin

text \<open>
  The part of \<open>std::map\<close> the sources use, as association lists with strictly increasing keys.
  An iterator into a map \<open>m\<close> is the split of \<open>m\<close> into the entries before it and the entries
  from it on: \<open>begin()\<close> is \<open>([], m)\<close>, \<open>end()\<close> is \<open>(m, [])\<close>, dereferencing reads the head of the
  second list, and erasing at an iterator drops that head.  The locale \<open>finite_map\<close> states what
  the clients rely on; it is interpreted on the operations defined here.
\<close>

section \<open>Operations\<close>

type_synonym ('k, 'v) omap = "('k \<times> 'v) list"
type_synonym ('k, 'v) iter = "('k, 'v) omap \<times> ('k, 'v) omap"

definition om_wf :: "('k::linorder, 'v) omap \<Rightarrow> bool" where
  "om_wf m = sorted_wrt (<) (map fst m)"

definition om_find :: "('k, 'v) omap \<Rightarrow> 'k \<Rightarrow> 'v option" where
  "om_find m k = map_of m k"

text \<open>\<open>insert\<close> leaves the map as it is when the key is present; \<open>m[k] = v\<close> overwrites.\<close>

fun om_insert :: "'k::linorder \<Rightarrow> 'v \<Rightarrow> ('k, 'v) omap \<Rightarrow> ('k, 'v) omap" where
  "om_insert k v [] = [(k, v)]"
| "om_insert k v ((k', v') # m) =
     (if k < k' then (k, v) # (k', v') # m
      else if k = k' then (k', v') # m
      else (k', v') # om_insert k v m)"

fun om_assign :: "'k::linorder \<Rightarrow> 'v \<Rightarrow> ('k, 'v) omap \<Rightarrow> ('k, 'v) omap" where
  "om_assign k v [] = [(k, v)]"
| "om_assign k v ((k', v') # m) =
     (if k < k' then (k, v) # (k', v') # m
      else if k = k' then (k, v) # m
      else (k', v') # om_assign k v m)"

fun om_erase :: "'k \<Rightarrow> ('k, 'v) omap \<Rightarrow> ('k, 'v) omap" where
  "om_erase k [] = []"
| "om_erase k ((k', v') # m) = (if k = k' then m else (k', v') # om_erase k m)"

text \<open>The first entry whose key is not less than (greater than) \<open>k\<close>.\<close>

definition lower_bound :: "'k::linorder \<Rightarrow> ('k, 'v) omap \<Rightarrow> ('k, 'v) iter" where
  "lower_bound k m = (takeWhile (\<lambda>e. fst e < k) m, dropWhile (\<lambda>e. fst e < k) m)"

definition upper_bound :: "'k::linorder \<Rightarrow> ('k, 'v) omap \<Rightarrow> ('k, 'v) iter" where
  "upper_bound k m = (takeWhile (\<lambda>e. fst e \<le> k) m, dropWhile (\<lambda>e. fst e \<le> k) m)"

section \<open>What clients rely on\<close>

locale finite_map =
  fixes empty :: "'m"
    and find :: "'m \<Rightarrow> 'k \<Rightarrow> 'v option"
    and insert :: "'k \<Rightarrow> 'v \<Rightarrow> 'm \<Rightarrow> 'm"
    and assign :: "'k \<Rightarrow> 'v \<Rightarrow> 'm \<Rightarrow> 'm"
    and erase :: "'k \<Rightarrow> 'm \<Rightarrow> 'm"
    and wf :: "'m \<Rightarrow> bool"
  assumes find_empty: "find empty k = None"
    and find_insert: "wf m \<Longrightarrow> find (insert k v m) k' =
          (if k' = k \<and> find m k = None then Some v else find m k')"
    and find_assign: "wf m \<Longrightarrow> find (assign k v m) k' = (if k' = k then Some v else find m k')"
    and find_erase: "wf m \<Longrightarrow> find (erase k m) k' = (if k' = k then None else find m k')"
    and wf_empty: "wf empty"
    and wf_insert: "wf m \<Longrightarrow> wf (insert k v m)"
    and wf_assign: "wf m \<Longrightarrow> wf (assign k v m)"
    and wf_erase: "wf m \<Longrightarrow> wf (erase k m)"
begin

lemma insert_keeps_present: "wf m \<Longrightarrow> find m k = Some v' \<Longrightarrow> find (insert k v m) = find m"
  by (auto simp: find_insert)

lemma insert_fresh_is_assign:
  "wf m \<Longrightarrow> find m k = None \<Longrightarrow> find (insert k v m) = find (assign k v m)"
  by (auto simp: find_insert find_assign)

lemma dom_assign: "wf m \<Longrightarrow> dom (find (assign k v m)) = Set.insert k (dom (find m))"
  by (auto simp: dom_def find_assign)

lemma dom_erase: "wf m \<Longrightarrow> dom (find (erase k m)) = dom (find m) - {k}"
  by (auto simp: dom_def find_erase)

lemma ran_assign_subset:
  "wf m \<Longrightarrow> ran (find (assign k v m)) \<subseteq> Set.insert v (ran (find m))"
  by (auto simp: ran_def find_assign)

end

section \<open>Well-formedness\<close>

lemma om_wf_Nil [simp]: "om_wf []"
  by (simp add: om_wf_def)

lemma om_wf_Cons [simp]:
  "om_wf ((k, v) # m) \<longleftrightarrow> (\<forall>e\<in>set m. k < fst e) \<and> om_wf m"
  by (auto simp: om_wf_def)

lemma om_wf_append:
  "om_wf (a @ b) \<longleftrightarrow> om_wf a \<and> om_wf b \<and> (\<forall>x\<in>set a. \<forall>y\<in>set b. fst x < fst y)"
  by (auto simp: om_wf_def sorted_wrt_append)

lemma keys_om_insert: "fst ` set (om_insert k v m) = insert k (fst ` set m)"
  by (induction k v m rule: om_insert.induct) auto

lemma keys_om_assign: "fst ` set (om_assign k v m) = insert k (fst ` set m)"
  by (induction k v m rule: om_assign.induct) auto

lemma set_om_insert: "set (om_insert k v m) \<subseteq> insert (k, v) (set m)"
  by (induction k v m rule: om_insert.induct) auto

lemma set_om_erase: "set (om_erase k m) \<subseteq> set m"
  by (induction k m rule: om_erase.induct) auto

lemma om_wf_Cons_keys: "om_wf (e # m) \<longleftrightarrow> (\<forall>k\<in>fst ` set m. fst e < k) \<and> om_wf m"
  by (cases e) simp

lemma om_wf_insert: "om_wf m \<Longrightarrow> om_wf (om_insert k v m)"
  by (induction k v m rule: om_insert.induct)
    (auto simp: om_wf_Cons_keys keys_om_insert simp del: om_wf_Cons)

lemma om_wf_assign: "om_wf m \<Longrightarrow> om_wf (om_assign k v m)"
  by (induction k v m rule: om_assign.induct)
    (auto simp: om_wf_Cons_keys keys_om_assign simp del: om_wf_Cons)

lemma om_wf_erase: "om_wf m \<Longrightarrow> om_wf (om_erase k m)"
  by (induction k m rule: om_erase.induct) (auto dest: subsetD [OF set_om_erase])

lemma om_find_None_iff: "om_find m k = None \<longleftrightarrow> k \<notin> fst ` set m"
  by (simp add: om_find_def map_of_eq_None_iff)

lemma om_find_above: "\<forall>e\<in>set m. (k :: 'k::linorder) < fst e \<Longrightarrow> k' \<le> k \<Longrightarrow> map_of m k' = None"
  by (induction m) (auto dest: leD)

lemma om_find_insert:
  "om_wf m \<Longrightarrow> om_find (om_insert k v m) k' =
     (if k' = k \<and> om_find m k = None then Some v else om_find m k')"
  by (induction k v m rule: om_insert.induct) (auto simp: om_find_def om_find_above)

lemma om_find_assign:
  "om_wf m \<Longrightarrow> om_find (om_assign k v m) k' = (if k' = k then Some v else om_find m k')"
  by (induction k v m rule: om_assign.induct) (auto simp: om_find_def)

lemma om_find_erase:
  "om_wf m \<Longrightarrow> om_find (om_erase k m) k' = (if k' = k then None else om_find m k')"
  by (induction k m rule: om_erase.induct) (auto simp: om_find_def om_find_above)

section \<open>The association lists provide the interface\<close>

interpretation om: finite_map "[] :: ('k::linorder, 'v) omap" om_find om_insert om_assign om_erase om_wf
  by unfold_locales
    (simp_all add: om_find_insert om_find_assign om_find_erase om_wf_insert om_wf_assign om_wf_erase,
     simp add: om_find_def)

section \<open>Iterators\<close>

lemma lower_bound_split: "lower_bound k m = (a, b) \<Longrightarrow> m = a @ b"
  by (auto simp: lower_bound_def)

lemma upper_bound_split: "upper_bound k m = (a, b) \<Longrightarrow> m = a @ b"
  by (auto simp: upper_bound_def)

lemma lower_bound_keys:
  assumes "om_wf m" "lower_bound k m = (a, b)"
  shows "\<forall>e\<in>set a. fst e < k" "\<forall>e\<in>set b. k \<le> fst e"
proof -
  show "\<forall>e\<in>set a. fst e < k"
    using assms(2) by (auto simp: lower_bound_def dest: set_takeWhileD)
  have "\<forall>e\<in>set (dropWhile (\<lambda>e. fst e < k) m). k \<le> fst e"
    using assms(1)
  proof (induction m)
    case (Cons e m)
    show ?case
    proof (cases "fst e < k")
      case False
      then show ?thesis
        using Cons.prems by (cases e) (simp, metis le_less_trans less_imp_le not_le)
    qed (use Cons in \<open>cases e; simp\<close>)
  qed simp
  then show "\<forall>e\<in>set b. k \<le> fst e"
    using assms(2) by (simp add: lower_bound_def)
qed

lemma upper_bound_keys:
  assumes "om_wf m" "upper_bound k m = (a, b)"
  shows "\<forall>e\<in>set a. fst e \<le> k" "\<forall>e\<in>set b. k < fst e"
proof -
  show "\<forall>e\<in>set a. fst e \<le> k"
    using assms(2) by (auto simp: upper_bound_def dest: set_takeWhileD)
  have "\<forall>e\<in>set (dropWhile (\<lambda>e. fst e \<le> k) m). k < fst e"
    using assms(1)
  proof (induction m)
    case (Cons e m)
    show ?case
    proof (cases "fst e \<le> k")
      case False
      then show ?thesis
        using Cons.prems by (cases e) (simp, metis less_trans not_le)
    qed (use Cons in \<open>cases e; simp\<close>)
  qed simp
  then show "\<forall>e\<in>set b. k < fst e"
    using assms(2) by (simp add: upper_bound_def)
qed

section \<open>Insertion at a known place\<close>

lemma om_insert_between:
  assumes "\<forall>e\<in>set a. fst e < k" "\<forall>e\<in>set b. k < fst e"
  shows "om_insert k v (a @ b) = a @ (k, v) # b"
  using assms
proof (induction a)
  case Nil
  then show ?case by (cases b) auto
next
  case (Cons x a)
  then show ?case by (cases x) auto
qed

lemma om_insert_last: "\<forall>e\<in>set m. fst e < k \<Longrightarrow> om_insert k v m = m @ [(k, v)]"
  using om_insert_between [of m k "[]" v] by simp

lemma om_insert_head_present: "om_insert k v ((k, v') # m) = (k, v') # m"
  by simp

end
