(* ===== verification/Network_Interface.thy ===== *)
theory Network_Interface
  imports Addresses IPv4 Ordered_Map
begin

text \<open>
  A network interface: \<open>src/libsponge/network_interface.hh\<close> and \<open>network_interface.cc\<close>.

  The two loops that work on the containers they iterate over are \<open>partial_function\<close>s: the value
  \<open>None\<close> means that the loop runs forever.  The debugging output is not modelled.
\<close>

section \<open>The class\<close>

record ARPEntry =
  ae_ethernet_address :: EthernetAddress
  ae_last_seen :: nat

definition ARP_TIMEOUT_MS :: nat where
  "ARP_TIMEOUT_MS = 30 * 1000"

definition ARP_CLEANUP_INTERVAL_MS :: nat where
  "ARP_CLEANUP_INTERVAL_MS = 5 * 1000"

record NetworkInterface =
  ni_arp_table :: "(32 word, ARPEntry) omap"
  ni_waiting_arp_response :: "(32 word, nat) omap"
  ni_waiting_ip_response :: "(Address \<times> InternetDatagram) list"
  ni_ethernet_address :: EthernetAddress
  ni_ip_address :: Address
  ni_frames_out :: "EthernetFrame list"

definition NetworkInterface_new :: "EthernetAddress \<Rightarrow> Address \<Rightarrow> NetworkInterface" where
  "NetworkInterface_new ethernet_address ip_address =
     \<lparr>ni_arp_table = [], ni_waiting_arp_response = [], ni_waiting_ip_response = [],
      ni_ethernet_address = ethernet_address, ni_ip_address = ip_address, ni_frames_out = []\<rparr>"

text \<open>The frame with an ARP request for an address, built in \<open>send_datagram\<close> and in \<open>tick\<close>.\<close>

definition arp_request_frame :: "NetworkInterface \<Rightarrow> 32 word \<Rightarrow> EthernetFrame result" where
  "arp_request_frame ni ip =
     bind_result (Address_ipv4_numeric (ni_ip_address ni)) (\<lambda>sender_ip.
     let arp_request = ARPMessage_default
           \<lparr>arp_opcode := OPCODE_REQUEST, arp_sender_ethernet_address := ni_ethernet_address ni,
            arp_sender_ip_address := sender_ip, arp_target_ethernet_address := replicate 6 0, arp_target_ip_address := ip\<rparr>
     in bind_result (ARPMessage_serialize arp_request) (\<lambda>payload.
        Inr \<lparr>fr_header = \<lparr>eth_dst = ETHERNET_BROADCAST, eth_src = ni_ethernet_address ni, eth_type = TYPE_ARP\<rparr>,
             fr_payload = BufferList_new payload\<rparr>))"

definition send_datagram :: "NetworkInterface \<Rightarrow> InternetDatagram \<Rightarrow> Address \<Rightarrow> NetworkInterface result" where
  "send_datagram ni dgram next_hop =
     bind_result (Address_ipv4_numeric next_hop) (\<lambda>next_hop_ip.
     case om_find (ni_arp_table ni) next_hop_ip of
       None \<Rightarrow>
         if om_find (ni_waiting_arp_response ni) next_hop_ip = None
         then bind_result (arp_request_frame ni next_hop_ip) (\<lambda>frame.
              Inr (ni\<lparr>ni_frames_out := ni_frames_out ni @ [frame],
                      ni_waiting_arp_response := om_assign next_hop_ip 0 (ni_waiting_arp_response ni),
                      ni_waiting_ip_response := ni_waiting_ip_response ni @ [(next_hop, dgram)]\<rparr>))
         else Inr (ni\<lparr>ni_waiting_ip_response := ni_waiting_ip_response ni @ [(next_hop, dgram)]\<rparr>)
     | Some entry \<Rightarrow>
         bind_result (IPv4Datagram_serialize dgram) (\<lambda>payload.
         let frame = \<lparr>fr_header = \<lparr>eth_dst = ae_ethernet_address entry, eth_src = ni_ethernet_address ni, eth_type = TYPE_IPv4\<rparr>,
                      fr_payload = payload\<rparr>
         in Inr (ni\<lparr>ni_frames_out := ni_frames_out ni @ [frame]\<rparr>)))"

definition arp_reply_frame :: "NetworkInterface \<Rightarrow> EthernetAddress \<Rightarrow> 32 word \<Rightarrow> EthernetFrame result" where
  "arp_reply_frame ni src_eth_addr src_ip_addr =
     bind_result (Address_ipv4_numeric (ni_ip_address ni)) (\<lambda>sender_ip.
     let arp_reply = ARPMessage_default
           \<lparr>arp_opcode := OPCODE_REPLY, arp_sender_ethernet_address := ni_ethernet_address ni,
            arp_sender_ip_address := sender_ip, arp_target_ethernet_address := src_eth_addr, arp_target_ip_address := src_ip_addr\<rparr>
     in bind_result (ARPMessage_serialize arp_reply) (\<lambda>payload.
        Inr \<lparr>fr_header = \<lparr>eth_dst = src_eth_addr, eth_src = ni_ethernet_address ni, eth_type = TYPE_ARP\<rparr>,
             fr_payload = BufferList_new payload\<rparr>))"

text \<open>The loop over the waiting datagrams; \<open>i\<close> is the position of the iterator.\<close>

definition remove_nth :: "nat \<Rightarrow> 'a list \<Rightarrow> 'a list" where
  "remove_nth i xs = take i xs @ drop (Suc i) xs"

partial_function (option) send_waiting :: "32 word \<Rightarrow> nat \<Rightarrow> NetworkInterface \<Rightarrow> NetworkInterface result option" where
  "send_waiting src_ip_addr i ni =
     (if i < length (ni_waiting_ip_response ni) then
        let (next_hop, dgram) = ni_waiting_ip_response ni ! i
        in case Address_ipv4_numeric next_hop of
             Inl e \<Rightarrow> Some (Inl e)
           | Inr ip \<Rightarrow>
               if ip = src_ip_addr then
                 (case send_datagram ni dgram next_hop of
                    Inl e \<Rightarrow> Some (Inl e)
                  | Inr ni1 \<Rightarrow>
                      send_waiting src_ip_addr i
                        (ni1\<lparr>ni_waiting_ip_response := remove_nth i (ni_waiting_ip_response ni1),
                             ni_waiting_arp_response := om_erase src_ip_addr (ni_waiting_arp_response ni1)\<rparr>))
               else
                 send_waiting src_ip_addr (Suc i)
                   (ni\<lparr>ni_waiting_arp_response := om_erase src_ip_addr (ni_waiting_arp_response ni)\<rparr>)
      else Some (Inr ni))"

definition arp_received :: "NetworkInterface \<Rightarrow> ARPMessage \<Rightarrow> NetworkInterface result option" where
  "arp_received ni arp_request =
     (let src_ip_addr = arp_sender_ip_address arp_request;
          src_eth_addr = arp_sender_ethernet_address arp_request
      in case Address_ipv4_numeric (ni_ip_address ni) of
           Inl e \<Rightarrow> Some (Inl e)
         | Inr own_ip \<Rightarrow>
             let valid_request = (arp_target_ip_address arp_request = own_ip \<and> arp_opcode arp_request = OPCODE_REQUEST);
                 valid_response = (arp_target_ethernet_address arp_request = ni_ethernet_address ni \<and>
                                   arp_opcode arp_request = OPCODE_REPLY)
             in case (if valid_request
                      then bind_result (arp_reply_frame ni src_eth_addr src_ip_addr) (\<lambda>frame.
                           Inr (ni\<lparr>ni_frames_out := ni_frames_out ni @ [frame]\<rparr>))
                      else Inr ni) of
                  Inl e \<Rightarrow> Some (Inl e)
                | Inr ni1 \<Rightarrow>
                    if valid_request \<or> valid_response
                    then send_waiting src_ip_addr 0
                           (ni1\<lparr>ni_arp_table := om_assign src_ip_addr
                                 \<lparr>ae_ethernet_address = src_eth_addr, ae_last_seen = 0\<rparr> (ni_arp_table ni1)\<rparr>)
                    else Some (Inr ni1))"

definition recv_frame :: "NetworkInterface \<Rightarrow> EthernetFrame \<Rightarrow> (InternetDatagram option \<times> NetworkInterface) result option" where
  "recv_frame ni frame =
     (if eth_dst (fr_header frame) \<noteq> ni_ethernet_address ni \<and> eth_dst (fr_header frame) \<noteq> ETHERNET_BROADCAST
      then Some (Inr (None, ni))
      else if eth_type (fr_header frame) = TYPE_ARP then
        (case bind_result (BufferList_to_Buffer (fr_payload frame)) (ARPMessage_parse ARPMessage_default) of
           Inl e \<Rightarrow> Some (Inl e)
         | Inr (_, arp_request) \<Rightarrow>
             map_option (\<lambda>r. bind_result r (\<lambda>ni1. Inr (None, ni1))) (arp_received ni arp_request))
      else if eth_type (fr_header frame) = TYPE_IPv4 then
        Some (bind_result (BufferList_to_Buffer (fr_payload frame)) (\<lambda>buffer.
              bind_result (IPv4Datagram_parse IPv4Datagram_default buffer) (\<lambda>(res, dgram).
              if res \<noteq> NoError then Inr (None, ni)
              else bind_result (IPv4Datagram_parse dgram buffer) (\<lambda>(_, dgram). Inr (Some dgram, ni)))))
      else Some (Inr (None, ni)))"

text \<open>The two loops of \<open>tick\<close>.\<close>

definition expire_arp_table :: "nat \<Rightarrow> (32 word, ARPEntry) omap \<Rightarrow> (32 word, ARPEntry) omap" where
  "expire_arp_table ms m =
     filter (\<lambda>(_, entry). ae_last_seen entry < ARP_TIMEOUT_MS)
       (map (\<lambda>(ip, entry). (ip, entry\<lparr>ae_last_seen := u64_add (ae_last_seen entry) ms\<rparr>)) m)"

partial_function (option) resend_requests :: "nat \<Rightarrow> nat \<Rightarrow> NetworkInterface \<Rightarrow> NetworkInterface result option" where
  "resend_requests ms i ni =
     (if i < length (ni_waiting_arp_response ni) then
        let (ip, time) = ni_waiting_arp_response ni ! i; time1 = u64_add time ms
        in if time1 \<ge> ARP_CLEANUP_INTERVAL_MS then
             (case arp_request_frame ni ip of
                Inl e \<Rightarrow> Some (Inl e)
              | Inr frame \<Rightarrow>
                  resend_requests ms i
                    (ni\<lparr>ni_frames_out := ni_frames_out ni @ [frame],
                        ni_waiting_arp_response := (ni_waiting_arp_response ni)[i := (ip, 0)]\<rparr>))
           else resend_requests ms (Suc i) (ni\<lparr>ni_waiting_arp_response := (ni_waiting_arp_response ni)[i := (ip, time1)]\<rparr>)
      else Some (Inr ni))"

definition NetworkInterface_tick :: "NetworkInterface \<Rightarrow> nat \<Rightarrow> NetworkInterface result option" where
  "NetworkInterface_tick ni ms_since_last_tick =
     resend_requests ms_since_last_tick 0
       (ni\<lparr>ni_arp_table := expire_arp_table ms_since_last_tick (ni_arp_table ni)\<rparr>)"

section \<open>Specification\<close>

abbreviation om_keys :: "('k, 'v) omap \<Rightarrow> 'k set" where
  "om_keys m \<equiv> fst ` set m"

definition hop_ip :: "Address \<Rightarrow> 32 word" where
  "hop_ip a = (case Address_ipv4_numeric a of Inr ip \<Rightarrow> ip | Inl _ \<Rightarrow> 0)"

definition hop_ok :: "Address \<Rightarrow> bool" where
  "hop_ok a \<longleftrightarrow> Address_ipv4_numeric a = Inr (hop_ip a)"

definition dgram_ok :: "InternetDatagram \<Rightarrow> bool" where
  "dgram_ok dg \<longleftrightarrow> (\<exists>l. IPv4Datagram_serialize dg = Inr l)"

text \<open>The frame that carries a datagram.\<close>

definition ip_frame :: "EthernetAddress \<Rightarrow> EthernetAddress \<Rightarrow> InternetDatagram \<Rightarrow> EthernetFrame" where
  "ip_frame src dst dg = \<lparr>fr_header = \<lparr>eth_dst = dst, eth_src = src, eth_type = TYPE_IPv4\<rparr>,
     fr_payload = (case IPv4Datagram_serialize dg of Inr l \<Rightarrow> l | Inl _ \<Rightarrow> [])\<rparr>"

text \<open>The interface waits for exactly the addresses some datagram waits for, and for none it knows.\<close>

definition ni_inv :: "NetworkInterface \<Rightarrow> bool" where
  "ni_inv ni \<longleftrightarrow>
     om_wf (ni_arp_table ni) \<and> om_wf (ni_waiting_arp_response ni) \<and>
     length (ni_ethernet_address ni) = 6 \<and> hop_ok (ni_ip_address ni) \<and>
     (\<forall>e \<in> set (ni_arp_table ni). length (ae_ethernet_address (snd e)) = 6 \<and> ae_last_seen (snd e) < ARP_TIMEOUT_MS) \<and>
     (\<forall>e \<in> set (ni_waiting_arp_response ni). snd e < ARP_CLEANUP_INTERVAL_MS) \<and>
     (\<forall>w \<in> set (ni_waiting_ip_response ni). hop_ok (fst w) \<and> dgram_ok (snd w)) \<and>
     om_keys (ni_waiting_arp_response ni) = hop_ip ` fst ` set (ni_waiting_ip_response ni) \<and>
     om_keys (ni_waiting_arp_response ni) \<inter> om_keys (ni_arp_table ni) = {}"

lemma NetworkInterface_new_inv:
  "length eth = 6 \<Longrightarrow> hop_ok ip \<Longrightarrow> ni_inv (NetworkInterface_new eth ip)"
  by (simp add: ni_inv_def NetworkInterface_new_def)

lemma hop_ok_ipv4 [simp]: "hop_ok (ipv4_address port ip)" "hop_ip (ipv4_address port ip) = ip"
  by (simp_all add: hop_ok_def hop_ip_def)

lemma ni_inv_frames [simp]: "ni_inv (ni\<lparr>ni_frames_out := frames\<rparr>) = ni_inv ni"
  by (simp add: ni_inv_def)

section \<open>Frames\<close>

definition request_msg :: "NetworkInterface \<Rightarrow> 32 word \<Rightarrow> ARPMessage" where
  "request_msg ni ip = ARPMessage_default
     \<lparr>arp_opcode := OPCODE_REQUEST, arp_sender_ethernet_address := ni_ethernet_address ni,
      arp_sender_ip_address := hop_ip (ni_ip_address ni), arp_target_ethernet_address := replicate 6 0, arp_target_ip_address := ip\<rparr>"

definition reply_msg :: "NetworkInterface \<Rightarrow> EthernetAddress \<Rightarrow> 32 word \<Rightarrow> ARPMessage" where
  "reply_msg ni eth ip = ARPMessage_default
     \<lparr>arp_opcode := OPCODE_REPLY, arp_sender_ethernet_address := ni_ethernet_address ni,
      arp_sender_ip_address := hop_ip (ni_ip_address ni), arp_target_ethernet_address := eth, arp_target_ip_address := ip\<rparr>"

definition arp_frame :: "EthernetAddress \<Rightarrow> EthernetAddress \<Rightarrow> ARPMessage \<Rightarrow> EthernetFrame" where
  "arp_frame src dst msg = \<lparr>fr_header = \<lparr>eth_dst = dst, eth_src = src, eth_type = TYPE_ARP\<rparr>,
     fr_payload = BufferList_new (case ARPMessage_serialize msg of Inr bs \<Rightarrow> bs | Inl _ \<Rightarrow> [])\<rparr>"

lemma msg_ok:
  "length (ni_ethernet_address ni) = 6 \<Longrightarrow> ARPMessage_wf (request_msg ni ip)" "ARPMessage_supported (request_msg ni ip)"
  "length (ni_ethernet_address ni) = 6 \<Longrightarrow> length eth = 6 \<Longrightarrow> ARPMessage_wf (reply_msg ni eth ip)"
  "ARPMessage_supported (reply_msg ni eth ip)"
  by (simp_all add: request_msg_def reply_msg_def ARPMessage_wf_def ARPMessage_supported_def ARPMessage_default_def)

lemma arp_request_frame_eq:
  assumes "hop_ok (ni_ip_address ni)"
  shows "arp_request_frame ni ip = Inr (arp_frame (ni_ethernet_address ni) ETHERNET_BROADCAST (request_msg ni ip))"
  using assms ARPMessage_serialize_eq [OF msg_ok(2) [of ni ip]]
  by (simp add: arp_request_frame_def arp_frame_def hop_ok_def request_msg_def)

lemma arp_reply_frame_eq:
  assumes "hop_ok (ni_ip_address ni)"
  shows "arp_reply_frame ni eth ip = Inr (arp_frame (ni_ethernet_address ni) eth (reply_msg ni eth ip))"
  using assms ARPMessage_serialize_eq [OF msg_ok(4) [of ni eth ip]]
  by (simp add: arp_reply_frame_def arp_frame_def hop_ok_def reply_msg_def)

section \<open>Sending\<close>

lemma send_datagram_known:
  assumes "hop_ok hop" "dgram_ok dg" "om_find (ni_arp_table ni) (hop_ip hop) = Some e"
  shows "send_datagram ni dg hop =
    Inr (ni\<lparr>ni_frames_out := ni_frames_out ni @ [ip_frame (ni_ethernet_address ni) (ae_ethernet_address e) dg]\<rparr>)"
  using assms by (auto simp: send_datagram_def hop_ok_def dgram_ok_def ip_frame_def)

lemma send_datagram_waiting:
  assumes "hop_ok hop" "om_find (ni_arp_table ni) (hop_ip hop) = None"
    "om_find (ni_waiting_arp_response ni) (hop_ip hop) \<noteq> None"
  shows "send_datagram ni dg hop = Inr (ni\<lparr>ni_waiting_ip_response := ni_waiting_ip_response ni @ [(hop, dg)]\<rparr>)"
  using assms by (auto simp: send_datagram_def hop_ok_def)

lemma send_datagram_new:
  assumes "hop_ok hop" "om_find (ni_arp_table ni) (hop_ip hop) = None"
    "om_find (ni_waiting_arp_response ni) (hop_ip hop) = None" "hop_ok (ni_ip_address ni)"
  shows "send_datagram ni dg hop =
    Inr (ni\<lparr>ni_frames_out := ni_frames_out ni @ [arp_frame (ni_ethernet_address ni) ETHERNET_BROADCAST (request_msg ni (hop_ip hop))],
            ni_waiting_arp_response := om_assign (hop_ip hop) 0 (ni_waiting_arp_response ni),
            ni_waiting_ip_response := ni_waiting_ip_response ni @ [(hop, dg)]\<rparr>)"
  using assms by (simp add: send_datagram_def hop_ok_def arp_request_frame_eq)

lemma set_om_assign: "set (om_assign k v m) \<subseteq> insert (k, v) (set m)"
  by (induction k v m rule: om_assign.induct) auto

lemma ni_inv_enqueue:
  assumes inv: "ni_inv ni" and ok: "hop_ok hop" "dgram_ok dg"
    and m: "om_wf m" "om_keys m = insert (hop_ip hop) (om_keys (ni_waiting_arp_response ni))"
      "\<forall>e \<in> set m. snd e < ARP_CLEANUP_INTERVAL_MS" "hop_ip hop \<notin> om_keys (ni_arp_table ni)"
  shows "ni_inv (ni\<lparr>ni_waiting_arp_response := m, ni_waiting_ip_response := ni_waiting_ip_response ni @ [(hop, dg)]\<rparr>)"
proof -
  have "om_keys m = hop_ip ` fst ` set (ni_waiting_ip_response ni @ [(hop, dg)])"
    using inv unfolding m(2) ni_inv_def by simp
  moreover have "om_keys m \<inter> om_keys (ni_arp_table ni) = {}"
    using inv m(4) unfolding m(2) ni_inv_def by blast
  moreover have "\<forall>w \<in> set (ni_waiting_ip_response ni @ [(hop, dg)]). hop_ok (fst w) \<and> dgram_ok (snd w)"
    using inv ok unfolding ni_inv_def by auto
  ultimately show ?thesis using inv m(1,3) unfolding ni_inv_def by simp
qed

lemma send_datagram_inv:
  assumes inv: "ni_inv ni" and ok: "hop_ok hop" "dgram_ok dg"
  shows "\<exists>ni'. send_datagram ni dg hop = Inr ni' \<and> ni_inv ni'"
proof (cases "om_find (ni_arp_table ni) (hop_ip hop)")
  case (Some e)
  then show ?thesis using send_datagram_known [OF ok Some] inv by simp
next
  case None
  have nk: "hop_ip hop \<notin> om_keys (ni_arp_table ni)" using None om_find_None_iff [of "ni_arp_table ni" "hop_ip hop"] by simp
  have w: "om_wf (ni_waiting_arp_response ni)" "\<forall>e \<in> set (ni_waiting_arp_response ni). snd e < ARP_CLEANUP_INTERVAL_MS"
    and own: "hop_ok (ni_ip_address ni)" using inv by (simp_all add: ni_inv_def)
  show ?thesis
  proof (cases "om_find (ni_waiting_arp_response ni) (hop_ip hop) = None")
    case False
    then have "hop_ip hop \<in> om_keys (ni_waiting_arp_response ni)"
      using om_find_None_iff [of "ni_waiting_arp_response ni" "hop_ip hop"] by simp
    then show ?thesis
      using send_datagram_waiting [OF ok(1) None False] ni_inv_enqueue [OF inv ok w(1) _ w(2) nk] by (simp add: insert_absorb)
  next
    case True
    have "\<forall>e \<in> set (om_assign (hop_ip hop) 0 (ni_waiting_arp_response ni)). snd e < ARP_CLEANUP_INTERVAL_MS"
      using set_om_assign [of "hop_ip hop" 0 "ni_waiting_arp_response ni"] w(2) by (auto simp: ARP_CLEANUP_INTERVAL_MS_def)
    then have "ni_inv ((ni\<lparr>ni_frames_out := frames\<rparr>)\<lparr>ni_waiting_arp_response := om_assign (hop_ip hop) 0 (ni_waiting_arp_response ni),
        ni_waiting_ip_response := ni_waiting_ip_response ni @ [(hop, dg)]\<rparr>)" for frames
      using ni_inv_enqueue [of "ni\<lparr>ni_frames_out := frames\<rparr>" hop dg "om_assign (hop_ip hop) 0 (ni_waiting_arp_response ni)"]
        inv ok om_wf_assign [OF w(1)] nk by (simp add: keys_om_assign)
    then show ?thesis using send_datagram_new [OF ok(1) None True own] by simp
  qed
qed

section \<open>Learning an address\<close>

lemma om_erase_absent: "k \<notin> om_keys m \<Longrightarrow> om_erase k m = m"
  by (induction k m rule: om_erase.induct) auto

lemma om_erase_keys: "om_wf m \<Longrightarrow> om_keys (om_erase k m) = om_keys m - {k}"
  by (induction k m rule: om_erase.induct) auto

lemma om_erase_twice: "om_wf m \<Longrightarrow> om_erase k (om_erase k m) = om_erase k m"
  by (rule om_erase_absent) (simp add: om_erase_keys)

text \<open>The loop over the waiting datagrams ends, sends those for the address in their order, and keeps the
  others.\<close>

lemma send_waiting_spec:
  assumes "\<forall>w \<in> set (ni_waiting_ip_response ni). hop_ok (fst w) \<and> dgram_ok (snd w)" "om_wf (ni_waiting_arp_response ni)"
    "om_find (ni_arp_table ni) ip = Some e" "i \<le> length (ni_waiting_ip_response ni)"
  shows "send_waiting ip i ni = Some (Inr (ni\<lparr>
    ni_waiting_ip_response := take i (ni_waiting_ip_response ni) @
      filter (\<lambda>w. hop_ip (fst w) \<noteq> ip) (drop i (ni_waiting_ip_response ni)),
    ni_frames_out := ni_frames_out ni @ map (\<lambda>w. ip_frame (ni_ethernet_address ni) (ae_ethernet_address e) (snd w))
      (filter (\<lambda>w. hop_ip (fst w) = ip) (drop i (ni_waiting_ip_response ni))),
    ni_waiting_arp_response := (if i < length (ni_waiting_ip_response ni)
      then om_erase ip (ni_waiting_arp_response ni) else ni_waiting_arp_response ni)\<rparr>))"
  using assms
proof (induction "length (ni_waiting_ip_response ni) - i" arbitrary: i ni)
  case 0
  then show ?case by (subst send_waiting.simps) simp
next
  case (Suc k)
  let ?W = "ni_waiting_ip_response ni"
  have i: "i < length ?W" using Suc(2) by simp
  obtain hop dg where w: "?W ! i = (hop, dg)" by (cases "?W ! i")
  have ok: "hop_ok hop" "dgram_ok dg" using Suc(3) i w nth_mem [OF i] by auto
  have dr: "drop i ?W = (hop, dg) # drop (Suc i) ?W" using Cons_nth_drop_Suc [OF i] w by simp
  show ?case
  proof (cases "hop_ip hop = ip")
    case True
    define ni' where "ni' = ni\<lparr>ni_frames_out := ni_frames_out ni @ [ip_frame (ni_ethernet_address ni) (ae_ethernet_address e) dg],
        ni_waiting_ip_response := remove_nth i ?W, ni_waiting_arp_response := om_erase ip (ni_waiting_arp_response ni)\<rparr>"
    have W': "ni_waiting_ip_response ni' = take i ?W @ drop (Suc i) ?W" by (simp add: ni'_def remove_nth_def)
    have st: "send_waiting ip i ni = send_waiting ip i ni'"
      using i w ok True send_datagram_known [OF ok, of ni e] Suc(5)
      by (subst send_waiting.simps) (simp add: hop_ok_def ni'_def)
    have sub: "set (ni_waiting_ip_response ni') \<subseteq> set ?W"
      using set_take_subset [of i ?W] set_drop_subset [of "Suc i" ?W] by (auto simp: W')
    have "k = length (ni_waiting_ip_response ni') - i" "i \<le> length (ni_waiting_ip_response ni')"
      using Suc(2) i by (simp_all add: W')
    moreover have "om_wf (ni_waiting_arp_response ni')" using om_wf_erase [OF Suc(4)] by (simp add: ni'_def)
    moreover have "om_find (ni_arp_table ni') ip = Some e" using Suc(5) by (simp add: ni'_def)
    ultimately have "send_waiting ip i ni' = Some (Inr (ni'\<lparr>
        ni_waiting_ip_response := take i (ni_waiting_ip_response ni') @
          filter (\<lambda>w. hop_ip (fst w) \<noteq> ip) (drop i (ni_waiting_ip_response ni')),
        ni_frames_out := ni_frames_out ni' @ map (\<lambda>w. ip_frame (ni_ethernet_address ni') (ae_ethernet_address e) (snd w))
          (filter (\<lambda>w. hop_ip (fst w) = ip) (drop i (ni_waiting_ip_response ni'))),
        ni_waiting_arp_response := (if i < length (ni_waiting_ip_response ni')
          then om_erase ip (ni_waiting_arp_response ni') else ni_waiting_arp_response ni')\<rparr>))"
      using Suc(1) [of ni' i] sub Suc(3) by blast
    moreover have "take i (ni_waiting_ip_response ni') = take i ?W" "drop i (ni_waiting_ip_response ni') = drop (Suc i) ?W"
      using i by (simp_all add: W')
    moreover have "ni_frames_out ni' = ni_frames_out ni @ [ip_frame (ni_ethernet_address ni) (ae_ethernet_address e) dg]"
        "ni_waiting_arp_response ni' = om_erase ip (ni_waiting_arp_response ni)" "ni_ethernet_address ni' = ni_ethernet_address ni"
      by (simp_all add: ni'_def)
    ultimately show ?thesis
      unfolding st dr using i True om_erase_twice [OF Suc(4)] by (simp add: ni'_def)
  next
    case False
    define ni' where "ni' = ni\<lparr>ni_waiting_arp_response := om_erase ip (ni_waiting_arp_response ni)\<rparr>"
    have st: "send_waiting ip i ni = send_waiting ip (Suc i) ni'"
      using i w ok False by (subst send_waiting.simps) (simp add: hop_ok_def ni'_def)
    have f: "ni_waiting_ip_response ni' = ?W" "ni_waiting_arp_response ni' = om_erase ip (ni_waiting_arp_response ni)"
        "ni_frames_out ni' = ni_frames_out ni" "ni_arp_table ni' = ni_arp_table ni" "ni_ethernet_address ni' = ni_ethernet_address ni"
      by (simp_all add: ni'_def)
    have "send_waiting ip (Suc i) ni' = Some (Inr (ni'\<lparr>
        ni_waiting_ip_response := take (Suc i) ?W @ filter (\<lambda>w. hop_ip (fst w) \<noteq> ip) (drop (Suc i) ?W),
        ni_frames_out := ni_frames_out ni @ map (\<lambda>w. ip_frame (ni_ethernet_address ni) (ae_ethernet_address e) (snd w))
          (filter (\<lambda>w. hop_ip (fst w) = ip) (drop (Suc i) ?W)),
        ni_waiting_arp_response := (if Suc i < length ?W
          then om_erase ip (om_erase ip (ni_waiting_arp_response ni)) else om_erase ip (ni_waiting_arp_response ni))\<rparr>))"
      using Suc(1) [of ni' "Suc i"] Suc(2-5) i om_wf_erase [OF Suc(4)] unfolding f by simp
    moreover have "take (Suc i) ?W = take i ?W @ [(hop, dg)]" using i w by (simp add: take_Suc_conv_app_nth)
    ultimately show ?thesis
      unfolding st dr using i False om_erase_twice [OF Suc(4)] by (simp add: ni'_def)
  qed
qed

lemma ni_inv_learn:
  fixes ip :: "32 word"
  assumes inv: "ni_inv ni" and eth: "length eth = 6"
  defines "ni1 \<equiv> ni\<lparr>ni_arp_table := om_assign ip \<lparr>ae_ethernet_address = eth, ae_last_seen = 0\<rparr> (ni_arp_table ni)\<rparr>"
  shows "\<exists>ni'. send_waiting ip 0 ni1 = Some (Inr ni') \<and> ni_inv ni' \<and>
    om_find (ni_arp_table ni') ip = Some \<lparr>ae_ethernet_address = eth, ae_last_seen = 0\<rparr> \<and>
    ni_waiting_ip_response ni' = filter (\<lambda>w. hop_ip (fst w) \<noteq> ip) (ni_waiting_ip_response ni) \<and>
    ni_frames_out ni' = ni_frames_out ni @ map (\<lambda>w. ip_frame (ni_ethernet_address ni) eth (snd w))
      (filter (\<lambda>w. hop_ip (fst w) = ip) (ni_waiting_ip_response ni)) \<and>
    ni_ethernet_address ni' = ni_ethernet_address ni \<and> ni_ip_address ni' = ni_ip_address ni \<and>
    ni_arp_table ni' = ni_arp_table ni1"
proof -
  let ?W = "ni_waiting_ip_response ni" and ?E = "\<lparr>ae_ethernet_address = eth, ae_last_seen = 0\<rparr>"
  have i: "om_wf (ni_arp_table ni)" "om_wf (ni_waiting_arp_response ni)" "length (ni_ethernet_address ni) = 6"
    "hop_ok (ni_ip_address ni)"
    "\<forall>e \<in> set (ni_arp_table ni). length (ae_ethernet_address (snd e)) = 6 \<and> ae_last_seen (snd e) < ARP_TIMEOUT_MS"
    "\<forall>e \<in> set (ni_waiting_arp_response ni). snd e < ARP_CLEANUP_INTERVAL_MS"
    "\<forall>w \<in> set ?W. hop_ok (fst w) \<and> dgram_ok (snd w)" "om_keys (ni_waiting_arp_response ni) = hop_ip ` fst ` set ?W"
    "om_keys (ni_waiting_arp_response ni) \<inter> om_keys (ni_arp_table ni) = {}"
    by (insert inv [unfolded ni_inv_def], elim conjE, assumption)+
  define m where "m = om_erase ip (ni_waiting_arp_response ni)"
  define ni' where "ni' = ni1\<lparr>ni_waiting_ip_response := filter (\<lambda>w. hop_ip (fst w) \<noteq> ip) ?W,
    ni_frames_out := ni_frames_out ni @ map (\<lambda>w. ip_frame (ni_ethernet_address ni) eth (snd w)) (filter (\<lambda>w. hop_ip (fst w) = ip) ?W),
    ni_waiting_arp_response := m\<rparr>"
  have f: "ni_waiting_ip_response ni1 = ?W" "ni_waiting_arp_response ni1 = ni_waiting_arp_response ni"
    "ni_frames_out ni1 = ni_frames_out ni" "ni_ethernet_address ni1 = ni_ethernet_address ni"
    "ni_arp_table ni1 = om_assign ip ?E (ni_arp_table ni)"
    by (simp_all add: ni1_def)
  have m_eq: "(if 0 < length ?W then om_erase ip (ni_waiting_arp_response ni) else ni_waiting_arp_response ni) = m"
    using i(8) by (cases "?W = []") (simp_all add: m_def)
  have find: "om_find (ni_arp_table ni1) ip = Some ?E" using i(1) by (simp add: f om_find_assign)
  have "send_waiting ip 0 ni1 = Some (Inr ni')"
    using send_waiting_spec [of ni1 ip ?E 0] i(2,7) find unfolding f m_eq ni'_def by simp
  moreover have "ni_inv ni'"
  proof -
    have t: "\<forall>e \<in> set (om_assign ip ?E (ni_arp_table ni)). length (ae_ethernet_address (snd e)) = 6 \<and> ae_last_seen (snd e) < ARP_TIMEOUT_MS"
      using set_om_assign [of ip ?E "ni_arp_table ni"] i(5) eth by (auto simp: ARP_TIMEOUT_MS_def)
    have mk: "om_keys m = om_keys (ni_waiting_arp_response ni) - {ip}" "set m \<subseteq> set (ni_waiting_arp_response ni)" "om_wf m"
      using i(2) by (simp_all add: m_def om_erase_keys set_om_erase om_wf_erase)
    have k: "om_keys m = hop_ip ` fst ` set (filter (\<lambda>w. hop_ip (fst w) \<noteq> ip) ?W)"
      unfolding mk(1) i(8) by (auto simp: image_iff)
    have d: "om_keys m \<inter> om_keys (om_assign ip ?E (ni_arp_table ni)) = {}"
      using i(9) unfolding mk(1) keys_om_assign by blast
    show ?thesis
      unfolding ni_inv_def using i(3,4,6,7) t mk(2,3) k d om_wf_assign [OF i(1)] by (simp add: ni'_def f) (auto simp: ni1_def)
  qed
  ultimately show ?thesis using find by (simp add: ni'_def f) (simp add: ni1_def)
qed

section \<open>Receiving\<close>

text \<open>Which ARP messages the interface acts on.\<close>

definition arp_for_us :: "NetworkInterface \<Rightarrow> ARPMessage \<Rightarrow> bool" where
  "arp_for_us ni msg \<longleftrightarrow>
     (arp_target_ip_address msg = hop_ip (ni_ip_address ni) \<and> arp_opcode msg = OPCODE_REQUEST) \<or>
     (arp_target_ethernet_address msg = ni_ethernet_address ni \<and> arp_opcode msg = OPCODE_REPLY)"

definition arp_replies :: "NetworkInterface \<Rightarrow> ARPMessage \<Rightarrow> EthernetFrame list" where
  "arp_replies ni msg =
     (if arp_target_ip_address msg = hop_ip (ni_ip_address ni) \<and> arp_opcode msg = OPCODE_REQUEST
      then [arp_frame (ni_ethernet_address ni) (arp_sender_ethernet_address msg)
              (reply_msg ni (arp_sender_ethernet_address msg) (arp_sender_ip_address msg))] else [])"

lemma arp_received_spec:
  assumes inv: "ni_inv ni" and eth: "length (arp_sender_ethernet_address msg) = 6"
  shows "if arp_for_us ni msg
    then \<exists>ni'. arp_received ni msg = Some (Inr ni') \<and> ni_inv ni' \<and>
      om_find (ni_arp_table ni') (arp_sender_ip_address msg) =
        Some \<lparr>ae_ethernet_address = arp_sender_ethernet_address msg, ae_last_seen = 0\<rparr> \<and>
      ni_waiting_ip_response ni' =
        filter (\<lambda>w. hop_ip (fst w) \<noteq> arp_sender_ip_address msg) (ni_waiting_ip_response ni) \<and>
      ni_frames_out ni' = ni_frames_out ni @ arp_replies ni msg @
        map (\<lambda>w. ip_frame (ni_ethernet_address ni) (arp_sender_ethernet_address msg) (snd w))
          (filter (\<lambda>w. hop_ip (fst w) = arp_sender_ip_address msg) (ni_waiting_ip_response ni)) \<and>
      ni_ethernet_address ni' = ni_ethernet_address ni \<and> ni_ip_address ni' = ni_ip_address ni
    else arp_received ni msg = Some (Inr ni)"
proof -
  have own: "hop_ok (ni_ip_address ni)" using inv by (simp add: ni_inv_def)
  then have num: "Address_ipv4_numeric (ni_ip_address ni) = Inr (hop_ip (ni_ip_address ni))" by (simp add: hop_ok_def)
  define ni1 where "ni1 = ni\<lparr>ni_frames_out := ni_frames_out ni @ arp_replies ni msg\<rparr>"
  have ni1: "ni_inv ni1" "ni_frames_out ni1 = ni_frames_out ni @ arp_replies ni msg" "ni_ethernet_address ni1 = ni_ethernet_address ni"
    "ni_waiting_ip_response ni1 = ni_waiting_ip_response ni" "ni_ip_address ni1 = ni_ip_address ni"
    using inv by (simp_all add: ni1_def)
  have op: "OPCODE_REPLY \<noteq> OPCODE_REQUEST" by (simp add: OPCODE_REPLY_def OPCODE_REQUEST_def)
  show ?thesis
  proof (cases "arp_for_us ni msg")
    case True
    have "arp_received ni msg = send_waiting (arp_sender_ip_address msg) 0
        (ni1\<lparr>ni_arp_table := om_assign (arp_sender_ip_address msg)
           \<lparr>ae_ethernet_address = arp_sender_ethernet_address msg, ae_last_seen = 0\<rparr> (ni_arp_table ni1)\<rparr>)"
      using True op by (auto simp: arp_received_def num arp_reply_frame_eq [OF own] arp_for_us_def arp_replies_def ni1_def Let_def)
    then show ?thesis using ni_inv_learn [OF ni1(1) eth] True unfolding ni1(2-5) by (simp only: if_True append_assoc) blast
  next
    case False
    then show ?thesis by (auto simp: arp_received_def num arp_for_us_def Let_def)
  qed
qed

section \<open>Time\<close>

text \<open>One pass over the requests that are waiting.  A request that is resent restarts at the time that has
  passed, because the loop looks at it a second time.\<close>

definition waited :: "nat \<Rightarrow> nat \<Rightarrow> nat" where
  "waited ms t = (if t + ms \<ge> ARP_CLEANUP_INTERVAL_MS then ms else t + ms)"

lemma resend_requests_spec:
  assumes "hop_ok (ni_ip_address ni)" "ms < ARP_CLEANUP_INTERVAL_MS"
    "\<forall>e \<in> set (ni_waiting_arp_response ni). snd e < ARP_CLEANUP_INTERVAL_MS" "i \<le> length (ni_waiting_arp_response ni)"
  shows "resend_requests ms i ni = Some (Inr (ni\<lparr>
    ni_waiting_arp_response := take i (ni_waiting_arp_response ni) @
      map (\<lambda>(ip, t). (ip, waited ms t)) (drop i (ni_waiting_arp_response ni)),
    ni_frames_out := ni_frames_out ni @
      map (\<lambda>(ip, t). arp_frame (ni_ethernet_address ni) ETHERNET_BROADCAST (request_msg ni ip))
        (filter (\<lambda>(ip, t). t + ms \<ge> ARP_CLEANUP_INTERVAL_MS) (drop i (ni_waiting_arp_response ni)))\<rparr>))"
  using assms
proof (induction "length (ni_waiting_arp_response ni) - i" arbitrary: i ni)
  case 0
  then show ?case by (subst resend_requests.simps) simp
next
  case (Suc k)
  let ?M = "ni_waiting_arp_response ni"
  have i: "i < length ?M" using Suc(2) by simp
  obtain ip t where w: "?M ! i = (ip, t)" by (cases "?M ! i")
  have t: "t < ARP_CLEANUP_INTERVAL_MS" using Suc(5) nth_mem [OF i] w by fastforce
  have dr: "drop i ?M = (ip, t) # drop (Suc i) ?M" using Cons_nth_drop_Suc [OF i] w by simp
  have add: "u64_add t ms = t + ms" "u64_add 0 ms = ms"
    using t Suc(4) by (simp_all add: u64_simps W64_def ARP_CLEANUP_INTERVAL_MS_def)
  define ni' where "ni' = ni\<lparr>ni_frames_out := ni_frames_out ni @ (if t + ms \<ge> ARP_CLEANUP_INTERVAL_MS
      then [arp_frame (ni_ethernet_address ni) ETHERNET_BROADCAST (request_msg ni ip)] else []),
    ni_waiting_arp_response := ?M[i := (ip, waited ms t)]\<rparr>"
  have st: "resend_requests ms i ni = resend_requests ms (Suc i) ni'"
  proof (cases "t + ms \<ge> ARP_CLEANUP_INTERVAL_MS")
    case True
    let ?n = "ni\<lparr>ni_frames_out := ni_frames_out ni @ [arp_frame (ni_ethernet_address ni) ETHERNET_BROADCAST (request_msg ni ip)],
      ni_waiting_arp_response := ?M[i := (ip, 0)]\<rparr>"
    have "resend_requests ms i ni = resend_requests ms i ?n"
      using i w add True arp_request_frame_eq [OF Suc(3)] by (subst resend_requests.simps) simp
    also have "\<dots> = resend_requests ms (Suc i) ni'"
      using i add True Suc(4) by (subst resend_requests.simps) (simp add: ni'_def waited_def)
    finally show ?thesis .
  next
    case False
    then show ?thesis
      using i w add by (subst resend_requests.simps) (simp add: ni'_def waited_def)
  qed
  have lt: "waited ms t < ARP_CLEANUP_INTERVAL_MS" using Suc(4) by (simp add: waited_def)
  have M': "ni_waiting_arp_response ni' = take i ?M @ (ip, waited ms t) # drop (Suc i) ?M"
    using i by (simp add: ni'_def upd_conv_take_nth_drop)
  have f: "ni_frames_out ni' = ni_frames_out ni @ (if t + ms \<ge> ARP_CLEANUP_INTERVAL_MS
      then [arp_frame (ni_ethernet_address ni) ETHERNET_BROADCAST (request_msg ni ip)] else [])"
    "ni_ethernet_address ni' = ni_ethernet_address ni" "ni_ip_address ni' = ni_ip_address ni" "request_msg ni' = request_msg ni"
    by (simp_all add: ni'_def fun_eq_iff request_msg_def)
  have ok: "\<forall>e \<in> set (ni_waiting_arp_response ni'). snd e < ARP_CLEANUP_INTERVAL_MS"
    using Suc(5) lt set_take_subset [of i ?M] set_drop_subset [of "Suc i" ?M] unfolding M' by auto
  have "resend_requests ms (Suc i) ni' = Some (Inr (ni'\<lparr>
      ni_waiting_arp_response := take (Suc i) (ni_waiting_arp_response ni') @
        map (\<lambda>(ip, t). (ip, waited ms t)) (drop (Suc i) (ni_waiting_arp_response ni')),
      ni_frames_out := ni_frames_out ni' @
        map (\<lambda>(ip, t). arp_frame (ni_ethernet_address ni') ETHERNET_BROADCAST (request_msg ni' ip))
          (filter (\<lambda>(ip, t). t + ms \<ge> ARP_CLEANUP_INTERVAL_MS) (drop (Suc i) (ni_waiting_arp_response ni')))\<rparr>))"
    using Suc(1) [of ni' "Suc i"] Suc(2,3,4) i ok by (simp add: f M')
  moreover have "take (Suc i) (ni_waiting_arp_response ni') = take i ?M @ [(ip, waited ms t)]"
      "drop (Suc i) (ni_waiting_arp_response ni') = drop (Suc i) ?M"
    using i by (simp_all add: M')
  ultimately show ?case
    unfolding st dr f by (simp add: ni'_def)
qed

lemma expire_arp_table_subset: "om_keys (expire_arp_table ms m) \<subseteq> om_keys m"
  by (force simp: expire_arp_table_def)

lemma expire_arp_table_wf: "om_wf m \<Longrightarrow> om_wf (expire_arp_table ms m)"
  unfolding om_wf_def expire_arp_table_def
  by (simp add: sorted_wrt_map sorted_wrt_filter split_beta)

lemma NetworkInterface_tick_spec:
  assumes inv: "ni_inv ni" and ms: "ms < ARP_CLEANUP_INTERVAL_MS"
  shows "\<exists>ni'. NetworkInterface_tick ni ms = Some (Inr ni') \<and> ni_inv ni' \<and>
    ni_arp_table ni' = expire_arp_table ms (ni_arp_table ni) \<and>
    ni_waiting_arp_response ni' = map (\<lambda>(ip, t). (ip, waited ms t)) (ni_waiting_arp_response ni) \<and>
    ni_waiting_ip_response ni' = ni_waiting_ip_response ni \<and>
    ni_frames_out ni' = ni_frames_out ni @
      map (\<lambda>(ip, t). arp_frame (ni_ethernet_address ni) ETHERNET_BROADCAST (request_msg ni ip))
        (filter (\<lambda>(ip, t). t + ms \<ge> ARP_CLEANUP_INTERVAL_MS) (ni_waiting_arp_response ni))"
proof -
  let ?M = "ni_waiting_arp_response ni"
  have i: "om_wf (ni_arp_table ni)" "om_wf ?M" "length (ni_ethernet_address ni) = 6" "hop_ok (ni_ip_address ni)"
    "\<forall>e \<in> set (ni_arp_table ni). length (ae_ethernet_address (snd e)) = 6 \<and> ae_last_seen (snd e) < ARP_TIMEOUT_MS"
    "\<forall>e \<in> set ?M. snd e < ARP_CLEANUP_INTERVAL_MS"
    "\<forall>w \<in> set (ni_waiting_ip_response ni). hop_ok (fst w) \<and> dgram_ok (snd w)"
    "om_keys ?M = hop_ip ` fst ` set (ni_waiting_ip_response ni)" "om_keys ?M \<inter> om_keys (ni_arp_table ni) = {}"
    by (insert inv [unfolded ni_inv_def], elim conjE, assumption)+
  define frames where "frames = ni_frames_out ni @
      map (\<lambda>(ip, t). arp_frame (ni_ethernet_address ni) ETHERNET_BROADCAST (request_msg ni ip))
        (filter (\<lambda>(ip, t). t + ms \<ge> ARP_CLEANUP_INTERVAL_MS) ?M)"
  define T where "T = expire_arp_table ms (ni_arp_table ni)"
  define M where "M = map (\<lambda>(ip, t). (ip, waited ms t)) ?M"
  define ni' where "ni' = ni\<lparr>ni_arp_table := T, ni_waiting_arp_response := M, ni_frames_out := frames\<rparr>"
  have rq: "request_msg (ni\<lparr>ni_arp_table := T\<rparr>) = request_msg ni" by (simp add: fun_eq_iff request_msg_def)
  have "NetworkInterface_tick ni ms = Some (Inr ni')"
    unfolding NetworkInterface_tick_def
    using resend_requests_spec [of "ni\<lparr>ni_arp_table := T\<rparr>" ms 0] i(4,6) ms
    by (simp add: ni'_def M_def frames_def rq T_def [symmetric])
  moreover have "ni_inv ni'"
  proof -
    have t: "\<forall>e \<in> set T. length (ae_ethernet_address (snd e)) = 6 \<and> ae_last_seen (snd e) < ARP_TIMEOUT_MS"
      using i(5) by (auto simp: T_def expire_arp_table_def)
    have k: "om_keys M = om_keys ?M" by (force simp: M_def)
    have w: "\<forall>e \<in> set M. snd e < ARP_CLEANUP_INTERVAL_MS" using ms by (auto simp: M_def waited_def)
    have wf: "om_wf M" using i(2) unfolding om_wf_def M_def by (simp add: sorted_wrt_map split_beta)
    have "om_keys M \<inter> om_keys T = {}" using i(9) expire_arp_table_subset [of ms "ni_arp_table ni"] unfolding k T_def by blast
    then show ?thesis
      unfolding ni_inv_def using i(3,4,7,8) t k w wf expire_arp_table_wf [OF i(1), of ms, folded T_def] by (simp add: ni'_def)
  qed
  ultimately show ?thesis by (simp add: ni'_def T_def M_def frames_def)
qed

text \<open>With five seconds or more at once the loop never leaves the first waiting request.\<close>

lemma resend_requests_diverges:
  assumes "resend_requests ms i ni = Some r" "hop_ok (ni_ip_address ni)" "i < length (ni_waiting_arp_response ni)"
    "ARP_CLEANUP_INTERVAL_MS \<le> ms" "ms < W64"
    "ARP_CLEANUP_INTERVAL_MS \<le> u64_add (snd (ni_waiting_arp_response ni ! i)) ms"
  shows False
  using assms
proof (induction arbitrary: rule: resend_requests.raw_induct [rotated 1, consumes 1])
  case (1 f ms i ni r)
  obtain ip t where w: "ni_waiting_arp_response ni ! i = (ip, t)" by (cases "ni_waiting_arp_response ni ! i")
  let ?n = "ni\<lparr>ni_frames_out := ni_frames_out ni @ [arp_frame (ni_ethernet_address ni) ETHERNET_BROADCAST (request_msg ni ip)],
      ni_waiting_arp_response := (ni_waiting_arp_response ni)[i := (ip, 0)]\<rparr>"
  have "f ms i ?n = Some r"
    using 1(2-) w arp_request_frame_eq [OF 1(3), of ip] by simp
  then show False using 1(1) [of ms i ?n r] 1(3-6) by (simp add: u64_simps)
qed

lemma NetworkInterface_tick_ends_iff:
  assumes inv: "ni_inv ni" and ms: "ms + ARP_CLEANUP_INTERVAL_MS \<le> W64"
  shows "NetworkInterface_tick ni ms = None \<longleftrightarrow> ARP_CLEANUP_INTERVAL_MS \<le> ms \<and> ni_waiting_arp_response ni \<noteq> []"
proof (cases "ARP_CLEANUP_INTERVAL_MS \<le> ms \<and> ni_waiting_arp_response ni \<noteq> []")
  case True
  have own: "hop_ok (ni_ip_address ni)" and t: "\<forall>e \<in> set (ni_waiting_arp_response ni). snd e < ARP_CLEANUP_INTERVAL_MS"
    using inv by (simp_all add: ni_inv_def)
  have w: "0 < length (ni_waiting_arp_response ni)" using True by simp
  have "snd (ni_waiting_arp_response ni ! 0) + ms < W64" using t nth_mem [OF w] ms by fastforce
  then have ge: "ARP_CLEANUP_INTERVAL_MS \<le> u64_add (snd (ni_waiting_arp_response ni ! 0)) ms" using True by (simp add: u64_simps)
  have "ms < W64" using ms by (simp add: ARP_CLEANUP_INTERVAL_MS_def)
  then have "NetworkInterface_tick ni ms \<noteq> Some r" for r
    using resend_requests_diverges [of ms 0 "ni\<lparr>ni_arp_table := expire_arp_table ms (ni_arp_table ni)\<rparr>" r] own w ge True
    by (auto simp: NetworkInterface_tick_def)
  then show ?thesis using True by blast
next
  case False
  show ?thesis
  proof (cases "ms < ARP_CLEANUP_INTERVAL_MS")
    case True
    then show ?thesis using NetworkInterface_tick_spec [OF inv True] by auto
  next
    case ms: False
    then have "ni_waiting_arp_response ni = []" using False by simp
    then show ?thesis unfolding NetworkInterface_tick_def by (subst resend_requests.simps) simp
  qed
qed

section \<open>Frames on the wire\<close>

text \<open>A frame is serialized, and the bytes are parsed at the other end, as \<open>EthernetFrame::parse\<close> is used by
  the readers of frames.\<close>

definition on_wire :: "EthernetFrame \<Rightarrow> EthernetFrame result" where
  "on_wire fr = bind_result (EthernetFrame_parse EthernetFrame_default (Buffer_new (BufferList_concatenate (EthernetFrame_serialize fr))))
     (\<lambda>(res, fr'). if res = NoError then Inr fr' else Inl Runtime_Error)"

lemma on_wire_eq:
  assumes "EthernetHeader_wf (fr_header fr)"
  obtains pb where "on_wire fr = Inr \<lparr>fr_header = fr_header fr, fr_payload = [pb]\<rparr>" "Buffer_wf pb"
    "Buffer_str pb = BufferList_concatenate (fr_payload fr)"
proof -
  have "EthernetHeader_wf (fr_header EthernetFrame_default)"
    by (simp add: EthernetHeader_wf_def EthernetHeader_default_def EthernetFrame_default_def)
  from EthernetFrame_parse_serialized [OF assms this Buffer_wf_new(1) Buffer_str_new] that
  show ?thesis by (auto simp: on_wire_def)
qed

lemma arp_frame_payload:
  assumes "ARPMessage_supported msg"
  obtains bs where "ARPMessage_serialize msg = Inr bs" "BufferList_concatenate (fr_payload (arp_frame src dst msg)) = bs"
proof -
  obtain bs where "ARPMessage_serialize msg = Inr bs" using ARPMessage_serialize_eq [OF assms] by blast
  then show ?thesis
    using that by (simp add: arp_frame_def BufferList_new_def BufferList_append_def BufferList_of_Buffer_def)
qed

lemma recv_arp_payload:
  assumes dst: "dst = ni_ethernet_address ni \<or> dst = ETHERNET_BROADCAST"
    and msg: "ARPMessage_wf msg" "ARPMessage_supported msg"
    and pb: "Buffer_wf pb" "Buffer_str pb = BufferList_concatenate (fr_payload (arp_frame src dst msg))"
  shows "recv_frame ni \<lparr>fr_header = fr_header (arp_frame src dst msg), fr_payload = [pb]\<rparr> =
    map_option (\<lambda>r. bind_result r (\<lambda>ni1. Inr (None, ni1))) (arp_received ni msg)"
proof -
  obtain bs where bs: "ARPMessage_serialize msg = Inr bs" "BufferList_concatenate (fr_payload (arp_frame src dst msg)) = bs"
    by (rule arp_frame_payload [OF msg(2)])
  have "ARPMessage_parse ARPMessage_default pb = Inr (NoError, msg)"
    using ARPMessage_parse_serialized [OF msg _ bs(1) pb(1), of ARPMessage_default "[]"] pb(2) bs(2)
    by (simp add: ARPMessage_wf_def ARPMessage_default_def)
  then show ?thesis using dst by (auto simp: recv_frame_def arp_frame_def BufferList_to_Buffer_def)
qed

lemma recv_arp_frame:
  assumes six: "length src = 6" "length dst = 6" and dst: "dst = ni_ethernet_address ni \<or> dst = ETHERNET_BROADCAST"
    and msg: "ARPMessage_wf msg" "ARPMessage_supported msg"
  shows "\<exists>fr. on_wire (arp_frame src dst msg) = Inr fr \<and>
    recv_frame ni fr = map_option (\<lambda>r. bind_result r (\<lambda>ni1. Inr (None, ni1))) (arp_received ni msg)"
proof -
  have "EthernetHeader_wf (fr_header (arp_frame src dst msg))" using six by (simp add: arp_frame_def EthernetHeader_wf_def)
  then obtain pb where "on_wire (arp_frame src dst msg) = Inr \<lparr>fr_header = fr_header (arp_frame src dst msg), fr_payload = [pb]\<rparr>"
    "Buffer_wf pb" "Buffer_str pb = BufferList_concatenate (fr_payload (arp_frame src dst msg))" by (rule on_wire_eq)
  then show ?thesis using recv_arp_payload [OF dst msg] by blast
qed

lemma recv_ip_payload:
  assumes dg: "IPv4Datagram_wf dg" and dst: "dst = ni_ethernet_address ni \<or> dst = ETHERNET_BROADCAST"
    and pb: "Buffer_wf pb" "Buffer_str pb = BufferList_concatenate (fr_payload (ip_frame src dst dg))"
  shows "\<exists>dg'. recv_frame ni \<lparr>fr_header = fr_header (ip_frame src dst dg), fr_payload = [pb]\<rparr> = Some (Inr (Some dg', ni)) \<and>
    dg_header dg' = (dg_header dg)\<lparr>ip_cksum := IPv4Datagram_cksum dg\<rparr> \<and>
    BufferList_concatenate (dg_payload dg') = BufferList_concatenate (dg_payload dg)"
proof -
  let ?f = "ip_frame src dst dg"
  let ?h = "(dg_header dg)\<lparr>ip_cksum := IPv4Datagram_cksum dg\<rparr>" and ?pay = "BufferList_concatenate (dg_payload dg)"
  have h: "IPv4Header_wf ?h" "unat (ip_len ?h) = 4 * unat (ip_hlen ?h) + length ?pay"
    using dg by (simp_all add: IPv4Datagram_wf_def IPv4Header_wf_def)
  have "Buffer_str pb = ip_pre ?h @ u16_bytes (ip_cksum ?h) @ ip_post ?h @ ?pay"
    unfolding pb(2) by (simp add: ip_frame_def IPv4Datagram_serialize_eq [OF dg])
  note parse = IPv4Datagram_parse_any_cksum [OF h pb(1) this]
  obtain pb1 where p1: "IPv4Datagram_parse IPv4Datagram_default pb = Inr (NoError, \<lparr>dg_header = ?h, dg_payload = [pb1]\<rparr>)"
    using parse by blast
  obtain pb2 where p2: "IPv4Datagram_parse \<lparr>dg_header = ?h, dg_payload = [pb1]\<rparr> pb =
      Inr (NoError, \<lparr>dg_header = ?h, dg_payload = [pb2]\<rparr>)" "Buffer_str pb2 = ?pay"
    using parse by blast
  have ty: "TYPE_IPv4 \<noteq> TYPE_ARP" by (simp add: TYPE_IPv4_def TYPE_ARP_def)
  have "recv_frame ni \<lparr>fr_header = fr_header ?f, fr_payload = [pb]\<rparr> = Some (Inr (Some \<lparr>dg_header = ?h, dg_payload = [pb2]\<rparr>, ni))"
    using ty p1 p2(1) dst by (auto simp: recv_frame_def ip_frame_def BufferList_to_Buffer_def)
  then show ?thesis using p2(2) by (auto intro!: exI)
qed

lemma recv_ip_frame:
  assumes six: "length src = 6" "length (ni_ethernet_address ni) = 6" and dg: "IPv4Datagram_wf dg"
  shows "\<exists>fr dg'. on_wire (ip_frame src (ni_ethernet_address ni) dg) = Inr fr \<and> recv_frame ni fr = Some (Inr (Some dg', ni)) \<and>
    dg_header dg' = (dg_header dg)\<lparr>ip_cksum := IPv4Datagram_cksum dg\<rparr> \<and>
    BufferList_concatenate (dg_payload dg') = BufferList_concatenate (dg_payload dg)"
proof -
  let ?f = "ip_frame src (ni_ethernet_address ni) dg"
  have "EthernetHeader_wf (fr_header ?f)" using six by (simp add: ip_frame_def EthernetHeader_wf_def)
  then obtain pb where "on_wire ?f = Inr \<lparr>fr_header = fr_header ?f, fr_payload = [pb]\<rparr>"
    "Buffer_wf pb" "Buffer_str pb = BufferList_concatenate (fr_payload ?f)" by (rule on_wire_eq)
  then show ?thesis using recv_ip_payload [OF dg disjI1 [OF refl]] by blast
qed

lemma IPv4Datagram_wf_ok: "IPv4Datagram_wf dg \<Longrightarrow> dgram_ok dg"
  by (simp add: dgram_ok_def IPv4Datagram_serialize_eq)

text \<open>One side of an address resolution: the sender broadcasts its request, the owner of the address answers.\<close>

lemma resolution_request:
  assumes a: "ni_inv a" "om_find (ni_arp_table a) ip = None" "om_find (ni_waiting_arp_response a) ip = None"
    and hop: "hop_ok hop" "hop_ip hop = ip" and b: "ni_inv b" "hop_ip (ni_ip_address b) = ip" "ni_waiting_ip_response b = []"
    and clean: "ni_frames_out a = []" "ni_frames_out b = []"
  obtains a1 w1 b1 where "send_datagram a dg hop = Inr a1"
    "ni_frames_out a1 = [arp_frame (ni_ethernet_address a) ETHERNET_BROADCAST (request_msg a ip)]"
    "ni_ethernet_address a1 = ni_ethernet_address a" "ni_ip_address a1 = ni_ip_address a"
    "ni_waiting_ip_response a1 = ni_waiting_ip_response a @ [(hop, dg)]"
    "on_wire (arp_frame (ni_ethernet_address a) ETHERNET_BROADCAST (request_msg a ip)) = Inr w1"
    "recv_frame b w1 = Some (Inr (None, b1))" "ni_inv b1" "ni_ethernet_address b1 = ni_ethernet_address b"
    "ni_frames_out b1 = [arp_frame (ni_ethernet_address b) (ni_ethernet_address a)
       (reply_msg b (ni_ethernet_address a) (hop_ip (ni_ip_address a)))]"
proof -
  have own: "hop_ok (ni_ip_address a)" and six: "length (ni_ethernet_address a) = 6" using a(1) by (simp_all add: ni_inv_def)
  let ?m = "request_msg a ip"
  have m: "arp_sender_ethernet_address ?m = ni_ethernet_address a" "arp_sender_ip_address ?m = hop_ip (ni_ip_address a)"
    "arp_target_ip_address ?m = ip" "arp_opcode ?m = OPCODE_REQUEST" by (simp_all add: request_msg_def)
  have us: "arp_for_us b ?m" by (simp add: arp_for_us_def m b(2))
  obtain b1 where b1: "arp_received b ?m = Some (Inr b1)" "ni_inv b1" "ni_ethernet_address b1 = ni_ethernet_address b"
    "ni_frames_out b1 = arp_replies b ?m"
    using arp_received_spec [OF b(1), of ?m] six us b(3) clean by (auto simp: m)
  have "length ETHERNET_BROADCAST = 6" by (simp add: ETHERNET_BROADCAST_def)
  from recv_arp_frame [OF six this _ msg_ok(1) [OF six] msg_ok(2), of b ip]
  obtain w1 where w1: "on_wire (arp_frame (ni_ethernet_address a) ETHERNET_BROADCAST ?m) = Inr w1" "recv_frame b w1 = Some (Inr (None, b1))"
    using b1(1) by auto
  show ?thesis
    by (rule that [OF send_datagram_new [OF hop(1) _ _ own] _ _ _ _ w1 b1(2,3)])
      (use hop(2) a(2,3) clean b1(4) b(2) in \<open>simp_all add: arp_replies_def m\<close>)
qed

lemma resolution_reply:
  assumes a: "ni_inv a1" "ni_waiting_ip_response a1 = ws @ [(hop, dg)]" "hop_ip hop = hop_ip (ni_ip_address b)"
    "\<forall>w \<in> set ws. hop_ip (fst w) \<noteq> hop_ip hop" and six: "length (ni_ethernet_address b) = 6" and eth: "eth = ni_ethernet_address a1"
  obtains w2 a2 where "on_wire (arp_frame (ni_ethernet_address b) eth (reply_msg b eth ip)) = Inr w2"
    "recv_frame (a1\<lparr>ni_frames_out := []\<rparr>) w2 = Some (Inr (None, a2))" "ni_inv a2" "ni_waiting_ip_response a2 = ws"
    "ni_frames_out a2 = [ip_frame (ni_ethernet_address a1) (ni_ethernet_address b) dg]"
    "om_find (ni_arp_table a2) (hop_ip hop) = Some \<lparr>ae_ethernet_address = ni_ethernet_address b, ae_last_seen = 0\<rparr>"
proof -
  let ?m = "reply_msg b eth ip" and ?a = "a1\<lparr>ni_frames_out := []\<rparr>"
  have six1: "length eth = 6" using a(1) by (simp add: ni_inv_def eth)
  have m: "arp_sender_ethernet_address ?m = ni_ethernet_address b" "arp_sender_ip_address ?m = hop_ip (ni_ip_address b)"
    "arp_target_ethernet_address ?m = eth" "arp_opcode ?m = OPCODE_REPLY" by (simp_all add: reply_msg_def)
  have us: "arp_for_us ?a ?m" and nr: "arp_replies ?a ?m = []"
    unfolding arp_for_us_def arp_replies_def m by (simp_all add: eth OPCODE_REPLY_def OPCODE_REQUEST_def)
  have inv: "ni_inv ?a" using a(1) by simp
  have f: "filter (\<lambda>w. hop_ip (fst w) \<noteq> hop_ip (ni_ip_address b)) (ni_waiting_ip_response ?a) = ws"
    "filter (\<lambda>w. hop_ip (fst w) = hop_ip (ni_ip_address b)) (ni_waiting_ip_response ?a) = [(hop, dg)]"
    using a(2-4) by (simp_all add: filter_id_conv filter_empty_conv)
  have "length (arp_sender_ethernet_address ?m) = 6" using six m by simp
  from arp_received_spec [OF inv this, unfolded if_P [OF us] nr m(1,2) f]
  obtain a2 where a2: "arp_received ?a ?m = Some (Inr a2)" "ni_inv a2" "ni_waiting_ip_response a2 = ws"
    "ni_frames_out a2 = [ip_frame (ni_ethernet_address a1) (ni_ethernet_address b) dg]"
    "om_find (ni_arp_table a2) (hop_ip hop) = Some \<lparr>ae_ethernet_address = ni_ethernet_address b, ae_last_seen = 0\<rparr>"
    unfolding a(3) by auto
  from recv_arp_frame [OF six six1 _ msg_ok(3) [OF six six1] msg_ok(4), of ?a ip]
  obtain w2 where "on_wire (arp_frame (ni_ethernet_address b) eth ?m) = Inr w2" "recv_frame ?a w2 = Some (Inr (None, a2))"
    using a2(1) eth by auto
  then show ?thesis using that a2 by blast
qed

section \<open>Properties\<close>

text \<open>C6: two interfaces that know nothing of each other deliver a datagram.  The sender broadcasts an ARP
  request and keeps the datagram, the owner of the address replies, the reply releases the datagram, and the
  receiver hands it up with its header and payload.  Each frame crosses the wire as bytes.\<close>

theorem arp_resolution_delivers:
  assumes a: "ni_inv a" "om_find (ni_arp_table a) (hop_ip hop) = None" "om_find (ni_waiting_arp_response a) (hop_ip hop) = None"
    and b: "ni_inv b" "hop_ip (ni_ip_address b) = hop_ip hop" "ni_waiting_ip_response b = []"
    and clean: "ni_frames_out a = []" "ni_frames_out b = []" and dg: "hop_ok hop" "IPv4Datagram_wf dg"
  shows "\<exists>a1 b1 a2 f1 f2 f3 w1 w2 w3 dg'.
    send_datagram a dg hop = Inr a1 \<and> ni_frames_out a1 = [f1] \<and> on_wire f1 = Inr w1 \<and>
    recv_frame b w1 = Some (Inr (None, b1)) \<and> ni_frames_out b1 = [f2] \<and> on_wire f2 = Inr w2 \<and>
    recv_frame (a1\<lparr>ni_frames_out := []\<rparr>) w2 = Some (Inr (None, a2)) \<and> ni_frames_out a2 = [f3] \<and> on_wire f3 = Inr w3 \<and>
    recv_frame (b1\<lparr>ni_frames_out := []\<rparr>) w3 = Some (Inr (Some dg', b1\<lparr>ni_frames_out := []\<rparr>)) \<and>
    dg_header dg' = (dg_header dg)\<lparr>ip_cksum := IPv4Datagram_cksum dg\<rparr> \<and>
    BufferList_concatenate (dg_payload dg') = BufferList_concatenate (dg_payload dg) \<and>
    ni_waiting_ip_response a2 = ni_waiting_ip_response a"
proof -
  obtain a1 w1 b1 where s1: "send_datagram a dg hop = Inr a1"
    "ni_frames_out a1 = [arp_frame (ni_ethernet_address a) ETHERNET_BROADCAST (request_msg a (hop_ip hop))]"
    "ni_ethernet_address a1 = ni_ethernet_address a" "ni_ip_address a1 = ni_ip_address a"
    "ni_waiting_ip_response a1 = ni_waiting_ip_response a @ [(hop, dg)]"
    "on_wire (arp_frame (ni_ethernet_address a) ETHERNET_BROADCAST (request_msg a (hop_ip hop))) = Inr w1"
    "recv_frame b w1 = Some (Inr (None, b1))" "ni_inv b1" "ni_ethernet_address b1 = ni_ethernet_address b"
    "ni_frames_out b1 = [arp_frame (ni_ethernet_address b) (ni_ethernet_address a)
       (reply_msg b (ni_ethernet_address a) (hop_ip (ni_ip_address a)))]"
    by (rule resolution_request [OF a dg(1) refl b clean])
  have inv1: "ni_inv a1" using send_datagram_inv [OF a(1) dg(1) IPv4Datagram_wf_ok [OF dg(2)]] s1(1) by simp
  have "hop_ip hop \<notin> hop_ip ` fst ` set (ni_waiting_ip_response a)"
    using a om_find_None_iff [of "ni_waiting_arp_response a" "hop_ip hop"] by (simp add: ni_inv_def)
  then have other: "\<forall>w \<in> set (ni_waiting_ip_response a). hop_ip (fst w) \<noteq> hop_ip hop" by (metis imageI)
  have six: "length (ni_ethernet_address a) = 6" "length (ni_ethernet_address b) = 6" using a(1) b(1) by (simp_all add: ni_inv_def)
  obtain w2 a2 where s2: "on_wire (arp_frame (ni_ethernet_address b) (ni_ethernet_address a)
      (reply_msg b (ni_ethernet_address a) (hop_ip (ni_ip_address a)))) = Inr w2"
    "recv_frame (a1\<lparr>ni_frames_out := []\<rparr>) w2 = Some (Inr (None, a2))" "ni_waiting_ip_response a2 = ni_waiting_ip_response a"
    "ni_frames_out a2 = [ip_frame (ni_ethernet_address a) (ni_ethernet_address b) dg]"
    by (rule resolution_reply [OF inv1 s1(5) b(2) [symmetric] other six(2) s1(3) [symmetric],
          where ip = "hop_ip (ni_ip_address a)"]) (simp add: s1(3))
  obtain w3 dg' where s3: "on_wire (ip_frame (ni_ethernet_address a) (ni_ethernet_address b) dg) = Inr w3"
    "recv_frame (b1\<lparr>ni_frames_out := []\<rparr>) w3 = Some (Inr (Some dg', b1\<lparr>ni_frames_out := []\<rparr>))"
    "dg_header dg' = (dg_header dg)\<lparr>ip_cksum := IPv4Datagram_cksum dg\<rparr>"
    "BufferList_concatenate (dg_payload dg') = BufferList_concatenate (dg_payload dg)"
    using recv_ip_frame [OF six(1) _ dg(2), of "b1\<lparr>ni_frames_out := []\<rparr>"] six(2) s1(9) by auto
  show ?thesis using s1(1,2,6,7,10) s2 s3 by blast
qed

definition ex_ni :: "byte \<Rightarrow> NetworkInterface" where
  "ex_ni n = NetworkInterface_new [2, 0, 0, 0, 0, n] (ipv4_address 0 (0x0a000000 + ucast n))"

definition ex_dgram :: InternetDatagram where
  "ex_dgram = \<lparr>dg_header = IPv4Header_default\<lparr>ip_len := 23\<rparr>, dg_payload = [Buffer_new [1, 2, 3]]\<rparr>"

lemma ex_ni_ok:
  "ni_inv (ex_ni n)" "ni_arp_table (ex_ni n) = []" "ni_waiting_arp_response (ex_ni n) = []" "ni_waiting_ip_response (ex_ni n) = []"
  "ni_frames_out (ex_ni n) = []" "hop_ip (ni_ip_address (ex_ni n)) = 0x0a000000 + ucast n"
  "ni_ip_address (ex_ni n) = ipv4_address 0 (0x0a000000 + ucast n)" "ni_ethernet_address (ex_ni n) = [2, 0, 0, 0, 0, n]"
  by (simp_all add: ex_ni_def NetworkInterface_new_inv) (simp_all add: NetworkInterface_new_def)

lemma ex_ni_unknown: "om_find (ni_arp_table (ex_ni n)) ip = None" "om_find (ni_waiting_arp_response (ex_ni n)) ip = None"
  by (simp_all add: om_find_None_iff ex_ni_ok)

lemma ex_dgram_ok: "IPv4Datagram_wf ex_dgram" "dgram_ok ex_dgram" "BufferList_concatenate (dg_payload ex_dgram) = [1, 2, 3]"
proof -
  show wf: "IPv4Datagram_wf ex_dgram" by (simp add: ex_dgram_def IPv4Datagram_wf_def IPv4Header_wf_def IPv4Header_default_def)
  show "dgram_ok ex_dgram" by (rule IPv4Datagram_wf_ok [OF wf])
  show "BufferList_concatenate (dg_payload ex_dgram) = [1, 2, 3]" by (simp add: ex_dgram_def)
qed

theorem arp_resolution_delivers_witness:
  "\<exists>a1 b1 a2 f1 f2 f3 w1 w2 w3 dg'.
    send_datagram (ex_ni 1) ex_dgram (ipv4_address 0 0x0a000002) = Inr a1 \<and> ni_frames_out a1 = [f1] \<and> on_wire f1 = Inr w1 \<and>
    recv_frame (ex_ni 2) w1 = Some (Inr (None, b1)) \<and> ni_frames_out b1 = [f2] \<and> on_wire f2 = Inr w2 \<and>
    recv_frame (a1\<lparr>ni_frames_out := []\<rparr>) w2 = Some (Inr (None, a2)) \<and> ni_frames_out a2 = [f3] \<and> on_wire f3 = Inr w3 \<and>
    recv_frame (b1\<lparr>ni_frames_out := []\<rparr>) w3 = Some (Inr (Some dg', b1\<lparr>ni_frames_out := []\<rparr>)) \<and>
    BufferList_concatenate (dg_payload dg') = [1, 2, 3]"
proof -
  have "hop_ip (ni_ip_address (ex_ni 2)) = hop_ip (ipv4_address 0 0x0a000002)" by (simp add: ex_ni_ok)
  from arp_resolution_delivers [OF ex_ni_ok(1) ex_ni_unknown ex_ni_ok(1) this ex_ni_ok(4) ex_ni_ok(5) ex_ni_ok(5) hop_ok_ipv4(1) ex_dgram_ok(1), of 1]
  show ?thesis unfolding ex_dgram_ok(3) by blast
qed

text \<open>C19: \<open>send_datagram\<close> keeps the invariant.  A datagram for a known address leaves at once in one frame to
  the learned Ethernet address; any other waits at the end of the queue, and a request is broadcast only if
  none is outstanding for that address.\<close>

theorem send_datagram_correct:
  assumes "ni_inv ni" "hop_ok hop" "dgram_ok dg"
  shows "\<exists>ni'. send_datagram ni dg hop = Inr ni' \<and> ni_inv ni' \<and> ni_arp_table ni' = ni_arp_table ni \<and>
    (case om_find (ni_arp_table ni) (hop_ip hop) of
       Some e \<Rightarrow> ni_waiting_ip_response ni' = ni_waiting_ip_response ni \<and>
         ni_frames_out ni' = ni_frames_out ni @ [ip_frame (ni_ethernet_address ni) (ae_ethernet_address e) dg]
     | None \<Rightarrow> ni_waiting_ip_response ni' = ni_waiting_ip_response ni @ [(hop, dg)] \<and>
         ni_frames_out ni' = ni_frames_out ni @
           (if hop_ip hop \<in> om_keys (ni_waiting_arp_response ni) then []
            else [arp_frame (ni_ethernet_address ni) ETHERNET_BROADCAST (request_msg ni (hop_ip hop))]))"
proof -
  obtain ni' where ni': "send_datagram ni dg hop = Inr ni'" "ni_inv ni'" using send_datagram_inv [OF assms] by blast
  have own: "hop_ok (ni_ip_address ni)" using assms(1) by (simp add: ni_inv_def)
  show ?thesis
    using ni' send_datagram_known [OF assms(2,3)] send_datagram_waiting [OF assms(2)] send_datagram_new [OF assms(2) _ _ own]
      om_find_None_iff [of "ni_waiting_arp_response ni" "hop_ip hop"]
    by (cases "om_find (ni_arp_table ni) (hop_ip hop)"; cases "om_find (ni_waiting_arp_response ni) (hop_ip hop) = None")
      (force split: option.splits)+
qed

theorem send_datagram_correct_witness:
  "\<exists>ni'. send_datagram (ex_ni 1) ex_dgram (ipv4_address 0 0x0a000002) = Inr ni' \<and> ni_inv ni' \<and>
     ni_frames_out ni' = [arp_frame (ni_ethernet_address (ex_ni 1)) ETHERNET_BROADCAST (request_msg (ex_ni 1) 0x0a000002)]"
  using send_datagram_correct [OF ex_ni_ok(1) hop_ok_ipv4(1) ex_dgram_ok(2), of 1 0 "0x0a000002"] by (auto simp: ex_ni_unknown ex_ni_ok(3,5))

lemma expire_arp_table_find:
  assumes "om_wf m" "\<forall>e \<in> set m. ae_last_seen (snd e) + ms < W64"
  shows "om_find (expire_arp_table ms m) ip =
    (case om_find m ip of
       None \<Rightarrow> None
     | Some e \<Rightarrow> if ae_last_seen e + ms < ARP_TIMEOUT_MS then Some (e\<lparr>ae_last_seen := ae_last_seen e + ms\<rparr>) else None)"
  using assms
proof (induction m)
  case (Cons e m)
  obtain k v where e: "e = (k, v)" by (cases e)
  have "om_wf m" "k \<notin> om_keys m" using Cons(2) by (auto simp: om_wf_def e)
  then show ?case
    using Cons(1,3) om_find_None_iff [of m k] by (auto simp: om_find_def expire_arp_table_def e u64_simps split: option.splits)
qed (simp add: om_find_def expire_arp_table_def)

text \<open>C18: a well-formed ARP message of the supported kind that arrives in a frame for the interface or for everybody
  never makes \<open>recv_frame\<close> throw or loop.  A request for our address or a reply to our Ethernet address teaches the
  sender's address, with its age reset, answers a request, and releases exactly the datagrams that waited for that
  address, in their order; any other such message changes nothing, so a request for another host teaches nothing.\<close>

theorem recv_frame_arp_correct:
  assumes "ni_inv ni" "length src = 6" "length dst = 6" "dst = ni_ethernet_address ni \<or> dst = ETHERNET_BROADCAST"
    "ARPMessage_wf msg" "ARPMessage_supported msg"
  shows "\<exists>fr ni'. on_wire (arp_frame src dst msg) = Inr fr \<and> recv_frame ni fr = Some (Inr (None, ni')) \<and> ni_inv ni' \<and>
    (if arp_for_us ni msg
     then om_find (ni_arp_table ni') (arp_sender_ip_address msg) =
            Some \<lparr>ae_ethernet_address = arp_sender_ethernet_address msg, ae_last_seen = 0\<rparr> \<and>
          ni_waiting_ip_response ni' = filter (\<lambda>w. hop_ip (fst w) \<noteq> arp_sender_ip_address msg) (ni_waiting_ip_response ni) \<and>
          ni_frames_out ni' = ni_frames_out ni @ arp_replies ni msg @
            map (\<lambda>w. ip_frame (ni_ethernet_address ni) (arp_sender_ethernet_address msg) (snd w))
              (filter (\<lambda>w. hop_ip (fst w) = arp_sender_ip_address msg) (ni_waiting_ip_response ni))
     else ni' = ni)"
proof -
  obtain fr where fr: "on_wire (arp_frame src dst msg) = Inr fr"
    "recv_frame ni fr = map_option (\<lambda>r. bind_result r (\<lambda>ni1. Inr (None, ni1))) (arp_received ni msg)"
    using recv_arp_frame [OF assms(2-6)] by blast
  have six: "length (arp_sender_ethernet_address msg) = 6" using assms(5) by (simp add: ARPMessage_wf_def)
  show ?thesis
  proof (cases "arp_for_us ni msg")
    case True
    from arp_received_spec [OF assms(1) six, unfolded if_P [OF True]] fr show ?thesis unfolding if_P [OF True] by fastforce
  next
    case False
    from arp_received_spec [OF assms(1) six, unfolded if_not_P [OF False]] fr assms(1) show ?thesis
      unfolding if_not_P [OF False] by simp
  qed
qed

theorem recv_frame_arp_correct_witness:
  "\<exists>fr ni'. on_wire (arp_frame [2, 0, 0, 0, 0, 2] ETHERNET_BROADCAST (request_msg (ex_ni 2) 0x0a000001)) = Inr fr \<and>
     recv_frame (ex_ni 1) fr = Some (Inr (None, ni')) \<and> length (ni_frames_out ni') = 1 \<and>
     om_find (ni_arp_table ni') 0x0a000002 = Some \<lparr>ae_ethernet_address = [2, 0, 0, 0, 0, 2], ae_last_seen = 0\<rparr>"
proof -
  let ?m = "request_msg (ex_ni 2) 0x0a000001"
  have us: "arp_for_us (ex_ni 1) ?m" "length (arp_replies (ex_ni 1) ?m) = 1" and six: "length ETHERNET_BROADCAST = 6"
    and m: "arp_sender_ip_address ?m = 0x0a000002" "arp_sender_ethernet_address ?m = [2, 0, 0, 0, 0, 2]"
    by (simp_all add: arp_for_us_def arp_replies_def request_msg_def ex_ni_ok ETHERNET_BROADCAST_def)
  from recv_frame_arp_correct [OF ex_ni_ok(1) [of 1] _ six _ msg_ok(1) msg_ok(2), of "[2, 0, 0, 0, 0, 2]" "ex_ni 2" "0x0a000001"]
  show ?thesis unfolding if_P [OF us(1)] using us(2) m by (auto simp: ex_ni_ok)
qed

text \<open>C9: \<open>tick\<close> does not return exactly when five seconds or more pass at once while an ARP request is
  outstanding: the loop resets the timer of the request it has resent without advancing, adds the same time
  again, and resends for ever.\<close>

theorem NetworkInterface_tick_terminates_iff:
  assumes "ni_inv ni" "ms + ARP_CLEANUP_INTERVAL_MS \<le> W64"
  shows "NetworkInterface_tick ni ms = None \<longleftrightarrow> ARP_CLEANUP_INTERVAL_MS \<le> ms \<and> ni_waiting_arp_response ni \<noteq> []"
  using assms by (rule NetworkInterface_tick_ends_iff)

definition ex_waiting :: NetworkInterface where
  "ex_waiting = (ex_ni 1)\<lparr>ni_waiting_arp_response := [(0x0a000002, 4000)],
     ni_waiting_ip_response := [(ipv4_address 0 0x0a000002, ex_dgram)],
     ni_arp_table := [(0x0a000003, \<lparr>ae_ethernet_address = [2, 0, 0, 0, 0, 3], ae_last_seen = 29000\<rparr>)]\<rparr>"

lemma ex_waiting_inv: "ni_inv ex_waiting"
  using ex_ni_ok(1) [of 1] ex_dgram_ok(2)
  by (simp add: ex_waiting_def ni_inv_def om_wf_def ARP_TIMEOUT_MS_def ARP_CLEANUP_INTERVAL_MS_def)

theorem NetworkInterface_tick_terminates_iff_witness:
  "NetworkInterface_tick ex_waiting 5000 = None \<and> NetworkInterface_tick ex_waiting 4999 \<noteq> None"
  using NetworkInterface_tick_terminates_iff [OF ex_waiting_inv, of 5000] NetworkInterface_tick_terminates_iff [OF ex_waiting_inv, of 4999]
  by (simp add: ARP_CLEANUP_INTERVAL_MS_def W64_def ex_waiting_def)

text \<open>C20: when less than five seconds pass, \<open>tick\<close> keeps the invariant, forgets exactly the addresses learned
  thirty seconds ago or earlier, and broadcasts again the requests that have waited five seconds.  No request and no
  waiting datagram is given up; the timer of a request sent again restarts at the time that has passed.\<close>

theorem NetworkInterface_tick_correct:
  assumes "ni_inv ni" "ms < ARP_CLEANUP_INTERVAL_MS"
  shows "\<exists>ni'. NetworkInterface_tick ni ms = Some (Inr ni') \<and> ni_inv ni' \<and>
    (\<forall>ip. om_find (ni_arp_table ni') ip =
       (case om_find (ni_arp_table ni) ip of
          None \<Rightarrow> None
        | Some e \<Rightarrow> if ae_last_seen e + ms < ARP_TIMEOUT_MS then Some (e\<lparr>ae_last_seen := ae_last_seen e + ms\<rparr>) else None)) \<and>
    ni_waiting_arp_response ni' =
      map (\<lambda>(ip, t). (ip, if t + ms \<ge> ARP_CLEANUP_INTERVAL_MS then ms else t + ms)) (ni_waiting_arp_response ni) \<and>
    ni_waiting_ip_response ni' = ni_waiting_ip_response ni \<and>
    ni_frames_out ni' = ni_frames_out ni @
      map (\<lambda>(ip, t). arp_frame (ni_ethernet_address ni) ETHERNET_BROADCAST (request_msg ni ip))
        (filter (\<lambda>(ip, t). t + ms \<ge> ARP_CLEANUP_INTERVAL_MS) (ni_waiting_arp_response ni))"
proof -
  have small: "\<forall>e \<in> set (ni_arp_table ni). ae_last_seen (snd e) + ms < W64"
  proof
    fix e assume "e \<in> set (ni_arp_table ni)"
    then have "ae_last_seen (snd e) < ARP_TIMEOUT_MS" using assms(1) by (simp add: ni_inv_def)
    then show "ae_last_seen (snd e) + ms < W64"
      using assms(2) by (simp add: ARP_TIMEOUT_MS_def ARP_CLEANUP_INTERVAL_MS_def W64_def)
  qed
  have wf: "om_wf (ni_arp_table ni)" using assms(1) by (simp add: ni_inv_def)
  show ?thesis using NetworkInterface_tick_spec [OF assms, unfolded waited_def] expire_arp_table_find [OF wf small] by auto
qed

theorem NetworkInterface_tick_correct_witness:
  "\<exists>ni'. NetworkInterface_tick ex_waiting 1000 = Some (Inr ni') \<and> om_find (ni_arp_table ni') 0x0a000003 = None \<and>
     ni_frames_out ni' = [arp_frame [2, 0, 0, 0, 0, 1] ETHERNET_BROADCAST (request_msg ex_waiting 0x0a000002)]"
  using NetworkInterface_tick_correct [OF ex_waiting_inv, of 1000]
  by (auto simp: ex_waiting_def ex_ni_ok om_find_def ARP_CLEANUP_INTERVAL_MS_def ARP_TIMEOUT_MS_def)

end
