(* ===== verification/Routing.thy ===== *)
theory Routing
  imports Network_Interface
begin

text \<open>
  The router: \<open>src/libsponge/router.hh\<close> and \<open>router.cc\<close>.  An \<open>AsyncNetworkInterface\<close> is a network
  interface with a queue; the iterator \<open>max_matched_entry\<close> is the entry it points to, with \<open>None\<close> for
  the end of the table.
\<close>

section \<open>The classes\<close>

record AsyncNetworkInterface =
  ai_interface :: NetworkInterface
  ai_datagrams_out :: "InternetDatagram list"

definition AsyncNetworkInterface_of :: "NetworkInterface \<Rightarrow> AsyncNetworkInterface" where
  "AsyncNetworkInterface_of ni = \<lparr>ai_interface = ni, ai_datagrams_out = []\<rparr>"

definition AsyncNetworkInterface_recv_frame :: "AsyncNetworkInterface \<Rightarrow> EthernetFrame \<Rightarrow> AsyncNetworkInterface result option" where
  "AsyncNetworkInterface_recv_frame ai frame =
     map_option (\<lambda>r. bind_result r (\<lambda>(optional_dgram, ni).
       Inr (case optional_dgram of
              Some dgram \<Rightarrow> ai\<lparr>ai_interface := ni, ai_datagrams_out := ai_datagrams_out ai @ [dgram]\<rparr>
            | None \<Rightarrow> ai\<lparr>ai_interface := ni\<rparr>)))
       (recv_frame (ai_interface ai) frame)"

record RouterEntry =
  re_route_prefix :: "32 word"
  re_prefix_length :: "8 word"
  re_next_hop :: "Address option"
  re_interface_num :: nat

record Router =
  rt_interfaces :: "AsyncNetworkInterface list"
  rt_router_table :: "RouterEntry list"

definition Router_new :: Router where
  "Router_new = \<lparr>rt_interfaces = [], rt_router_table = []\<rparr>"

definition Router_add_interface :: "Router \<Rightarrow> AsyncNetworkInterface \<Rightarrow> nat \<times> Router" where
  "Router_add_interface rt ai =
     (let rt1 = rt\<lparr>rt_interfaces := rt_interfaces rt @ [ai]\<rparr> in (u64_sub (length (rt_interfaces rt1)) 1, rt1))"

definition Router_interface :: "Router \<Rightarrow> nat \<Rightarrow> AsyncNetworkInterface result" where
  "Router_interface rt n = (if n < length (rt_interfaces rt) then Inr (rt_interfaces rt ! n) else Inl Out_Of_Range)"

definition Router_add_route :: "Router \<Rightarrow> 32 word \<Rightarrow> 8 word \<Rightarrow> Address option \<Rightarrow> nat \<Rightarrow> Router" where
  "Router_add_route rt route_prefix prefix_length next_hop interface_num =
     rt\<lparr>rt_router_table := rt_router_table rt @
          [\<lparr>re_route_prefix = route_prefix, re_prefix_length = prefix_length, re_next_hop = next_hop,
            re_interface_num = interface_num\<rparr>]\<rparr>"

definition prefix_mask :: "8 word \<Rightarrow> 32 word" where
  "prefix_mask prefix_length = (if prefix_length = 0 then 0 else push_bit (32 - unat prefix_length) 0xFFFFFFFF)"

definition match_entry :: "32 word \<Rightarrow> RouterEntry \<Rightarrow> RouterEntry option \<Rightarrow> RouterEntry option" where
  "match_entry dest it max_matched_entry =
     (if re_prefix_length it > 32 then max_matched_entry
      else let mask = prefix_mask (re_prefix_length it)
           in if dest AND mask = re_route_prefix it AND mask
              then (case max_matched_entry of
                      None \<Rightarrow> Some it
                    | Some best \<Rightarrow> if re_prefix_length it > re_prefix_length best then Some it else Some best)
              else max_matched_entry)"

definition route_one_datagram :: "Router \<Rightarrow> InternetDatagram \<Rightarrow> Router result" where
  "route_one_datagram rt dgram =
     (let dest = ip_dst (dg_header dgram); ttl = ip_ttl (dg_header dgram)
      in if ttl = 0 \<or> ttl - 1 = 0 then Inr rt
         else let dgram1 = dgram\<lparr>dg_header := (dg_header dgram)\<lparr>ip_ttl := ttl - 1\<rparr>\<rparr>
              in case fold (match_entry dest) (rt_router_table rt) None of
                   Some entry \<Rightarrow>
                     bind_result (Router_interface rt (re_interface_num entry)) (\<lambda>interface.
                     bind_result (case re_next_hop entry of
                                    Some next_hop \<Rightarrow> Inr next_hop
                                  | None \<Rightarrow> Address_from_ipv4_numeric dest) (\<lambda>hop.
                     bind_result (send_datagram (ai_interface interface) dgram1 hop) (\<lambda>ni.
                     Inr (rt\<lparr>rt_interfaces := (rt_interfaces rt)[re_interface_num entry := interface\<lparr>ai_interface := ni\<rparr>]\<rparr>))))
                 | None \<Rightarrow> Inr rt)"

text \<open>Sending does not touch the queues of received datagrams, so the inner loop of \<open>route\<close> ends.\<close>

lemma route_one_datagram_queues:
  assumes "route_one_datagram rt dgram = Inr rt1"
  shows "map ai_datagrams_out (rt_interfaces rt1) = map ai_datagrams_out (rt_interfaces rt)"
proof -
  have upd: "map ai_datagrams_out (ifs[n := (ifs ! n)\<lparr>ai_interface := ni\<rparr>]) = map ai_datagrams_out ifs" for ifs n ni
    by (cases "n < length ifs") (simp_all add: map_update list_update_beyond, metis list_update_id nth_map)
  show ?thesis
    using assms
    by (auto simp: route_one_datagram_def Router_interface_def Let_def bind_result_Inr_iff upd
        split: if_splits option.splits)
qed

declare bind_result_cong [fundef_cong]

text \<open>The loop \<open>while (not queue.empty())\<close> for interface \<open>i\<close>, and the loop over the interfaces.\<close>

definition pop_datagram :: "nat \<Rightarrow> Router \<Rightarrow> Router" where
  "pop_datagram i rt = rt\<lparr>rt_interfaces := (rt_interfaces rt)[i := (rt_interfaces rt ! i)
     \<lparr>ai_datagrams_out := tl (ai_datagrams_out (rt_interfaces rt ! i))\<rparr>]\<rparr>"

function route_queue :: "nat \<Rightarrow> Router \<Rightarrow> Router result" where
  "route_queue i rt =
     (if i < length (rt_interfaces rt) then
        case ai_datagrams_out (rt_interfaces rt ! i) of
          [] \<Rightarrow> Inr rt
        | dgram # _ \<Rightarrow> bind_result (route_one_datagram rt dgram) (\<lambda>rt1. route_queue i (pop_datagram i rt1))
      else Inr rt)"
  by auto

termination route_queue
proof (relation "measure (\<lambda>(i, rt). length (ai_datagrams_out (rt_interfaces rt ! i)))", goal_cases)
  case (2 i rt dgram rest rt1)
  have q: "map ai_datagrams_out (rt_interfaces rt1) = map ai_datagrams_out (rt_interfaces rt)"
    using 2(3) by (rule route_one_datagram_queues)
  have l: "i < length (rt_interfaces rt1)" using 2(1) arg_cong [OF q, of length] by simp
  then have "ai_datagrams_out (rt_interfaces rt1 ! i) = dgram # rest" using 2(1,2) nth_map [OF l, of ai_datagrams_out] q by simp
  then show ?case using l 2(2) by (simp add: pop_datagram_def)
qed simp

definition Router_route :: "Router \<Rightarrow> Router result" where
  "Router_route rt = fold (\<lambda>i r. bind_result r (route_queue i)) [0..<length (rt_interfaces rt)] (Inr rt)"

section \<open>Longest prefix match\<close>

text \<open>An entry applies when the first \<open>prefix_length\<close> bits agree; the router takes the first entry with the
  longest prefix.\<close>

definition entry_applies :: "32 word \<Rightarrow> RouterEntry \<Rightarrow> bool" where
  "entry_applies dest e \<longleftrightarrow> unat (re_prefix_length e) \<le> 32 \<and>
     drop_bit (32 - unat (re_prefix_length e)) dest = drop_bit (32 - unat (re_prefix_length e)) (re_route_prefix e)"

definition best_entry :: "32 word \<Rightarrow> RouterEntry list \<Rightarrow> RouterEntry option" where
  "best_entry dest table =
     find (\<lambda>e. entry_applies dest e \<and> (\<forall>e' \<in> set table. entry_applies dest e' \<longrightarrow> re_prefix_length e' \<le> re_prefix_length e)) table"

lemma prefix_mask_bit:
  assumes "unat len \<le> 32" "i < 32"
  shows "bit (prefix_mask len) i \<longleftrightarrow> 32 - unat len \<le> i"
proof -
  have ones: "(0xFFFFFFFF :: 32 word) = mask 32" by (simp add: mask_eq_exp_minus_1)
  show ?thesis
  proof (cases "len = 0")
    case True
    then show ?thesis using assms by (simp add: prefix_mask_def)
  next
    case False
    then have "0 < unat len" by (simp add: unat_gt_0)
    with False assms show ?thesis
      unfolding prefix_mask_def ones by (auto simp: bit_push_bit_iff bit_mask_iff simp del: push_bit_mask_eq)
  qed
qed

lemma prefix_mask_iff:
  assumes "unat len \<le> 32"
  shows "(a AND prefix_mask len = b AND prefix_mask len) \<longleftrightarrow> drop_bit (32 - unat len) a = drop_bit (32 - unat len) b"
proof -
  let ?k = "32 - unat len"
  have len: "i < 32" if "bit x i" for x :: "32 word" and i using bit_imp_le_length [OF that] by simp
  show ?thesis
  proof
    assume eq: "a AND prefix_mask len = b AND prefix_mask len"
    have "bit a (?k + i) = bit b (?k + i)" if "?k + i < 32" for i
      using arg_cong [OF eq, of "\<lambda>w. bit w (?k + i)"] prefix_mask_bit [OF assms that] by (simp add: bit_and_iff)
    then have "bit a (?k + i) = bit b (?k + i)" for i using len by blast
    then show "drop_bit ?k a = drop_bit ?k b" by (intro bit_eqI) (simp add: bit_drop_bit_eq)
  next
    assume eq: "drop_bit ?k a = drop_bit ?k b"
    have "bit a i = bit b i" if "?k \<le> i" for i
      using arg_cong [OF eq, of "\<lambda>w. bit w (i - ?k)"] that by (simp add: bit_drop_bit_eq)
    then show "a AND prefix_mask len = b AND prefix_mask len"
      using prefix_mask_bit [OF assms] len by (intro bit_eqI) (simp only: bit_and_iff, blast)
  qed
qed

lemma match_entry_eq:
  "match_entry dest e m =
     (if entry_applies dest e \<and> (\<forall>b. m = Some b \<longrightarrow> re_prefix_length b < re_prefix_length e) then Some e else m)"
  by (auto simp: match_entry_def entry_applies_def prefix_mask_iff Let_def word_less_nat_alt split: option.splits)

lemma find_append: "find P (xs @ ys) = (case find P xs of None \<Rightarrow> find P ys | Some x \<Rightarrow> Some x)"
  by (induction xs) auto

lemma match_table: "fold (match_entry dest) table None = best_entry dest table"
proof (induction table rule: rev_induct)
  case (snoc e t)
  let ?P = "\<lambda>t e. entry_applies dest e \<and> (\<forall>e' \<in> set t. entry_applies dest e' \<longrightarrow> re_prefix_length e' \<le> re_prefix_length e)"
  have step: "fold (match_entry dest) (t @ [e]) None = match_entry dest e (best_entry dest t)" using snoc by simp
  show ?case
  proof (cases "best_entry dest t")
    case None
    then have n: "\<forall>x \<in> set t. \<not> ?P t x" by (simp add: best_entry_def find_None_iff)
    have "\<forall>x \<in> set t. \<not> entry_applies dest x"
    proof (rule ccontr)
      assume "\<not> ?thesis"
      then have ne: "filter (entry_applies dest) t \<noteq> []" by (simp add: filter_empty_conv)
      let ?L = "re_prefix_length ` set (filter (entry_applies dest) t)"
      have "Max ?L \<in> ?L" using ne by (intro Max_in finite_imageI finite_set) (simp only: image_is_empty set_empty not_False_eq_True)
      then obtain x where x: "x \<in> set (filter (entry_applies dest) t)" "re_prefix_length x = Max ?L" by (metis imageE)
      then have "\<forall>y \<in> set (filter (entry_applies dest) t). re_prefix_length y \<le> re_prefix_length x" by simp
      then show False using n x(1) by auto
    qed
    then have "find (?P (t @ [e])) t = None" by (auto simp: find_None_iff)
    then show ?thesis using \<open>\<forall>x \<in> set t. \<not> entry_applies dest x\<close>
      unfolding step None by (auto simp: match_entry_eq best_entry_def find_append)
  next
    case (Some b)
    have b: "b \<in> set t" "?P t b" using Some by (auto simp: best_entry_def find_Some_iff)
    show ?thesis
    proof (cases "entry_applies dest e \<and> re_prefix_length b < re_prefix_length e")
      case True
      then have "\<forall>x \<in> set t. \<not> ?P (t @ [e]) x" using b by (auto simp: not_le)
      then have none: "find (?P (t @ [e])) t = None" by (simp only: find_None_iff) blast
      have "?P (t @ [e]) e" using True b by (auto intro: order_trans less_imp_le)
      then have "best_entry dest (t @ [e]) = Some e" unfolding best_entry_def find_append none by simp
      then show ?thesis unfolding step Some using True by (simp add: match_entry_eq)
    next
      case False
      have "find (?P (t @ [e])) t = find (?P t) t"
        using False b by (intro find_cong refl) (auto simp: not_less intro: order_trans)
      then show ?thesis
        unfolding step Some using False Some by (auto simp: match_entry_eq best_entry_def find_append split: option.splits)
    qed
  qed
qed (simp add: best_entry_def)

declare route_queue.simps [simp del]

section \<open>Forwarding\<close>

text \<open>What the router is to do with a datagram: drop it, or send it with its time to live decremented, out of
  the interface of the best entry.\<close>

definition forward :: "RouterEntry list \<Rightarrow> InternetDatagram \<Rightarrow> (nat \<times> InternetDatagram \<times> Address) option" where
  "forward table dg =
     (if unat (ip_ttl (dg_header dg)) \<le> 1 then None
      else map_option (\<lambda>e.
        (re_interface_num e, dg\<lparr>dg_header := (dg_header dg)\<lparr>ip_ttl := ip_ttl (dg_header dg) - 1\<rparr>\<rparr>,
         case re_next_hop e of Some hop \<Rightarrow> hop | None \<Rightarrow> ipv4_address 0 (ip_dst (dg_header dg))))
        (best_entry (ip_dst (dg_header dg)) table))"

text \<open>The datagrams that leave by interface \<open>i\<close>, and sending a sequence of them.\<close>

definition forwarded :: "RouterEntry list \<Rightarrow> nat \<Rightarrow> InternetDatagram list \<Rightarrow> (InternetDatagram \<times> Address) list" where
  "forwarded table i dgs = [(dg, hop). Some (n, dg, hop) \<leftarrow> map (forward table) dgs, n = i]"

fun send_all :: "NetworkInterface \<Rightarrow> (InternetDatagram \<times> Address) list \<Rightarrow> NetworkInterface result" where
  "send_all ni [] = Inr ni"
| "send_all ni ((dg, hop) # ds) = bind_result (send_datagram ni dg hop) (\<lambda>ni'. send_all ni' ds)"

definition table_ok :: "Router \<Rightarrow> bool" where
  "table_ok rt \<longleftrightarrow> (\<forall>e \<in> set (rt_router_table rt). re_interface_num e < length (rt_interfaces rt) \<and>
     (\<forall>hop. re_next_hop e = Some hop \<longrightarrow> hop_ok hop))"

definition rt_inv :: "Router \<Rightarrow> bool" where
  "rt_inv rt \<longleftrightarrow> table_ok rt \<and> (\<forall>ai \<in> set (rt_interfaces rt). ni_inv (ai_interface ai) \<and> (\<forall>dg \<in> set (ai_datagrams_out ai). dgram_ok dg))"

lemma dgram_ok_ttl [simp]: "dgram_ok (dg\<lparr>dg_header := (dg_header dg)\<lparr>ip_ttl := t\<rparr>\<rparr>) = dgram_ok dg"
  by (simp add: dgram_ok_def IPv4Datagram_serialize_def IPv4Header_serialize_def IPv4Header_payload_length_def bind_result_Inr_iff Let_def)

lemma best_entry_mem: "best_entry dest table = Some e \<Longrightarrow> e \<in> set table"
  by (auto simp: best_entry_def find_Some_iff)

lemma forward_ok:
  assumes "forward (rt_router_table rt) dg = Some (i, dg', hop)" "table_ok rt" "dgram_ok dg"
  shows "i < length (rt_interfaces rt)" "hop_ok hop" "dgram_ok dg'"
  using assms by (auto simp: forward_def table_ok_def split: if_splits option.splits dest!: best_entry_mem)

lemma ttl_last: "unat ttl \<le> Suc 0 \<longleftrightarrow> ttl = 0 \<or> ttl = 1" for ttl :: "8 word"
proof
  assume "unat ttl \<le> Suc 0"
  then have "unat ttl = unat (0 :: 8 word) \<or> unat ttl = unat (1 :: 8 word)" by auto
  then show "ttl = 0 \<or> ttl = 1" using unsigned_word_eqI [of ttl 0] unsigned_word_eqI [of ttl 1] by blast
qed auto

lemma route_one_datagram_spec:
  assumes inv: "rt_inv rt" and dg: "dgram_ok dg"
  shows "case forward (rt_router_table rt) dg of
      None \<Rightarrow> route_one_datagram rt dg = Inr rt
    | Some (i, dg', hop) \<Rightarrow> i < length (rt_interfaces rt) \<and>
        (\<exists>ni. send_datagram (ai_interface (rt_interfaces rt ! i)) dg' hop = Inr ni \<and> ni_inv ni \<and>
           route_one_datagram rt dg = Inr (rt\<lparr>rt_interfaces := (rt_interfaces rt)[i := (rt_interfaces rt ! i)\<lparr>ai_interface := ni\<rparr>]\<rparr>))"
proof (cases "forward (rt_router_table rt) dg")
  case None
  then show ?thesis by (auto simp: forward_def route_one_datagram_def match_table ttl_last Let_def split: if_splits)
next
  case (Some f)
  obtain i dg' hop where f: "f = (i, dg', hop)" by (cases f)
  have ok: "i < length (rt_interfaces rt)" "hop_ok hop" "dgram_ok dg'"
    using forward_ok [OF Some [unfolded f] _ dg] inv by (simp_all add: rt_inv_def)
  have "ni_inv (ai_interface (rt_interfaces rt ! i))" using inv nth_mem [OF ok(1)] by (simp add: rt_inv_def)
  from send_datagram_inv [OF this ok(2,3)]
  obtain ni where ni: "send_datagram (ai_interface (rt_interfaces rt ! i)) dg' hop = Inr ni" "ni_inv ni" by blast
  have "route_one_datagram rt dg = Inr (rt\<lparr>rt_interfaces := (rt_interfaces rt)[i := (rt_interfaces rt ! i)\<lparr>ai_interface := ni\<rparr>]\<rparr>)"
    using Some [unfolded f] ni(1) ok(1)
    by (auto simp: forward_def route_one_datagram_def match_table ttl_last Let_def Router_interface_def split: if_splits option.splits)
  then show ?thesis using Some f ok(1) ni by simp
qed


lemma forwarded_append: "forwarded table i (xs @ ys) = forwarded table i xs @ forwarded table i ys"
  by (simp add: forwarded_def)

lemma forwarded_Cons:
  "forwarded table i (dg # dgs) =
     (case forward table dg of Some (n, dg', hop) \<Rightarrow> if n = i then [(dg', hop)] else [] | None \<Rightarrow> []) @ forwarded table i dgs"
  by (simp add: forwarded_def split: option.splits prod.splits)

lemma send_all_append: "send_all ni (xs @ ys) = bind_result (send_all ni xs) (\<lambda>ni'. send_all ni' ys)"
proof (induction ni xs rule: send_all.induct)
  case (2 ni dg hop ds)
  then show ?case by (cases "send_datagram ni dg hop") simp_all
qed simp

text \<open>The queue and the interface at position \<open>j\<close>.\<close>

abbreviation rt_queue :: "Router \<Rightarrow> nat \<Rightarrow> InternetDatagram list" where
  "rt_queue rt j \<equiv> ai_datagrams_out (rt_interfaces rt ! j)"

abbreviation rt_ni :: "Router \<Rightarrow> nat \<Rightarrow> NetworkInterface" where
  "rt_ni rt j \<equiv> ai_interface (rt_interfaces rt ! j)"

lemma rt_inv_update:
  assumes "rt_inv rt" "ni_inv (ai_interface ai)" "\<forall>dg \<in> set (ai_datagrams_out ai). dgram_ok dg"
  shows "rt_inv (rt\<lparr>rt_interfaces := (rt_interfaces rt)[i := ai]\<rparr>)"
  using assms set_update_subset_insert [of "rt_interfaces rt" i ai] by (auto simp: rt_inv_def table_ok_def)

lemma route_step:
  assumes inv: "rt_inv rt" and i: "i < length (rt_interfaces rt)" and q: "rt_queue rt i = dg # rest"
  obtains rt1 where "route_one_datagram rt dg = Inr rt1" "rt_inv (pop_datagram i rt1)"
    "length (rt_interfaces (pop_datagram i rt1)) = length (rt_interfaces rt)"
    "rt_router_table (pop_datagram i rt1) = rt_router_table rt"
    "\<forall>j < length (rt_interfaces rt). rt_queue (pop_datagram i rt1) j = (if j = i then rest else rt_queue rt j)"
    "\<forall>j < length (rt_interfaces rt). send_all (rt_ni rt j) (forwarded (rt_router_table rt) j [dg]) = Inr (rt_ni (pop_datagram i rt1) j)"
proof -
  have mem: "rt_interfaces rt ! i \<in> set (rt_interfaces rt)" using i by simp
  have dg: "dgram_ok dg" "\<forall>x \<in> set rest. dgram_ok x" using inv mem q by (auto simp: rt_inv_def)
  have pop: "rt_inv (pop_datagram i r)" if r: "rt_inv r" "rt_queue r i = dg # rest" "i < length (rt_interfaces r)" for r
    unfolding pop_datagram_def using r nth_mem [OF r(3)] dg(2) by (intro rt_inv_update) (auto simp: rt_inv_def)
  show ?thesis
  proof (cases "forward (rt_router_table rt) dg")
    case None
    then have "route_one_datagram rt dg = Inr rt" using route_one_datagram_spec [OF inv dg(1)] by simp
    then show ?thesis
      by (rule that [OF _ pop [OF inv q i]]) (use i q None in \<open>simp_all add: pop_datagram_def forwarded_def nth_list_update\<close>)
  next
    case (Some f)
    obtain n dg' hop where f: "f = (n, dg', hop)" by (cases f)
    obtain ni where n: "n < length (rt_interfaces rt)" and ni: "send_datagram (rt_ni rt n) dg' hop = Inr ni" "ni_inv ni"
      "route_one_datagram rt dg = Inr (rt\<lparr>rt_interfaces := (rt_interfaces rt)[n := (rt_interfaces rt ! n)\<lparr>ai_interface := ni\<rparr>]\<rparr>)"
      using route_one_datagram_spec [OF inv dg(1)] Some f by auto
    let ?r = "rt\<lparr>rt_interfaces := (rt_interfaces rt)[n := (rt_interfaces rt ! n)\<lparr>ai_interface := ni\<rparr>]\<rparr>"
    have "rt_inv ?r" using inv ni(2) nth_mem [OF n] by (intro rt_inv_update) (auto simp: rt_inv_def)
    moreover have "rt_queue ?r i = dg # rest" using q i n by (simp add: nth_list_update)
    ultimately have "rt_inv (pop_datagram i ?r)" using i by (intro pop) simp_all
    with ni(3) show ?thesis
      by (rule that) (use i n q ni(1) Some f in \<open>auto simp: pop_datagram_def forwarded_def nth_list_update\<close>)
  qed
qed

lemma route_queue_spec:
  assumes "rt_inv rt" "i < length (rt_interfaces rt)"
  shows "\<exists>rt'. route_queue i rt = Inr rt' \<and> rt_inv rt' \<and> length (rt_interfaces rt') = length (rt_interfaces rt) \<and>
    rt_router_table rt' = rt_router_table rt \<and>
    (\<forall>j < length (rt_interfaces rt). rt_queue rt' j = (if j = i then [] else rt_queue rt j)) \<and>
    (\<forall>j < length (rt_interfaces rt). send_all (rt_ni rt j) (forwarded (rt_router_table rt) j (rt_queue rt i)) = Inr (rt_ni rt' j))"
  using assms
proof (induction "rt_queue rt i" arbitrary: rt)
  case Nil
  then show ?case by (subst route_queue.simps) (simp add: forwarded_def)
next
  case (Cons dg rest)
  obtain rt1 where r1: "route_one_datagram rt dg = Inr rt1" "rt_inv (pop_datagram i rt1)"
    "length (rt_interfaces (pop_datagram i rt1)) = length (rt_interfaces rt)"
    "rt_router_table (pop_datagram i rt1) = rt_router_table rt"
    "\<forall>j < length (rt_interfaces rt). rt_queue (pop_datagram i rt1) j = (if j = i then rest else rt_queue rt j)"
    "\<forall>j < length (rt_interfaces rt). send_all (rt_ni rt j) (forwarded (rt_router_table rt) j [dg]) = Inr (rt_ni (pop_datagram i rt1) j)"
    by (rule route_step [OF Cons(3,4) Cons(2) [symmetric]])
  have eq: "route_queue i rt = route_queue i (pop_datagram i rt1)"
    using Cons(2) [symmetric] Cons(4) r1(1) by (subst route_queue.simps) simp
  have "rest = rt_queue (pop_datagram i rt1) i" using r1(5) Cons(4) by simp
  from Cons(1) [OF this r1(2)] Cons(4) r1(3)
  obtain rt' where rt': "route_queue i (pop_datagram i rt1) = Inr rt'" "rt_inv rt'" "length (rt_interfaces rt') = length (rt_interfaces rt)"
    "rt_router_table rt' = rt_router_table rt"
    "\<forall>j < length (rt_interfaces rt). rt_queue rt' j = (if j = i then [] else rt_queue (pop_datagram i rt1) j)"
    "\<forall>j < length (rt_interfaces rt). send_all (rt_ni (pop_datagram i rt1) j) (forwarded (rt_router_table rt) j rest) = Inr (rt_ni rt' j)"
    unfolding r1(4) using \<open>rest = _\<close> by auto
  have sa: "send_all (rt_ni rt j) (forwarded (rt_router_table rt) j (dg # rest)) = Inr (rt_ni rt' j)" if "j < length (rt_interfaces rt)" for j
    using r1(6) rt'(6) that forwarded_append [of _ j "[dg]" rest] by (simp add: send_all_append)
  show ?case unfolding eq rt'(1) Cons(2) [symmetric] using rt'(2-5) r1(5) sa by auto
qed


lemma Router_route_upto:
  assumes "rt_inv rt" "k \<le> length (rt_interfaces rt)"
  shows "\<exists>rt'. fold (\<lambda>i r. bind_result r (route_queue i)) [0..<k] (Inr rt) = Inr rt' \<and> rt_inv rt' \<and>
    length (rt_interfaces rt') = length (rt_interfaces rt) \<and> rt_router_table rt' = rt_router_table rt \<and>
    (\<forall>j < length (rt_interfaces rt). rt_queue rt' j = (if j < k then [] else rt_queue rt j)) \<and>
    (\<forall>j < length (rt_interfaces rt).
       send_all (rt_ni rt j) (forwarded (rt_router_table rt) j (concat (map (rt_queue rt) [0..<k]))) = Inr (rt_ni rt' j))"
  using assms(2)
proof (induction k)
  case 0
  then show ?case using assms(1) by (simp add: forwarded_def)
next
  case (Suc k)
  from Suc(1) [OF Suc_leD [OF Suc(2)]] obtain rt1 where r1: "fold (\<lambda>i r. bind_result r (route_queue i)) [0..<k] (Inr rt) = Inr rt1" "rt_inv rt1"
    "length (rt_interfaces rt1) = length (rt_interfaces rt)" "rt_router_table rt1 = rt_router_table rt"
    "\<forall>j < length (rt_interfaces rt). rt_queue rt1 j = (if j < k then [] else rt_queue rt j)"
    "\<forall>j < length (rt_interfaces rt).
       send_all (rt_ni rt j) (forwarded (rt_router_table rt) j (concat (map (rt_queue rt) [0..<k]))) = Inr (rt_ni rt1 j)"
    by blast
  have k: "k < length (rt_interfaces rt1)" "rt_queue rt1 k = rt_queue rt k" using Suc(2) r1(3,5) by simp_all
  from route_queue_spec [OF r1(2) k(1), unfolded k(2) r1(3,4)]
  obtain rt' where rt': "route_queue k rt1 = Inr rt'" "rt_inv rt'" "length (rt_interfaces rt') = length (rt_interfaces rt)"
    "rt_router_table rt' = rt_router_table rt"
    "\<forall>j < length (rt_interfaces rt). rt_queue rt' j = (if j = k then [] else rt_queue rt1 j)"
    "\<forall>j < length (rt_interfaces rt). send_all (rt_ni rt1 j) (forwarded (rt_router_table rt) j (rt_queue rt k)) = Inr (rt_ni rt' j)"
    by blast
  have "send_all (rt_ni rt j) (forwarded (rt_router_table rt) j (concat (map (rt_queue rt) [0..<Suc k]))) = Inr (rt_ni rt' j)"
    if "j < length (rt_interfaces rt)" for j
    using r1(6) rt'(6) that by (simp add: forwarded_append send_all_append)
  moreover have "rt_queue rt' j = (if j < Suc k then [] else rt_queue rt j)" if "j < length (rt_interfaces rt)" for j
    using r1(5) rt'(5) that by (auto simp: less_Suc_eq)
  ultimately show ?case using r1(1) rt' by simp
qed

section \<open>Properties\<close>

text \<open>C10: the loop over the routing table, with its masks and its comparison of prefix lengths, computes the
  longest prefix match: the first entry of the table that applies to the destination and whose prefix is at
  least as long as that of every entry that applies.\<close>

theorem longest_prefix_match:
  "fold (match_entry dest) table None =
     find (\<lambda>e. entry_applies dest e \<and> (\<forall>e' \<in> set table. entry_applies dest e' \<longrightarrow> re_prefix_length e' \<le> re_prefix_length e)) table"
  unfolding match_table best_entry_def by (rule refl)

definition ex_entry :: "32 word \<Rightarrow> 8 word \<Rightarrow> nat \<Rightarrow> RouterEntry" where
  "ex_entry route_prefix len n = \<lparr>re_route_prefix = route_prefix, re_prefix_length = len, re_next_hop = None, re_interface_num = n\<rparr>"

theorem longest_prefix_match_witness:
  "fold (match_entry 0x0a000102) [ex_entry 0 0 0, ex_entry 0x0a000000 8 1, ex_entry 0x0a000100 24 2, ex_entry 0x0a000200 24 3] None =
     Some (ex_entry 0x0a000100 24 2)"
  unfolding longest_prefix_match by (simp add: ex_entry_def entry_applies_def)

text \<open>C8: \<open>Router::route\<close> ends without an exception and empties every queue of received datagrams.  Each
  interface sends exactly the datagrams whose best entry names it, in the order of the queues, with the time to
  live decremented; a datagram whose time to live is used up or that has no route goes nowhere.\<close>

theorem Router_route_correct:
  assumes "rt_inv rt"
  shows "\<exists>rt'. Router_route rt = Inr rt' \<and> rt_inv rt' \<and> length (rt_interfaces rt') = length (rt_interfaces rt) \<and>
    (\<forall>j < length (rt_interfaces rt). rt_queue rt' j = [] \<and>
       send_all (rt_ni rt j) (forwarded (rt_router_table rt) j (concat (map ai_datagrams_out (rt_interfaces rt)))) = Inr (rt_ni rt' j))"
proof -
  have q: "map (rt_queue rt) [0..<length (rt_interfaces rt)] = map ai_datagrams_out (rt_interfaces rt)"
    by (rule nth_equalityI) simp_all
  show ?thesis
    using Router_route_upto [OF assms order_refl] unfolding q Router_route_def by auto
qed

definition ex_router :: Router where
  "ex_router = \<lparr>rt_interfaces = [\<lparr>ai_interface = ex_ni 1, ai_datagrams_out = [ex_dgram]\<rparr>, AsyncNetworkInterface_of (ex_ni 2)],
     rt_router_table = [ex_entry 0 0 1]\<rparr>"

theorem Router_route_correct_witness:
  "\<exists>rt'. Router_route ex_router = Inr rt' \<and> rt_queue rt' 0 = [] \<and> rt_ni rt' 0 = ex_ni 1 \<and>
     send_datagram (ex_ni 2) (ex_dgram\<lparr>dg_header := (dg_header ex_dgram)\<lparr>ip_ttl := 127\<rparr>\<rparr>) (ipv4_address 0 0) = Inr (rt_ni rt' 1)"
proof -
  let ?dg = "ex_dgram\<lparr>dg_header := (dg_header ex_dgram)\<lparr>ip_ttl := 127\<rparr>\<rparr>"
  have inv: "rt_inv ex_router"
    by (simp add: ex_router_def rt_inv_def table_ok_def ex_entry_def AsyncNetworkInterface_of_def ex_ni_ok ex_dgram_ok)
  have f: "forward (rt_router_table ex_router) ex_dgram = Some (1, ?dg, ipv4_address 0 0)"
    by (simp add: forward_def best_entry_def ex_router_def ex_entry_def entry_applies_def ex_dgram_def IPv4Header_default_def IPv4Header_DEFAULT_TTL_def)
  have ifs: "length (rt_interfaces ex_router) = 2" "concat (map ai_datagrams_out (rt_interfaces ex_router)) = [ex_dgram]"
    "rt_ni ex_router 0 = ex_ni 1" "rt_ni ex_router 1 = ex_ni 2"
    by (simp_all add: ex_router_def AsyncNetworkInterface_of_def)
  have fwd: "forwarded (rt_router_table ex_router) 0 [ex_dgram] = []"
    "forwarded (rt_router_table ex_router) 1 [ex_dgram] = [(?dg, ipv4_address 0 0)]" by (simp_all add: forwarded_def f)
  obtain rt' where rt': "Router_route ex_router = Inr rt'"
    "\<forall>j < 2. rt_queue rt' j = [] \<and> send_all (rt_ni ex_router j) (forwarded (rt_router_table ex_router) j [ex_dgram]) = Inr (rt_ni rt' j)"
    using Router_route_correct [OF inv] unfolding ifs by blast
  have "rt_queue rt' 0 = []" "send_all (ex_ni 1) [] = Inr (rt_ni rt' 0)" "send_all (ex_ni 2) [(?dg, ipv4_address 0 0)] = Inr (rt_ni rt' 1)"
    using rt'(2) [rule_format, of 0] rt'(2) [rule_format, of 1] unfolding ifs fwd by simp_all
  then show ?thesis using rt'(1) by (auto simp: bind_result_Inr_iff)
qed

end
