(* ===== verification/Wrapping_Integers.thy ===== *)
theory Wrapping_Integers
  imports Sponge_Prelude
begin

text \<open>
  \<open>libsponge/wrapping_integers.hh\<close> and \<open>.cc\<close>: 32-bit sequence numbers relative to an initial
  sequence number (ISN), and their translation to and from 64-bit absolute sequence numbers.
  The lemmas show that \<open>unwrap\<close> returns the absolute number that wraps to its argument and is
  closest to the checkpoint, and that it inverts \<open>wrap\<close> within \<open>2 ^ 31\<close> of the checkpoint.
\<close>

section \<open>The class and its operators\<close>

type_synonym WrappingInt32 = "32 word"

text \<open>\<open>operator-(a, b)\<close> is an \<open>int32_t\<close>; \<open>operator+(a, b)\<close> and \<open>operator-(a, uint32_t)\<close> wrap.\<close>

definition wi_minus :: "WrappingInt32 \<Rightarrow> WrappingInt32 \<Rightarrow> int" where
  "wi_minus a b = sint (a - b)"

definition wi_plus_u32 :: "WrappingInt32 \<Rightarrow> 32 word \<Rightarrow> WrappingInt32" where
  "wi_plus_u32 a b = a + b"

definition wi_minus_u32 :: "WrappingInt32 \<Rightarrow> 32 word \<Rightarrow> WrappingInt32" where
  "wi_minus_u32 a b = wi_plus_u32 a (- b)"

section \<open>Translation to and from absolute sequence numbers\<close>

definition wrap :: "nat \<Rightarrow> WrappingInt32 \<Rightarrow> WrappingInt32" where
  "wrap n isn = wi_plus_u32 isn (of_nat n)"

definition INT32_RANGE :: nat where
  "INT32_RANGE = 2 ^ 32"

definition unwrap :: "WrappingInt32 \<Rightarrow> WrappingInt32 \<Rightarrow> nat \<Rightarrow> nat" where
  "unwrap n isn checkpoint =
     (let offset = unat (word_of_int (wi_minus n isn) :: 32 word);
          delta = (if checkpoint > offset then u64_sub checkpoint offset else 0);
          wrap_num = u64_add delta (INT32_RANGE div 2) div INT32_RANGE
      in u64_add (u64 (wrap_num * INT32_RANGE)) offset)"

section \<open>Operators\<close>

lemma wi_minus_range: "- (2 ^ 31) \<le> wi_minus a b \<and> wi_minus a b < 2 ^ 31"
  using sint_ge [of "a - b"] sint_lt [of "a - b"] by (simp add: wi_minus_def)

lemma wi_plus_minus [simp]: "wi_plus_u32 b (word_of_int (wi_minus a b)) = a"
  by (simp add: wi_plus_u32_def wi_minus_def)

lemma wi_minus_u32_plus [simp]: "wi_minus_u32 (wi_plus_u32 a b) b = a"
  by (simp add: wi_plus_u32_def wi_minus_u32_def)

section \<open>The offset computed by unwrap\<close>

definition seq_offset :: "WrappingInt32 \<Rightarrow> WrappingInt32 \<Rightarrow> nat" where
  "seq_offset n isn = unat (n - isn)"

lemma seq_offset_less: "seq_offset n isn < INT32_RANGE"
  unfolding seq_offset_def INT32_RANGE_def using unsigned_less [of "n - isn"] by simp

lemma seq_offset_wrap: "seq_offset (wrap a isn) isn = a mod INT32_RANGE"
  by (simp add: seq_offset_def wrap_def wi_plus_u32_def INT32_RANGE_def unat_of_nat)

lemma wrap_eq_iff: "wrap a isn = n \<longleftrightarrow> a mod INT32_RANGE = seq_offset n isn"
proof
  assume "wrap a isn = n"
  then show "a mod INT32_RANGE = seq_offset n isn"
    using seq_offset_wrap by metis
next
  assume "a mod INT32_RANGE = seq_offset n isn"
  then have "unat (of_nat a :: 32 word) = unat (n - isn)"
    by (simp add: seq_offset_def INT32_RANGE_def unat_of_nat)
  then have "of_nat a = n - isn"
    by (simp only: word_unat_eq_iff)
  then show "wrap a isn = n"
    by (simp add: wrap_def wi_plus_u32_def)
qed

lemma wrap_eq_wrap_iff: "wrap a isn = wrap b isn \<longleftrightarrow> a mod INT32_RANGE = b mod INT32_RANGE"
  by (simp add: wrap_eq_iff seq_offset_wrap)

text \<open>Away from the very end of the 64-bit space no operation of \<open>unwrap\<close> wraps.\<close>

lemma unwrap_eq:
  assumes "c + 2 ^ 31 < W64"
  shows "unwrap n isn c =
    (c - seq_offset n isn + 2 ^ 31) div INT32_RANGE * INT32_RANGE + seq_offset n isn"
proof -
  define d where "d = c - seq_offset n isn + 2 ^ 31"
  define q where "q = d div INT32_RANGE"
  have d: "d < 2 ^ 32 * 2 ^ 32"
    using assms by (simp add: d_def W64_def)
  then have "q < 2 ^ 32"
    unfolding q_def INT32_RANGE_def by (rule less_mult_imp_div_less)
  then have q: "q * INT32_RANGE + seq_offset n isn < W64"
    using seq_offset_less [of n isn] by (simp add: INT32_RANGE_def W64_def)
  then have q0: "q * INT32_RANGE < W64"
    by simp
  have off: "unat (word_of_int (wi_minus n isn) :: 32 word) = seq_offset n isn"
    by (simp add: wi_minus_def seq_offset_def)
  have delta: "(if c > seq_offset n isn then u64_sub c (seq_offset n isn) else 0)
      = c - seq_offset n isn"
    using assms by (simp add: u64_simps)
  have add: "u64_add (c - seq_offset n isn) (INT32_RANGE div 2) = d"
    using assms by (simp add: u64_simps d_def INT32_RANGE_def)
  show ?thesis
    unfolding unwrap_def Let_def off delta add
    using q q0 by (simp add: u64_simps q_def d_def)
qed

section \<open>unwrap inverts wrap and picks the closest candidate\<close>

lemma div_between:
  assumes "q * m \<le> (x::nat)" "x < q * m + m"
  shows "x div m = q"
proof -
  have "m > 0" using assms by simp
  have "x = q * m + (x - q * m)" using assms(1) by simp
  moreover have "x - q * m < m" using assms by simp
  ultimately show ?thesis using \<open>m > 0\<close> by (metis div_mult_self3 div_less add.right_neutral add.commute less_numeral_extra(3))
qed

lemma unwrap_unique:
  assumes "c + 2 ^ 31 < W64" "c < a + 2 ^ 31" "a \<le> c + 2 ^ 31" "a mod INT32_RANGE = seq_offset n isn"
  shows "unwrap n isn c = a"
proof -
  let ?o = "seq_offset n isn"
  define q where "q = a div INT32_RANGE"
  have a: "a = q * INT32_RANGE + ?o"
    using assms(4) by (simp add: q_def flip: assms(4))
  have "(c - ?o + 2 ^ 31) div INT32_RANGE = q"
  proof (rule div_between)
    show "q * INT32_RANGE \<le> c - ?o + 2 ^ 31"
      using assms(3) a by (cases "q = 0") (auto simp: INT32_RANGE_def)
    show "c - ?o + 2 ^ 31 < q * INT32_RANGE + INT32_RANGE"
      using assms(2) a by (simp add: INT32_RANGE_def)
  qed
  then show ?thesis
    using assms(1) a by (simp add: unwrap_eq)
qed

lemma unwrap_wrap_near:
  assumes "c + 2 ^ 31 < W64" "c < a + 2 ^ 31" "a \<le> c + 2 ^ 31"
  shows "unwrap (wrap a isn) isn c = a"
  using assms by (intro unwrap_unique) (simp_all add: seq_offset_wrap)

lemma wrap_unwrap:
  assumes "c + 2 ^ 31 < W64"
  shows "wrap (unwrap n isn c) isn = n"
  using seq_offset_less [of n isn] assms by (simp add: unwrap_eq wrap_eq_iff)

lemma nat_same_residue_far:
  assumes "(a::nat) mod m = b mod m" "a \<noteq> b"
  shows "int m \<le> \<bar>int a - int b\<bar>"
proof -
  have "int m dvd int a - int b"
    using assms(1) by (metis mod_eq_dvd_iff of_nat_mod)
  then obtain k where k: "int a - int b = int m * k" ..
  with assms(2) have "k \<noteq> 0" by auto
  then have "int m * 1 \<le> int m * \<bar>k\<bar>"
    by (intro mult_left_mono) auto
  then show ?thesis
    by (simp add: k abs_mult)
qed

lemma unwrap_near:
  assumes "c + 2 ^ 31 < W64"
  shows "\<bar>int (unwrap n isn c) - int c\<bar> \<le> 2 ^ 31 \<or> unwrap n isn c = seq_offset n isn \<and> c < unwrap n isn c"
proof -
  let ?o = "seq_offset n isn"
  define q where "q = (c - ?o + 2 ^ 31) div INT32_RANGE"
  have u: "unwrap n isn c = q * INT32_RANGE + ?o"
    using assms by (simp add: unwrap_eq q_def)
  have split: "c - ?o + 2 ^ 31 = q * INT32_RANGE + (c - ?o + 2 ^ 31) mod INT32_RANGE"
    by (simp add: q_def)
  have m: "(c - ?o + 2 ^ 31) mod INT32_RANGE < 2 ^ 32"
    by (simp add: INT32_RANGE_def)
  show ?thesis
  proof (cases "?o \<le> c")
    case True
    then have "c + 2 ^ 31 = unwrap n isn c + (c - ?o + 2 ^ 31) mod INT32_RANGE"
      using split u by simp
    then have "\<bar>int (unwrap n isn c) - int c\<bar> \<le> 2 ^ 31"
      using m by simp
    then show ?thesis ..
  next
    case False
    then have "q = 0"
      by (simp add: q_def INT32_RANGE_def)
    then show ?thesis
      using u False by simp
  qed
qed

lemma unwrap_closest_nat:
  assumes "c + 2 ^ 31 < W64" "wrap b isn = n"
  shows "\<bar>int (unwrap n isn c) - int c\<bar> \<le> \<bar>int b - int c\<bar>"
proof (cases "unwrap n isn c = b")
  case True
  then show ?thesis by simp
next
  case False
  let ?u = "unwrap n isn c"
  have "?u mod INT32_RANGE = b mod INT32_RANGE"
    using assms wrap_unwrap wrap_eq_wrap_iff by metis
  then have far: "2 ^ 32 \<le> \<bar>int ?u - int b\<bar>"
    using False nat_same_residue_far by (fastforce simp: INT32_RANGE_def)
  from unwrap_near [OF assms(1), of n isn] show ?thesis
  proof
    assume "\<bar>int ?u - int c\<bar> \<le> 2 ^ 31"
    then show ?thesis using far by (simp add: abs_le_iff abs_if split: if_splits)
  next
    assume "?u = seq_offset n isn \<and> c < ?u"
    moreover have "seq_offset n isn \<le> b"
      using assms(2) by (metis mod_less_eq_dividend wrap_eq_iff)
    ultimately show ?thesis by simp
  qed
qed

section \<open>Properties\<close>

text \<open>C26: \<open>unwrap\<close> returns an absolute sequence number that wraps to \<open>n\<close> and, among all absolute
  sequence numbers that do, is closest to the checkpoint (for every checkpoint that is not within
  \<open>2 ^ 31\<close> of the end of the 64-bit space).\<close>

theorem unwrap_closest:
  assumes "checkpoint + 2 ^ 31 < W64"
  shows "wrap (unwrap n isn checkpoint) isn = n \<and>
    (\<forall>b. wrap b isn = n \<longrightarrow>
       \<bar>int (unwrap n isn checkpoint) - int checkpoint\<bar> \<le> \<bar>int b - int checkpoint\<bar>)"
  using assms wrap_unwrap unwrap_closest_nat by blast

theorem unwrap_closest_witness:
  "(3 :: nat) * 2 ^ 32 + 2 ^ 31 < W64 \<and>
   wrap (unwrap 17 15 (3 * 2 ^ 32)) 15 = 17"
  using unwrap_closest [of "3 * 2 ^ 32" 17 15] by (simp add: W64_def)

text \<open>C27: \<open>unwrap\<close> inverts \<open>wrap\<close> for every absolute sequence number less than \<open>2 ^ 31\<close> below and at
  most \<open>2 ^ 31\<close> above the checkpoint.\<close>

theorem unwrap_wrap:
  assumes "checkpoint + 2 ^ 31 < W64" "checkpoint < n + 2 ^ 31" "n \<le> checkpoint + 2 ^ 31"
  shows "unwrap (wrap n isn) isn checkpoint = n"
  using assms by (rule unwrap_wrap_near)

theorem unwrap_wrap_witness:
  "unwrap (wrap (2 ^ 33 + 5) 4000000000) 4000000000 (2 ^ 33) = 2 ^ 33 + 5"
  by (rule unwrap_wrap) (simp_all add: W64_def)

end
