(* ===== verification/TCP_Segments.thy ===== *)
theory TCP_Segments
  imports Checksum Wrapping_Integers
begin

unbundle bit_operations_syntax

text \<open>
  \<open>libsponge/tcp_helpers/tcp_header.hh\<close>, \<open>tcp_segment.hh\<close> and their \<open>.cc\<close>: the TCP header and the
  segment.  \<open>parse\<close> reads into an existing object, so the definitions take the old value; the
  fields it does not reach on an early return keep their value.  The header is an instance of the
  locale \<open>wire_format\<close>; for segments the round trip includes the checksum over the pseudo-header.
\<close>

section \<open>TCPHeader\<close>

record TCPHeader =
  th_sport :: "16 word"
  th_dport :: "16 word"
  th_seqno :: WrappingInt32
  th_ackno :: WrappingInt32
  th_doff :: "8 word"
  th_urg :: bool
  th_ack :: bool
  th_psh :: bool
  th_rst :: bool
  th_syn :: bool
  th_fin :: bool
  th_win :: "16 word"
  th_cksum :: "16 word"
  th_uptr :: "16 word"

definition TCPHeader_LENGTH :: nat where
  "TCPHeader_LENGTH = 20"

definition TCPHeader_default :: TCPHeader where
  "TCPHeader_default =
     \<lparr>th_sport = 0, th_dport = 0, th_seqno = 0, th_ackno = 0, th_doff = 5, th_urg = False, th_ack = False,
      th_psh = False, th_rst = False, th_syn = False, th_fin = False, th_win = 0, th_cksum = 0, th_uptr = 0\<rparr>"

definition TCPHeader_parse :: "TCPHeader \<Rightarrow> (ParseResult \<times> TCPHeader) parser" where
  "TCPHeader_parse h =
     p_bind NetParser_u16 (\<lambda>sport. p_bind NetParser_u16 (\<lambda>dport.
     p_bind NetParser_u32 (\<lambda>seqno. p_bind NetParser_u32 (\<lambda>ackno.
     p_bind NetParser_u8 (\<lambda>doff_b. p_bind NetParser_u8 (\<lambda>fl_b.
     p_bind NetParser_u16 (\<lambda>win. p_bind NetParser_u16 (\<lambda>cksum. p_bind NetParser_u16 (\<lambda>uptr.
       let doff = drop_bit 4 doff_b;
           h' = h\<lparr>th_sport := sport, th_dport := dport, th_seqno := seqno, th_ackno := ackno, th_doff := doff,
                  th_urg := (fl_b AND 0x20 \<noteq> 0), th_ack := (fl_b AND 0x10 \<noteq> 0),
                  th_psh := (fl_b AND 0x08 \<noteq> 0), th_rst := (fl_b AND 0x04 \<noteq> 0),
                  th_syn := (fl_b AND 0x02 \<noteq> 0), th_fin := (fl_b AND 0x01 \<noteq> 0),
                  th_win := win, th_cksum := cksum, th_uptr := uptr\<rparr>
       in if unat doff < 5 then p_return (HeaderTooShort, h')
          else p_bind (NetParser_remove_prefix (unat doff * 4 - TCPHeader_LENGTH)) (\<lambda>_.
               p_bind p_get_error (\<lambda>err. p_return (err, h'))))))))))))"

definition TCPHeader_flags :: "TCPHeader \<Rightarrow> byte" where
  "TCPHeader_flags h =
     (if th_urg h then 0x20 else 0) OR (if th_ack h then 0x10 else 0) OR (if th_psh h then 0x08 else 0) OR
     (if th_rst h then 0x04 else 0) OR (if th_syn h then 0x02 else 0) OR (if th_fin h then 0x01 else 0)"

definition TCPHeader_serialize :: "TCPHeader \<Rightarrow> bytes result" where
  "TCPHeader_serialize h =
     (if unat (th_doff h) < 5 then Inl Runtime_Error
      else let ret = NetUnparser_u16 [] (th_sport h);
               ret = NetUnparser_u16 ret (th_dport h);
               ret = NetUnparser_u32 ret (th_seqno h);
               ret = NetUnparser_u32 ret (th_ackno h);
               ret = NetUnparser_u8 ret (push_bit 4 (th_doff h));
               ret = NetUnparser_u8 ret (TCPHeader_flags h);
               ret = NetUnparser_u16 ret (th_win h);
               ret = NetUnparser_u16 ret (th_cksum h);
               ret = NetUnparser_u16 ret (th_uptr h)
           in Inr (string_resize ret (4 * unat (th_doff h))))"

text \<open>\<open>operator==\<close> leaves out the ports and the checksum.\<close>

definition TCPHeader_eq :: "TCPHeader \<Rightarrow> TCPHeader \<Rightarrow> bool" where
  "TCPHeader_eq h other \<longleftrightarrow>
     th_seqno h = th_seqno other \<and> th_ackno h = th_ackno other \<and> th_doff h = th_doff other \<and>
     th_urg h = th_urg other \<and> th_ack h = th_ack other \<and> th_psh h = th_psh other \<and>
     th_rst h = th_rst other \<and> th_syn h = th_syn other \<and> th_fin h = th_fin other \<and>
     th_win h = th_win other \<and> th_uptr h = th_uptr other"

section \<open>TCPSegment\<close>

record TCPSegment =
  seg_header :: TCPHeader
  seg_payload :: Buffer

definition TCPSegment_default :: TCPSegment where
  "TCPSegment_default = \<lparr>seg_header = TCPHeader_default, seg_payload = Buffer_empty\<rparr>"

definition TCPSegment_parse ::
  "TCPSegment \<Rightarrow> Buffer \<Rightarrow> 32 word \<Rightarrow> (ParseResult \<times> TCPSegment) result" where
  "TCPSegment_parse seg buffer datagram_layer_checksum =
     (let check = InternetChecksum_add (InternetChecksum_new datagram_layer_checksum) (Buffer_str buffer)
      in if InternetChecksum_value check \<noteq> 0 then Inr (BadChecksum, seg)
         else bind_result (TCPHeader_parse (seg_header seg) (NetParser_new buffer))
                (\<lambda>((_, header), p). Inr (np_error p, \<lparr>seg_header = header, seg_payload = np_buffer p\<rparr>)))"

definition length_in_sequence_space :: "TCPSegment \<Rightarrow> nat" where
  "length_in_sequence_space seg =
     length (Buffer_str (seg_payload seg)) + (if th_syn (seg_header seg) then 1 else 0) +
     (if th_fin (seg_header seg) then 1 else 0)"

definition TCPSegment_serialize :: "TCPSegment \<Rightarrow> 32 word \<Rightarrow> BufferList result" where
  "TCPSegment_serialize seg datagram_layer_checksum =
     (let header_out = (seg_header seg)\<lparr>th_cksum := 0\<rparr>
      in bind_result (TCPHeader_serialize header_out) (\<lambda>header_bytes.
         let check = InternetChecksum_new datagram_layer_checksum;
             check = InternetChecksum_add check header_bytes;
             check = InternetChecksum_add check (Buffer_str (seg_payload seg));
             header_out = header_out\<lparr>th_cksum := InternetChecksum_value check\<rparr>
         in bind_result (TCPHeader_serialize header_out) (\<lambda>header_bytes.
            let ret = BufferList_append [] (BufferList_new header_bytes)
            in Inr (BufferList_append ret (BufferList_of_Buffer (seg_payload seg))))))"

section \<open>Header round trip\<close>

definition TCPHeader_wf :: "TCPHeader \<Rightarrow> bool" where
  "TCPHeader_wf h \<longleftrightarrow> 5 \<le> unat (th_doff h) \<and> unat (th_doff h) < 16"

text \<open>The bytes before and behind the checksum field.\<close>

definition tcp_pre :: "TCPHeader \<Rightarrow> bytes" where
  "tcp_pre h = u16_bytes (th_sport h) @ u16_bytes (th_dport h) @ u32_bytes (th_seqno h) @
     u32_bytes (th_ackno h) @ u8_bytes (push_bit 4 (th_doff h)) @ u8_bytes (TCPHeader_flags h) @
     u16_bytes (th_win h)"

definition tcp_pad :: "TCPHeader \<Rightarrow> bytes" where
  "tcp_pad h = replicate (4 * unat (th_doff h) - 20) 0"

lemma length_tcp_pre [simp]: "length (tcp_pre h) = 16"
  by (simp add: tcp_pre_def)

lemma TCPHeader_serialize_eq:
  assumes "5 \<le> unat (th_doff h)"
  shows "TCPHeader_serialize h =
    Inr (tcp_pre h @ u16_bytes (th_cksum h) @ u16_bytes (th_uptr h) @ tcp_pad h)"
proof -
  have "length (tcp_pre h @ u16_bytes (th_cksum h) @ u16_bytes (th_uptr h)) \<le> 4 * unat (th_doff h)"
    using assms by simp
  from string_resize_extend [OF this] show ?thesis
    using assms by (simp add: TCPHeader_serialize_def Let_def NetUnparser_append tcp_pre_def tcp_pad_def)
qed

lemma drop_push_bit_nibble: "unat (w :: byte) < 16 \<Longrightarrow> drop_bit 4 (push_bit 4 w) = w"
proof -
  assume "unat w < 16"
  then have "unat (push_bit 4 w) = unat w * 16" by (simp add: push_bit_eq_mult unat_word_ariths mult.commute)
  then have "unat (drop_bit 4 (push_bit 4 w)) = unat w" unfolding unat_drop_bit_eq by (simp add: drop_bit_eq_div)
  then show ?thesis by (simp only: word_unat_eq_iff)
qed

lemma TCPHeader_flags_bits:
  "TCPHeader_flags h AND 0x20 \<noteq> 0 \<longleftrightarrow> th_urg h" "TCPHeader_flags h AND 0x10 \<noteq> 0 \<longleftrightarrow> th_ack h"
  "TCPHeader_flags h AND 0x08 \<noteq> 0 \<longleftrightarrow> th_psh h" "TCPHeader_flags h AND 0x04 \<noteq> 0 \<longleftrightarrow> th_rst h"
  "TCPHeader_flags h AND 0x02 \<noteq> 0 \<longleftrightarrow> th_syn h" "TCPHeader_flags h AND 0x01 \<noteq> 0 \<longleftrightarrow> th_fin h"
  by (simp_all add: TCPHeader_flags_def)

lemma TCPHeader_roundtrip:
  assumes wf: "TCPHeader_wf h" and bs: "TCPHeader_serialize h = Inr bs"
  shows "yields (TCPHeader_parse h0) (bs @ rest) (NoError, h) rest"
proof -
  have doff: "5 \<le> unat (th_doff h)" "unat (th_doff h) < 16" using wf by (simp_all add: TCPHeader_wf_def)
  have bs: "bs = tcp_pre h @ u16_bytes (th_cksum h) @ u16_bytes (th_uptr h) @ tcp_pad h"
    using bs TCPHeader_serialize_eq [OF doff(1)] by simp
  have pad: "unat (th_doff h) * 4 - TCPHeader_LENGTH = length (tcp_pad h)"
    by (simp add: TCPHeader_LENGTH_def tcp_pad_def mult.commute)
  have nibble: "drop_bit 4 (push_bit 4 (th_doff h)) = th_doff h"
    using doff(2) by (rule drop_push_bit_nibble)
  have h: "h0\<lparr>th_sport := th_sport h, th_dport := th_dport h, th_seqno := th_seqno h, th_ackno := th_ackno h,
      th_doff := th_doff h, th_urg := th_urg h, th_ack := th_ack h, th_psh := th_psh h, th_rst := th_rst h,
      th_syn := th_syn h, th_fin := th_fin h, th_win := th_win h, th_cksum := th_cksum h, th_uptr := th_uptr h\<rparr> = h"
    by simp
  show ?thesis
    unfolding bs tcp_pre_def append_assoc TCPHeader_parse_def
    apply (rule yields_bind, rule yields_u16)+
    apply (rule yields_bind, rule yields_u32)+
    apply (rule yields_bind, rule yields_u8)+
    apply (rule yields_bind, rule yields_u16)+
    unfolding Let_def nibble TCPHeader_flags_bits h pad if_not_P [OF leD [OF doff(1)]]
    apply (rule yields_bind, rule yields_remove_prefix, rule refl)
    apply (rule yields_bind, rule yields_get_error, rule yields_return)
    done
qed

interpretation tcp_fmt: wire_format TCPHeader_parse TCPHeader_serialize TCPHeader_wf "\<lambda>_ _. True" "\<lambda>_. True"
  by unfold_locales (simp_all add: TCPHeader_roundtrip TCPHeader_serialize_eq TCPHeader_wf_def)

lemma TCPHeader_parse_safe [safe_intros]: "p_safe (TCPHeader_parse h)"
  unfolding TCPHeader_parse_def Let_def by (intro safe_intros)

section \<open>Segments\<close>

definition TCPSegment_wf :: "TCPSegment \<Rightarrow> bool" where
  "TCPSegment_wf seg \<longleftrightarrow> TCPHeader_wf (seg_header seg) \<and> Buffer_wf (seg_payload seg)"

text \<open>The checksum \<open>serialize\<close> puts into the header.\<close>

definition TCPSegment_cksum :: "TCPSegment \<Rightarrow> 32 word \<Rightarrow> 16 word" where
  "TCPSegment_cksum seg d =
     InternetChecksum_value (InternetChecksum_add (InternetChecksum_new d)
       (tcp_pre (seg_header seg) @ u16_bytes 0 @ u16_bytes (th_uptr (seg_header seg)) @
        tcp_pad (seg_header seg) @ Buffer_str (seg_payload seg)))"

lemma tcp_pre_cksum [simp]: "tcp_pre (h\<lparr>th_cksum := c\<rparr>) = tcp_pre h" "tcp_pad (h\<lparr>th_cksum := c\<rparr>) = tcp_pad h"
  by (simp_all add: tcp_pre_def tcp_pad_def TCPHeader_flags_def)

lemma TCPSegment_serialize_eq:
  assumes "TCPHeader_wf (seg_header seg)"
  shows "\<exists>l bs. TCPSegment_serialize seg d = Inr l \<and>
    TCPHeader_serialize ((seg_header seg)\<lparr>th_cksum := TCPSegment_cksum seg d\<rparr>) = Inr bs \<and>
    BufferList_concatenate l = bs @ Buffer_str (seg_payload seg) \<and> l = [Buffer_new bs, seg_payload seg]"
proof -
  have doff: "5 \<le> unat (th_doff (seg_header seg))" using assms by (simp add: TCPHeader_wf_def)
  then show ?thesis
    by (simp add: TCPSegment_serialize_def TCPHeader_serialize_eq Let_def TCPSegment_cksum_def
        BufferList_append_def BufferList_new_def BufferList_of_Buffer_def flip: InternetChecksum_add_append)
qed

lemma TCPSegment_cksum_valid:
  assumes "TCPHeader_wf (seg_header seg)" "unat d < 2 ^ 19"
    and "TCPHeader_serialize ((seg_header seg)\<lparr>th_cksum := TCPSegment_cksum seg d\<rparr>) = Inr bs"
    and len: "length bs + length (Buffer_str (seg_payload seg)) \<le> 65535"
  shows "InternetChecksum_value (InternetChecksum_add (InternetChecksum_new d) (bs @ Buffer_str (seg_payload seg))) = 0"
proof -
  let ?h = "seg_header seg" and ?ck = "TCPSegment_cksum seg d"
  let ?post = "u16_bytes (th_uptr ?h) @ tcp_pad ?h @ Buffer_str (seg_payload seg)"
  have doff: "5 \<le> unat (th_doff ?h)" using assms by (simp add: TCPHeader_wf_def)
  have bs: "bs @ Buffer_str (seg_payload seg) = tcp_pre ?h @ u16_bytes ?ck @ ?post"
    using assms(3) doff by (simp add: TCPHeader_serialize_eq)
  have "16 + 2 + length ?post \<le> 65535"
    using len arg_cong [OF bs, of length] by simp
  then show ?thesis
    unfolding bs using assms(2)
    by (intro checksum_small) (simp_all add: TCPSegment_cksum_def)
qed


lemma TCPSegment_parse_total_lemma:
  assumes "Buffer_wf b"
  shows "\<exists>r seg'. TCPSegment_parse seg b d = Inr (r, seg') \<and> (Buffer_wf (seg_payload seg) \<longrightarrow> Buffer_wf (seg_payload seg')) \<and>
    (r \<noteq> BadChecksum \<longrightarrow> suffix (Buffer_str (seg_payload seg')) (Buffer_str b))"
proof -
  have "Buffer_wf (np_buffer (NetParser_new b))" "np_str (NetParser_new b) = Buffer_str b"
    using assms by (simp_all add: NetParser_new_def np_str_def)
  then obtain r h p' where "TCPHeader_parse (seg_header seg) (NetParser_new b) = Inr ((r, h), p')"
    "Buffer_wf (np_buffer p')" "suffix (np_str p') (Buffer_str b)"
    using TCPHeader_parse_safe [of "seg_header seg"] by (fastforce simp: p_safe_def)
  then show ?thesis by (auto simp: TCPSegment_parse_def Let_def np_str_def)
qed

lemma TCPSegment_parse_serialized:
  assumes "TCPSegment_wf seg" "unat d < 2 ^ 19" "TCPSegment_serialize seg d = Inr l"
    and "length (BufferList_concatenate l) \<le> 65535"
    and "Buffer_wf b" "Buffer_str b = BufferList_concatenate l"
  shows "\<exists>seg'. TCPSegment_parse seg0 b d = Inr (NoError, seg') \<and>
    seg_header seg' = (seg_header seg)\<lparr>th_cksum := th_cksum (seg_header seg')\<rparr> \<and>
    Buffer_str (seg_payload seg') = Buffer_str (seg_payload seg) \<and> Buffer_wf (seg_payload seg')"
proof -
  let ?h = "(seg_header seg)\<lparr>th_cksum := TCPSegment_cksum seg d\<rparr>"
  have wf: "TCPHeader_wf (seg_header seg)" using assms(1) by (simp add: TCPSegment_wf_def)
  then have wf': "TCPHeader_wf ?h" by (simp add: TCPHeader_wf_def)
  obtain bs where bs: "TCPHeader_serialize ?h = Inr bs"
      "BufferList_concatenate l = bs @ Buffer_str (seg_payload seg)"
    using TCPSegment_serialize_eq [OF wf, of d] assms(3) by auto
  let ?p = "NetParser_new b"
  have p: "np_ok ?p" "np_str ?p = bs @ Buffer_str (seg_payload seg)"
    using assms(5,6) bs(2) by (simp_all add: np_ok_def np_str_def NetParser_new_def)
  obtain p' where p': "TCPHeader_parse (seg_header seg0) ?p = Inr ((NoError, ?h), p')" "np_ok p'"
      "np_str p' = Buffer_str (seg_payload seg)"
    using tcp_fmt.parse_serialized [OF wf' _ _ p(1) bs(1) p(2)] by blast
  have "InternetChecksum_value (InternetChecksum_add (InternetChecksum_new d) (Buffer_str b)) = 0"
    using TCPSegment_cksum_valid [OF wf assms(2) bs(1)] assms(4,6) bs(2) by simp
  then show ?thesis using p' by (simp add: TCPSegment_parse_def Let_def np_ok_def np_str_def)
qed

text \<open>The same segment, but for the ports and the checksum, which whatever carries it fills in.\<close>

definition same_segment :: "TCPSegment \<Rightarrow> TCPSegment \<Rightarrow> bool" where
  "same_segment seg seg' \<longleftrightarrow>
     seg_header seg' = (seg_header seg)\<lparr>th_sport := th_sport (seg_header seg'), th_dport := th_dport (seg_header seg'),
       th_cksum := th_cksum (seg_header seg')\<rparr> \<and>
     Buffer_str (seg_payload seg') = Buffer_str (seg_payload seg)"

lemma same_segment_fields:
  assumes "same_segment seg seg'"
  shows "th_seqno (seg_header seg') = th_seqno (seg_header seg)" "th_syn (seg_header seg') = th_syn (seg_header seg)"
    "th_fin (seg_header seg') = th_fin (seg_header seg)" "th_rst (seg_header seg') = th_rst (seg_header seg)"
    "th_ack (seg_header seg') = th_ack (seg_header seg)" "th_ackno (seg_header seg') = th_ackno (seg_header seg)"
    "Buffer_str (seg_payload seg') = Buffer_str (seg_payload seg)"
proof -
  have "seg_header seg' = (seg_header seg)\<lparr>th_sport := th_sport (seg_header seg'), th_dport := th_dport (seg_header seg'),
       th_cksum := th_cksum (seg_header seg')\<rparr>"
    using assms by (simp add: same_segment_def)
  then show "th_seqno (seg_header seg') = th_seqno (seg_header seg)" "th_syn (seg_header seg') = th_syn (seg_header seg)"
    "th_fin (seg_header seg') = th_fin (seg_header seg)" "th_rst (seg_header seg') = th_rst (seg_header seg)"
    "th_ack (seg_header seg') = th_ack (seg_header seg)" "th_ackno (seg_header seg') = th_ackno (seg_header seg)"
    by (cases "seg_header seg", cases "seg_header seg'", simp)+
  show "Buffer_str (seg_payload seg') = Buffer_str (seg_payload seg)" using assms by (simp add: same_segment_def)
qed

lemma same_segment_refl [simp]: "same_segment seg seg"
  by (simp add: same_segment_def)

section \<open>Properties\<close>

text \<open>C29: what \<open>TCPSegment::serialize\<close> writes, \<open>parse\<close> accepts with the same pseudo-header sum: the
  checksum verifies, the header comes back with every field (and the computed checksum) and the
  payload with every byte, in whatever buffer the bytes arrive.\<close>

theorem TCPSegment_roundtrip:
  assumes "TCPSegment_wf seg" "unat d < 2 ^ 19" "TCPSegment_serialize seg d = Inr l"
    and "length (BufferList_concatenate l) \<le> 65535"
    and "Buffer_wf b" "Buffer_str b = BufferList_concatenate l"
  shows "\<exists>seg'. TCPSegment_parse seg0 b d = Inr (NoError, seg') \<and>
    seg_header seg' = (seg_header seg)\<lparr>th_cksum := th_cksum (seg_header seg')\<rparr> \<and>
    Buffer_str (seg_payload seg') = Buffer_str (seg_payload seg)"
  using TCPSegment_parse_serialized [OF assms] by blast

theorem TCPSegment_roundtrip_witness:
  "\<exists>l seg'. TCPSegment_serialize
        \<lparr>seg_header = TCPHeader_default\<lparr>th_seqno := 7, th_syn := True\<rparr>, seg_payload = Buffer_new [1, 2, 3]\<rparr> 0 = Inr l \<and>
     TCPSegment_parse TCPSegment_default (Buffer_new (BufferList_concatenate l)) 0 = Inr (NoError, seg') \<and>
     Buffer_str (seg_payload seg') = [1, 2, 3]"
proof -
  let ?seg = "\<lparr>seg_header = TCPHeader_default\<lparr>th_seqno := 7, th_syn := True\<rparr>, seg_payload = Buffer_new [1, 2, 3]\<rparr>"
  have wf: "TCPSegment_wf ?seg" "TCPHeader_wf (seg_header ?seg)"
    by (simp_all add: TCPSegment_wf_def TCPHeader_wf_def TCPHeader_default_def)
  obtain l bs where l: "TCPSegment_serialize ?seg 0 = Inr l"
      "TCPHeader_serialize ((seg_header ?seg)\<lparr>th_cksum := TCPSegment_cksum ?seg 0\<rparr>) = Inr bs"
      "BufferList_concatenate l = bs @ [1, 2, 3]"
    using TCPSegment_serialize_eq [OF wf(2), of 0] by auto
  have "length (BufferList_concatenate l) \<le> 65535"
    using l(2) by (simp add: l(3) TCPHeader_serialize_eq tcp_pad_def TCPHeader_default_def) auto
  from TCPSegment_roundtrip [OF wf(1) _ l(1) this, of "Buffer_new (BufferList_concatenate l)" TCPSegment_default]
  show ?thesis using l(1) by auto
qed

text \<open>C30: no byte string makes \<open>TCPSegment::parse\<close> throw; a segment whose checksum does not verify is
  rejected and leaves the object as it was, and an accepted one has a suffix of the input as its
  payload.\<close>

theorem TCPSegment_parse_total:
  assumes "Buffer_wf b"
  shows "\<exists>r seg'. TCPSegment_parse seg b d = Inr (r, seg') \<and>
    (InternetChecksum_value (InternetChecksum_add (InternetChecksum_new d) (Buffer_str b)) \<noteq> 0 \<longrightarrow>
       r = BadChecksum \<and> seg' = seg) \<and>
    (r \<noteq> BadChecksum \<longrightarrow> suffix (Buffer_str (seg_payload seg')) (Buffer_str b))"
  using TCPSegment_parse_total_lemma [OF assms, of seg d] by (auto simp: TCPSegment_parse_def Let_def)

theorem TCPSegment_parse_total_witness:
  "\<exists>r seg'. TCPSegment_parse TCPSegment_default (Buffer_new [1]) 0 = Inr (r, seg')"
  using TCPSegment_parse_total [of "Buffer_new [1]" TCPSegment_default 0] by auto

end
