(* ===== verification/Adapters.thy ===== *)
theory Adapters
  imports Routing TCP_Segments
begin

text \<open>
  The adapters between TCP segments and what carries them: \<open>fd_adapter.hh/.cc\<close>, \<open>tcp_over_ip.hh/.cc\<close>,
  \<open>tuntap_adapter.hh/.cc\<close> and \<open>lossy_fd_adapter.hh\<close> under \<open>src/libsponge/tcp_helpers\<close>, and
  \<open>FdAdapterConfig\<close> of \<open>tcp_config.hh\<close>.

  A \<open>read\<close> takes what the device delivered as an argument, a \<open>write\<close> returns what is given to the device.
\<close>

section \<open>Configuration\<close>

record FdAdapterConfig =
  cfg_source :: Address
  cfg_destination :: Address
  cfg_loss_rate_dn :: "16 word"
  cfg_loss_rate_up :: "16 word"

definition FdAdapterConfig_default :: "resolver \<Rightarrow> FdAdapterConfig result" where
  "FdAdapterConfig_default res =
     bind_result (Address_of_ip res ''0'' 0) (\<lambda>source.
     bind_result (Address_of_ip res ''0'' 0) (\<lambda>destination.
     Inr \<lparr>cfg_source = source, cfg_destination = destination, cfg_loss_rate_dn = 0, cfg_loss_rate_up = 0\<rparr>))"

record FdAdapterBase =
  fa_cfg :: FdAdapterConfig
  fa_listen :: bool

definition FdAdapterBase_new :: "resolver \<Rightarrow> FdAdapterBase result" where
  "FdAdapterBase_new res = bind_result (FdAdapterConfig_default res) (\<lambda>cfg. Inr \<lparr>fa_cfg = cfg, fa_listen = False\<rparr>)"

definition set_listening :: "FdAdapterBase \<Rightarrow> bool \<Rightarrow> FdAdapterBase" where
  "set_listening fa l = fa\<lparr>fa_listen := l\<rparr>"

section \<open>TCP in IPv4\<close>

definition unwrap_tcp_in_ip :: "resolver \<Rightarrow> FdAdapterBase \<Rightarrow> InternetDatagram \<Rightarrow> (TCPSegment option \<times> FdAdapterBase) result" where
  "unwrap_tcp_in_ip res fa ip_dgram =
     bind_result (if fa_listen fa then Inr False
                  else bind_result (Address_ipv4_numeric (cfg_source (fa_cfg fa))) (\<lambda>ip. Inr (ip_dst (dg_header ip_dgram) \<noteq> ip)))
       (\<lambda>not_for_us. if not_for_us then Inr (None, fa) else
     bind_result (if fa_listen fa then Inr False
                  else bind_result (Address_ipv4_numeric (cfg_destination (fa_cfg fa))) (\<lambda>ip. Inr (ip_src (dg_header ip_dgram) \<noteq> ip)))
       (\<lambda>not_from_peer. if not_from_peer then Inr (None, fa) else
     if ip_proto (dg_header ip_dgram) \<noteq> IPv4Header_PROTO_TCP then Inr (None, fa) else
     bind_result (BufferList_to_Buffer (dg_payload ip_dgram)) (\<lambda>payload.
     bind_result (TCPSegment_parse TCPSegment_default payload (IPv4Header_pseudo_cksum (dg_header ip_dgram))) (\<lambda>(result, tcp_seg).
     if result \<noteq> NoError then Inr (None, fa) else
     bind_result (Address_port res (cfg_source (fa_cfg fa))) (\<lambda>own_port.
     if th_dport (seg_header tcp_seg) \<noteq> own_port then Inr (None, fa)
     else if fa_listen fa \<and> \<not> (th_syn (seg_header tcp_seg) \<and> \<not> th_rst (seg_header tcp_seg)) then Inr (None, fa)
     else
     bind_result (if fa_listen fa
                  then bind_result (Address_of_ip res (inet_ntoa (ip_dst (dg_header ip_dgram))) own_port) (\<lambda>source.
                       bind_result (Address_of_ip res (inet_ntoa (ip_src (dg_header ip_dgram))) (th_sport (seg_header tcp_seg))) (\<lambda>destination.
                       Inr (set_listening (fa\<lparr>fa_cfg := (fa_cfg fa)\<lparr>cfg_source := source, cfg_destination := destination\<rparr>\<rparr>) False)))
                  else Inr fa) (\<lambda>fa1.
     bind_result (Address_port res (cfg_destination (fa_cfg fa1))) (\<lambda>peer_port.
     if th_sport (seg_header tcp_seg) \<noteq> peer_port then Inr (None, fa1)
     else Inr (Some tcp_seg, fa1))))))))"

definition set_ports :: "resolver \<Rightarrow> FdAdapterBase \<Rightarrow> TCPSegment \<Rightarrow> TCPSegment result" where
  "set_ports res fa seg =
     bind_result (Address_port res (cfg_source (fa_cfg fa))) (\<lambda>sport.
     bind_result (Address_port res (cfg_destination (fa_cfg fa))) (\<lambda>dport.
     Inr (seg\<lparr>seg_header := (seg_header seg)\<lparr>th_sport := sport, th_dport := dport\<rparr>\<rparr>)))"

definition wrap_tcp_in_ip :: "resolver \<Rightarrow> FdAdapterBase \<Rightarrow> TCPSegment \<Rightarrow> (InternetDatagram \<times> TCPSegment) result" where
  "wrap_tcp_in_ip res fa seg =
     bind_result (set_ports res fa seg) (\<lambda>seg.
     bind_result (Address_ipv4_numeric (cfg_source (fa_cfg fa))) (\<lambda>src.
     bind_result (Address_ipv4_numeric (cfg_destination (fa_cfg fa))) (\<lambda>dst.
     let header = IPv4Header_default\<lparr>ip_src := src, ip_dst := dst\<rparr>;
         header = header\<lparr>ip_len := of_nat (unat (ip_hlen header) * 4 + unat (th_doff (seg_header seg)) * 4 + Buffer_size (seg_payload seg))\<rparr>
     in bind_result (TCPSegment_serialize seg (IPv4Header_pseudo_cksum header)) (\<lambda>payload.
        Inr (\<lparr>dg_header = header, dg_payload = payload\<rparr>, seg)))))"

section \<open>Adapters\<close>

text \<open>Over a TUN device.\<close>

definition TunFdAdapter_read :: "resolver \<Rightarrow> FdAdapterBase \<Rightarrow> bytes \<Rightarrow> (TCPSegment option \<times> FdAdapterBase) result" where
  "TunFdAdapter_read res fa packet =
     bind_result (IPv4Datagram_parse IPv4Datagram_default (Buffer_new packet)) (\<lambda>(result, ip_dgram).
     if result \<noteq> NoError then Inr (None, fa) else unwrap_tcp_in_ip res fa ip_dgram)"

definition TunFdAdapter_write :: "resolver \<Rightarrow> FdAdapterBase \<Rightarrow> TCPSegment \<Rightarrow> (bytes \<times> TCPSegment) result" where
  "TunFdAdapter_write res fa seg =
     bind_result (wrap_tcp_in_ip res fa seg) (\<lambda>(ip_dgram, seg).
     bind_result (IPv4Datagram_serialize ip_dgram) (\<lambda>l. Inr (BufferList_concatenate l, seg)))"

text \<open>Over a UDP socket: the datagram received has a source address and a payload.\<close>

definition UDPSocketAdapter_read :: "FdAdapterBase \<Rightarrow> Address \<Rightarrow> bytes \<Rightarrow> (TCPSegment option \<times> FdAdapterBase) result" where
  "UDPSocketAdapter_read fa source_address payload =
     (if \<not> fa_listen fa \<and> \<not> Address_eq source_address (cfg_destination (fa_cfg fa)) then Inr (None, fa)
      else bind_result (TCPSegment_parse TCPSegment_default (Buffer_new payload) 0) (\<lambda>(result, seg).
           if result \<noteq> NoError then Inr (None, fa)
           else if fa_listen fa then
             (if th_syn (seg_header seg) \<and> \<not> th_rst (seg_header seg)
              then Inr (Some seg, set_listening (fa\<lparr>fa_cfg := (fa_cfg fa)\<lparr>cfg_destination := source_address\<rparr>\<rparr>) False)
              else Inr (None, fa))
           else Inr (Some seg, fa)))"

definition UDPSocketAdapter_write :: "resolver \<Rightarrow> FdAdapterBase \<Rightarrow> TCPSegment \<Rightarrow> ((Address \<times> bytes) \<times> TCPSegment) result" where
  "UDPSocketAdapter_write res fa seg =
     bind_result (set_ports res fa seg) (\<lambda>seg.
     bind_result (TCPSegment_serialize seg 0) (\<lambda>l.
     Inr ((cfg_destination (fa_cfg fa), BufferList_concatenate l), seg)))"

text \<open>Over Ethernet: the network interface is part of the adapter.\<close>

record EthernetAdapter =
  ea_base :: FdAdapterBase
  ea_interface :: NetworkInterface
  ea_next_hop :: Address

definition EthernetAdapter_new :: "resolver \<Rightarrow> EthernetAddress \<Rightarrow> Address \<Rightarrow> Address \<Rightarrow> (bytes \<times> EthernetAdapter) result" where
  "EthernetAdapter_new res eth_address ip_address next_hop =
     bind_result (FdAdapterBase_new res) (\<lambda>base.
     Inr (BufferList_concatenate (EthernetFrame_serialize EthernetFrame_default),
          \<lparr>ea_base = base, ea_interface = NetworkInterface_new eth_address ip_address, ea_next_hop = next_hop\<rparr>))"

definition send_pending :: "EthernetAdapter \<Rightarrow> bytes list \<times> EthernetAdapter" where
  "send_pending ea =
     (map (\<lambda>frame. BufferList_concatenate (EthernetFrame_serialize frame)) (ni_frames_out (ea_interface ea)),
      ea\<lparr>ea_interface := (ea_interface ea)\<lparr>ni_frames_out := []\<rparr>\<rparr>)"

definition EthernetAdapter_read ::
  "resolver \<Rightarrow> EthernetAdapter \<Rightarrow> bytes \<Rightarrow> (TCPSegment option \<times> bytes list \<times> EthernetAdapter) result option" where
  "EthernetAdapter_read res ea packet =
     (case EthernetFrame_parse EthernetFrame_default (Buffer_new packet) of
        Inl e \<Rightarrow> Some (Inl e)
      | Inr (result, frame) \<Rightarrow>
          if result \<noteq> NoError then Some (Inr (None, [], ea))
          else map_option (\<lambda>r. bind_result r (\<lambda>(ip_dgram, ni).
                 let (written, ea1) = send_pending (ea\<lparr>ea_interface := ni\<rparr>)
                 in case ip_dgram of
                      None \<Rightarrow> Inr (None, written, ea1)
                    | Some dgram \<Rightarrow>
                        bind_result (unwrap_tcp_in_ip res (ea_base ea1) dgram) (\<lambda>(seg, base).
                        Inr (seg, written, ea1\<lparr>ea_base := base\<rparr>))))
                 (recv_frame (ea_interface ea) frame))"

definition EthernetAdapter_tick :: "EthernetAdapter \<Rightarrow> nat \<Rightarrow> (bytes list \<times> EthernetAdapter) result option" where
  "EthernetAdapter_tick ea ms_since_last_tick =
     map_option (\<lambda>r. bind_result r (\<lambda>ni. Inr (send_pending (ea\<lparr>ea_interface := ni\<rparr>))))
       (NetworkInterface_tick (ea_interface ea) ms_since_last_tick)"

definition EthernetAdapter_write :: "resolver \<Rightarrow> EthernetAdapter \<Rightarrow> TCPSegment \<Rightarrow> (bytes list \<times> TCPSegment \<times> EthernetAdapter) result" where
  "EthernetAdapter_write res ea seg =
     bind_result (wrap_tcp_in_ip res (ea_base ea) seg) (\<lambda>(dgram, seg).
     bind_result (send_datagram (ea_interface ea) dgram (ea_next_hop ea)) (\<lambda>ni.
     let (written, ea1) = send_pending (ea\<lparr>ea_interface := ni\<rparr>) in Inr (written, seg, ea1)))"

text \<open>With losses: \<open>rand\<close> is the next number of the random generator, used only for a rate that is not zero.\<close>

definition should_drop :: "FdAdapterConfig \<Rightarrow> bool \<Rightarrow> 32 word \<Rightarrow> bool" where
  "should_drop cfg uplink rand =
     (let loss = (if uplink then cfg_loss_rate_up cfg else cfg_loss_rate_dn cfg)
      in loss \<noteq> 0 \<and> (ucast rand :: 16 word) < loss)"

definition LossyFdAdapter_read ::
  "('a \<Rightarrow> FdAdapterConfig) \<Rightarrow> ('a \<Rightarrow> 'w \<Rightarrow> (TCPSegment option \<times> 'a) result) \<Rightarrow> 'a \<Rightarrow> 'w \<Rightarrow> 32 word \<Rightarrow> (TCPSegment option \<times> 'a) result" where
  "LossyFdAdapter_read config read adapter packet rand =
     bind_result (read adapter packet) (\<lambda>(ret, adapter).
     if should_drop (config adapter) False rand then Inr (None, adapter) else Inr (ret, adapter))"

definition LossyFdAdapter_write ::
  "('a \<Rightarrow> FdAdapterConfig) \<Rightarrow> ('a \<Rightarrow> TCPSegment \<Rightarrow> ('w \<times> TCPSegment) result) \<Rightarrow> 'a \<Rightarrow> TCPSegment \<Rightarrow> 32 word \<Rightarrow>
     ('w option \<times> TCPSegment) result" where
  "LossyFdAdapter_write config write adapter seg rand =
     (if should_drop (config adapter) True rand then Inr (None, seg)
      else bind_result (write adapter seg) (\<lambda>(packet, seg). Inr (Some packet, seg)))"


text \<open>The low sixteen bits of the random number are compared with the rate.\<close>

lemma should_drop_iff:
  "should_drop cfg uplink rand \<longleftrightarrow> unat rand mod 2 ^ 16 < unat (if uplink then cfg_loss_rate_up cfg else cfg_loss_rate_dn cfg)"
  by (auto simp: should_drop_def Let_def word_less_nat_alt unsigned_ucast_eq take_bit_eq_mod)

section \<open>Segments that arrive\<close>

text \<open>What a carrier of segments promises: what one peer writes the other reads.\<close>

locale segment_carrier =
  fixes put :: "'a \<Rightarrow> TCPSegment \<Rightarrow> ('w \<times> TCPSegment) result"
    and get :: "'a \<Rightarrow> 'w \<Rightarrow> (TCPSegment option \<times> 'a) result"
    and peers :: "'a \<Rightarrow> 'a \<Rightarrow> bool"
    and fits :: "TCPSegment \<Rightarrow> bool"
  assumes delivers: "peers a b \<Longrightarrow> fits seg \<Longrightarrow>
    \<exists>w seg1 seg2. put a seg = Inr (w, seg1) \<and> get b w = Inr (Some seg2, b) \<and> same_segment seg seg2"
begin

lemma lossy_delivers_or_drops:
  assumes "peers a b" "fits seg"
  shows "if unat r1 mod 2 ^ 16 < unat (cfg_loss_rate_up (config a)) then LossyFdAdapter_write config put a seg r1 = Inr (None, seg)
    else \<exists>p seg1 seg2. LossyFdAdapter_write config put a seg r1 = Inr (Some p, seg1) \<and> same_segment seg seg2 \<and>
      LossyFdAdapter_read config get b p r2 =
        Inr (if unat r2 mod 2 ^ 16 < unat (cfg_loss_rate_dn (config b)) then None else Some seg2, b)"
proof -
  obtain w seg1 seg2 where "put a seg = Inr (w, seg1)" "get b w = Inr (Some seg2, b)" "same_segment seg seg2"
    using delivers [OF assms] by blast
  then show ?thesis by (auto simp: LossyFdAdapter_write_def LossyFdAdapter_read_def should_drop_iff)
qed

lemma lossless_delivers:
  assumes "peers a b" "fits seg" "cfg_loss_rate_up (config a) = 0" "cfg_loss_rate_dn (config b) = 0"
  shows "\<exists>w seg1 seg2. LossyFdAdapter_write config put a seg r1 = Inr (Some w, seg1) \<and>
    LossyFdAdapter_read config get b w r2 = Inr (Some seg2, b) \<and> same_segment seg seg2"
  using delivers [OF assms(1,2)] assms(3,4) by (force simp: LossyFdAdapter_write_def LossyFdAdapter_read_def should_drop_def)

end

text \<open>A segment that fits into an IPv4 datagram, and adapters that are configured for each other.\<close>

definition segment_fits :: "TCPSegment \<Rightarrow> bool" where
  "segment_fits seg \<longleftrightarrow> TCPSegment_wf seg \<and>
     20 + 4 * unat (th_doff (seg_header seg)) + length (Buffer_str (seg_payload seg)) \<le> 65535"

definition fa_peers :: "FdAdapterBase \<Rightarrow> FdAdapterBase \<Rightarrow> bool" where
  "fa_peers a b \<longleftrightarrow> (\<exists>port ip port' ip'.
     cfg_source (fa_cfg a) = ipv4_address port ip \<and> cfg_destination (fa_cfg a) = ipv4_address port' ip' \<and>
     cfg_source (fa_cfg b) = ipv4_address port' ip' \<and> cfg_destination (fa_cfg b) = ipv4_address port ip \<and> \<not> fa_listen b)"

lemma TCPSegment_wf_ports: "TCPSegment_wf seg \<Longrightarrow> TCPSegment_wf (seg\<lparr>seg_header := (seg_header seg)\<lparr>th_sport := p, th_dport := q\<rparr>\<rparr>)"
  by (simp add: TCPSegment_wf_def TCPHeader_wf_def)

text \<open>The datagram that carries a segment between two addresses.\<close>

lemma wrap_tcp_in_ip_eq:
  assumes res: "resolver_ok res" and fit: "segment_fits seg"
    and cfg: "cfg_source (fa_cfg fa) = ipv4_address sport src" "cfg_destination (fa_cfg fa) = ipv4_address dport dst"
  defines "seg1 \<equiv> seg\<lparr>seg_header := (seg_header seg)\<lparr>th_sport := sport, th_dport := dport\<rparr>\<rparr>"
  obtains dg l where "wrap_tcp_in_ip res fa seg = Inr (dg, seg1)" "IPv4Datagram_wf dg"
    "ip_src (dg_header dg) = src" "ip_dst (dg_header dg) = dst" "ip_proto (dg_header dg) = IPv4Header_PROTO_TCP"
    "TCPSegment_serialize seg1 (IPv4Header_pseudo_cksum (dg_header dg)) = Inr l" "dg_payload dg = l"
    "length (BufferList_concatenate l) \<le> 65535" "TCPSegment_wf seg1"
proof -
  let ?n = "20 + 4 * unat (th_doff (seg_header seg)) + length (Buffer_str (seg_payload seg))"
  have wf: "TCPSegment_wf seg1" and n: "?n \<le> 65535" and wfh: "TCPHeader_wf (seg_header seg1)"
    using fit by (simp_all add: segment_fits_def seg1_def TCPSegment_wf_def TCPHeader_wf_def)
  define h where "h = IPv4Header_default\<lparr>ip_src := src, ip_dst := dst, ip_len := of_nat ?n\<rparr>"
  obtain l bs where l: "TCPSegment_serialize seg1 (IPv4Header_pseudo_cksum h) = Inr l"
    "TCPHeader_serialize ((seg_header seg1)\<lparr>th_cksum := TCPSegment_cksum seg1 (IPv4Header_pseudo_cksum h)\<rparr>) = Inr bs"
    "BufferList_concatenate l = bs @ Buffer_str (seg_payload seg1)"
    using TCPSegment_serialize_eq [OF wfh] by blast
  have "length bs = 4 * unat (th_doff (seg_header seg))"
    using l(2) wfh by (auto simp: TCPHeader_serialize_eq TCPHeader_wf_def tcp_pad_def seg1_def)
  then have len: "length (BufferList_concatenate l) = ?n - 20" by (simp add: l(3) seg1_def)
  have un: "unat (of_nat ?n :: 16 word) = ?n" using n by (simp only: unat_of_nat) simp
  let ?dg = "\<lparr>dg_header = h, dg_payload = l\<rparr>"
  have "IPv4Datagram_wf ?dg"
    unfolding IPv4Datagram_wf_def IPv4Header_wf_def using len un by (simp add: h_def IPv4Header_default_def)
  moreover have "wrap_tcp_in_ip res fa seg = Inr (?dg, seg1)"
  proof -
    have "set_ports res fa seg = Inr seg1" using res by (simp add: set_ports_def cfg seg1_def)
    moreover have "IPv4Header_default\<lparr>ip_src := src, ip_dst := dst\<rparr>\<lparr>ip_len := of_nat (unat (ip_hlen (IPv4Header_default\<lparr>ip_src := src, ip_dst := dst\<rparr>)) * 4 +
        unat (th_doff (seg_header seg1)) * 4 + Buffer_size (seg_payload seg1))\<rparr> = h"
      by (simp add: h_def seg1_def IPv4Header_default_def Buffer_size_def)
    ultimately show ?thesis using l(1) by (simp add: wrap_tcp_in_ip_def cfg Let_def)
  qed
  ultimately show ?thesis using that [of ?dg l] l(1) len wf n by (simp add: h_def IPv4Header_default_def)
qed

lemma unwrap_connected:
  assumes res: "resolver_ok res"
    and cfg: "cfg_source (fa_cfg b) = ipv4_address dport dst" "cfg_destination (fa_cfg b) = ipv4_address sport src" "\<not> fa_listen b"
    and dg: "ip_src (dg_header dg) = src" "ip_dst (dg_header dg) = dst" "ip_proto (dg_header dg) = IPv4Header_PROTO_TCP" "dg_payload dg = [pb]"
    and seg: "TCPSegment_parse TCPSegment_default pb (IPv4Header_pseudo_cksum (dg_header dg)) = Inr (NoError, seg)"
      "th_sport (seg_header seg) = sport" "th_dport (seg_header seg) = dport"
  shows "unwrap_tcp_in_ip res b dg = Inr (Some seg, b)"
  using assms by (simp add: unwrap_tcp_in_ip_def BufferList_to_Buffer_def)

lemma unwrap_listening:
  assumes res: "resolver_ok res"
    and cfg: "cfg_source (fa_cfg b) = ipv4_address dport any" "fa_listen b"
    and dg: "ip_src (dg_header dg) = src" "ip_dst (dg_header dg) = dst" "ip_proto (dg_header dg) = IPv4Header_PROTO_TCP" "dg_payload dg = [pb]"
    and seg: "TCPSegment_parse TCPSegment_default pb (IPv4Header_pseudo_cksum (dg_header dg)) = Inr (NoError, seg)"
      "th_sport (seg_header seg) = sport" "th_dport (seg_header seg) = dport"
  shows "unwrap_tcp_in_ip res b dg =
    (if th_syn (seg_header seg) \<and> \<not> th_rst (seg_header seg)
     then Inr (Some seg, \<lparr>fa_cfg = (fa_cfg b)\<lparr>cfg_source := ipv4_address dport dst, cfg_destination := ipv4_address sport src\<rparr>, fa_listen = False\<rparr>)
     else Inr (None, b))"
  using assms by (auto simp: unwrap_tcp_in_ip_def BufferList_to_Buffer_def Address_of_ip_eq set_listening_def)

lemma pseudo_cksum_cksum [simp]: "IPv4Header_pseudo_cksum (h\<lparr>ip_cksum := c\<rparr>) = IPv4Header_pseudo_cksum h"
  by (simp add: IPv4Header_pseudo_cksum_def IPv4Header_payload_length_def)

text \<open>What the other end of a TUN device parses.\<close>

lemma tun_write_eq:
  assumes res: "resolver_ok res" and fit: "segment_fits seg"
    and cfg: "cfg_source (fa_cfg fa) = ipv4_address sport src" "cfg_destination (fa_cfg fa) = ipv4_address dport dst"
  obtains packet seg1 dg seg2 pb where "TunFdAdapter_write res fa seg = Inr (packet, seg1)"
    "IPv4Datagram_parse IPv4Datagram_default (Buffer_new packet) = Inr (NoError, dg)"
    "ip_src (dg_header dg) = src" "ip_dst (dg_header dg) = dst" "ip_proto (dg_header dg) = IPv4Header_PROTO_TCP" "dg_payload dg = [pb]"
    "TCPSegment_parse TCPSegment_default pb (IPv4Header_pseudo_cksum (dg_header dg)) = Inr (NoError, seg2)"
    "th_sport (seg_header seg2) = sport" "th_dport (seg_header seg2) = dport" "same_segment seg seg2"
proof -
  let ?seg1 = "seg\<lparr>seg_header := (seg_header seg)\<lparr>th_sport := sport, th_dport := dport\<rparr>\<rparr>"
  obtain dg l where w: "wrap_tcp_in_ip res fa seg = Inr (dg, ?seg1)" "IPv4Datagram_wf dg"
    "ip_src (dg_header dg) = src" "ip_dst (dg_header dg) = dst" "ip_proto (dg_header dg) = IPv4Header_PROTO_TCP"
    "TCPSegment_serialize ?seg1 (IPv4Header_pseudo_cksum (dg_header dg)) = Inr l" "dg_payload dg = l"
    "length (BufferList_concatenate l) \<le> 65535" "TCPSegment_wf ?seg1"
    by (rule wrap_tcp_in_ip_eq [OF res fit cfg])
  let ?h = "(dg_header dg)\<lparr>ip_cksum := IPv4Datagram_cksum dg\<rparr>" and ?pay = "BufferList_concatenate l"
  let ?packet = "ip_pre ?h @ u16_bytes (ip_cksum ?h) @ ip_post ?h @ ?pay"
  have wr: "TunFdAdapter_write res fa seg = Inr (?packet, ?seg1)"
    by (simp add: TunFdAdapter_write_def w(1,7) IPv4Datagram_serialize_eq [OF w(2)])
  have h: "IPv4Header_wf ?h" "unat (ip_len ?h) = 4 * unat (ip_hlen ?h) + length ?pay"
    using w(2,7) by (simp_all add: IPv4Datagram_wf_def IPv4Header_wf_def)
  obtain pb where pb: "IPv4Datagram_parse IPv4Datagram_default (Buffer_new ?packet) = Inr (NoError, \<lparr>dg_header = ?h, dg_payload = [pb]\<rparr>)"
    "Buffer_str pb = ?pay" "Buffer_wf pb"
    using IPv4Datagram_parse_any_cksum [OF h Buffer_wf_new(1) Buffer_str_new] by blast
  obtain seg2 where seg2: "TCPSegment_parse TCPSegment_default pb (IPv4Header_pseudo_cksum (dg_header dg)) = Inr (NoError, seg2)"
    "seg_header seg2 = (seg_header ?seg1)\<lparr>th_cksum := th_cksum (seg_header seg2)\<rparr>"
    "Buffer_str (seg_payload seg2) = Buffer_str (seg_payload ?seg1)"
    using TCPSegment_parse_serialized [OF w(9) pseudo_cksum_bound w(6,8) pb(3,2)] by blast
  have ports: "th_sport (seg_header seg2) = sport" "th_dport (seg_header seg2) = dport"
    by (subst seg2(2), simp)+
  have same: "same_segment seg seg2" unfolding same_segment_def using seg2(3) ports by (subst seg2(2)) simp
  show ?thesis
    using that [OF wr pb(1) _ _ _ _ _ ports same] w(3-5) seg2(1) by simp
qed

interpretation tun: segment_carrier "TunFdAdapter_write res" "TunFdAdapter_read res" "\<lambda>a b. resolver_ok res \<and> fa_peers a b" segment_fits
  for res
proof
  fix a b seg
  assume peers: "resolver_ok res \<and> fa_peers a b" and fit: "segment_fits seg"
  then obtain port ip port' ip' where cfg: "cfg_source (fa_cfg a) = ipv4_address port ip" "cfg_destination (fa_cfg a) = ipv4_address port' ip'"
    "cfg_source (fa_cfg b) = ipv4_address port' ip'" "cfg_destination (fa_cfg b) = ipv4_address port ip" "\<not> fa_listen b"
    by (auto simp: fa_peers_def)
  from peers have res: "resolver_ok res" by simp
  obtain packet seg1 dg seg2 pb where w: "TunFdAdapter_write res a seg = Inr (packet, seg1)"
    "IPv4Datagram_parse IPv4Datagram_default (Buffer_new packet) = Inr (NoError, dg)"
    "ip_src (dg_header dg) = ip" "ip_dst (dg_header dg) = ip'" "ip_proto (dg_header dg) = IPv4Header_PROTO_TCP" "dg_payload dg = [pb]"
    "TCPSegment_parse TCPSegment_default pb (IPv4Header_pseudo_cksum (dg_header dg)) = Inr (NoError, seg2)"
    "th_sport (seg_header seg2) = port" "th_dport (seg_header seg2) = port'" "same_segment seg seg2"
    by (rule tun_write_eq [OF res fit cfg(1,2)])
  have "TunFdAdapter_read res b packet = Inr (Some seg2, b)"
    using w(2) unwrap_connected [OF res cfg(3-5) w(3-9)] by (simp add: TunFdAdapter_read_def)
  then show "\<exists>w seg1 seg2. TunFdAdapter_write res a seg = Inr (w, seg1) \<and> TunFdAdapter_read res b w = Inr (Some seg2, b) \<and> same_segment seg seg2"
    using w(1,10) by blast
qed

text \<open>Over UDP, when the network delivers a datagram with the address its sender is bound to.\<close>

definition udp_put :: "resolver \<Rightarrow> FdAdapterBase \<Rightarrow> TCPSegment \<Rightarrow> ((Address \<times> bytes) \<times> TCPSegment) result" where
  "udp_put res fa seg =
     bind_result (UDPSocketAdapter_write res fa seg) (\<lambda>((_, payload), seg1). Inr ((cfg_source (fa_cfg fa), payload), seg1))"

definition udp_get :: "FdAdapterBase \<Rightarrow> Address \<times> bytes \<Rightarrow> (TCPSegment option \<times> FdAdapterBase) result" where
  "udp_get fa = (\<lambda>(source_address, payload). UDPSocketAdapter_read fa source_address payload)"

interpretation udp: segment_carrier "udp_put res" udp_get "\<lambda>a b. resolver_ok res \<and> fa_peers a b" segment_fits
  for res
proof
  fix a b seg
  assume peers: "resolver_ok res \<and> fa_peers a b" and fit: "segment_fits seg"
  then obtain port ip port' ip' where cfg: "cfg_source (fa_cfg a) = ipv4_address port ip" "cfg_destination (fa_cfg a) = ipv4_address port' ip'"
    "cfg_source (fa_cfg b) = ipv4_address port' ip'" "cfg_destination (fa_cfg b) = ipv4_address port ip" "\<not> fa_listen b"
    by (auto simp: fa_peers_def)
  let ?seg1 = "seg\<lparr>seg_header := (seg_header seg)\<lparr>th_sport := port, th_dport := port'\<rparr>\<rparr>"
  have wf: "TCPSegment_wf ?seg1" "TCPHeader_wf (seg_header ?seg1)"
    using fit TCPSegment_wf_ports [of seg port' port] by (simp_all add: segment_fits_def TCPSegment_wf_def)
  obtain l bs where l: "TCPSegment_serialize ?seg1 0 = Inr l"
    "TCPHeader_serialize ((seg_header ?seg1)\<lparr>th_cksum := TCPSegment_cksum ?seg1 0\<rparr>) = Inr bs"
    "BufferList_concatenate l = bs @ Buffer_str (seg_payload ?seg1)"
    using TCPSegment_serialize_eq [OF wf(2)] by blast
  have "length bs = 4 * unat (th_doff (seg_header seg))"
    using l(2) wf(2) by (auto simp: TCPHeader_serialize_eq TCPHeader_wf_def tcp_pad_def)
  then have len: "length (BufferList_concatenate l) \<le> 65535" using fit by (simp add: l(3) segment_fits_def)
  have z: "unat (0 :: 32 word) < 2 ^ 19" by simp
  obtain seg2 where seg2: "TCPSegment_parse TCPSegment_default (Buffer_new (BufferList_concatenate l)) 0 = Inr (NoError, seg2)"
    "seg_header seg2 = (seg_header ?seg1)\<lparr>th_cksum := th_cksum (seg_header seg2)\<rparr>"
    "Buffer_str (seg_payload seg2) = Buffer_str (seg_payload ?seg1)"
    using TCPSegment_parse_serialized [OF wf(1) z l(1) len Buffer_wf_new(1) Buffer_str_new] by blast
  have ports: "th_sport (seg_header seg2) = port" "th_dport (seg_header seg2) = port'" by (subst seg2(2), simp)+
  have same: "same_segment seg seg2" unfolding same_segment_def using seg2(3) ports by (subst seg2(2)) simp
  have "udp_put res a seg = Inr ((ipv4_address port ip, BufferList_concatenate l), ?seg1)"
    using peers l(1) by (simp add: udp_put_def UDPSocketAdapter_write_def set_ports_def cfg)
  moreover have "udp_get b (ipv4_address port ip, BufferList_concatenate l) = Inr (Some seg2, b)"
    using seg2(1) by (simp add: udp_get_def UDPSocketAdapter_read_def cfg)
  ultimately show "\<exists>w seg1 seg2. udp_put res a seg = Inr (w, seg1) \<and> udp_get b w = Inr (Some seg2, b) \<and> same_segment seg seg2"
    using same by blast
qed

section \<open>Properties\<close>

text \<open>C11: a segment written by an adapter over IPv4 and read by the adapter configured for the other end
  arrives: with the documented behaviour of \<open>getaddrinfo\<close> and \<open>getnameinfo\<close>, the datagram passes every filter
  and the segment comes back with all its fields and bytes, but for the ports and the checksum that are filled
  in.  So it does over UDP.\<close>

theorem segments_are_carried:
  assumes "resolver_ok res" "fa_peers a b" "segment_fits seg"
  shows "(\<exists>packet seg1 seg2. TunFdAdapter_write res a seg = Inr (packet, seg1) \<and>
      TunFdAdapter_read res b packet = Inr (Some seg2, b) \<and> same_segment seg seg2) \<and>
    (\<exists>dest payload seg1 seg2. UDPSocketAdapter_write res a seg = Inr ((dest, payload), seg1) \<and>
      UDPSocketAdapter_read b (cfg_source (fa_cfg a)) payload = Inr (Some seg2, b) \<and> same_segment seg seg2)"
proof
  show "\<exists>packet seg1 seg2. TunFdAdapter_write res a seg = Inr (packet, seg1) \<and>
      TunFdAdapter_read res b packet = Inr (Some seg2, b) \<and> same_segment seg seg2"
    using tun.delivers assms by blast
  show "\<exists>dest payload seg1 seg2. UDPSocketAdapter_write res a seg = Inr ((dest, payload), seg1) \<and>
      UDPSocketAdapter_read b (cfg_source (fa_cfg a)) payload = Inr (Some seg2, b) \<and> same_segment seg seg2"
    using udp.delivers [of res a b seg] assms by (auto simp: udp_put_def udp_get_def bind_result_Inr_iff)
qed

definition ex_fa :: "16 word \<Rightarrow> 16 word \<Rightarrow> FdAdapterBase" where
  "ex_fa n m = \<lparr>fa_cfg = \<lparr>cfg_source = ipv4_address n (ucast n), cfg_destination = ipv4_address m (ucast m), cfg_loss_rate_dn = 0,
     cfg_loss_rate_up = 100\<rparr>, fa_listen = False\<rparr>"

definition ex_segment :: TCPSegment where
  "ex_segment = \<lparr>seg_header = TCPHeader_default\<lparr>th_seqno := 7, th_syn := True\<rparr>, seg_payload = Buffer_new [1, 2, 3]\<rparr>"

lemma ex_fa_peers: "fa_peers (ex_fa n m) (ex_fa m n)"
  by (simp add: fa_peers_def ex_fa_def) blast

lemma ex_segment_fits: "segment_fits ex_segment"
  by (simp add: segment_fits_def ex_segment_def TCPSegment_wf_def TCPHeader_wf_def TCPHeader_default_def)

theorem segments_are_carried_witness:
  "\<exists>packet seg1 seg2. TunFdAdapter_write numeric_resolver (ex_fa 1 2) ex_segment = Inr (packet, seg1) \<and>
     TunFdAdapter_read numeric_resolver (ex_fa 2 1) packet = Inr (Some seg2, ex_fa 2 1) \<and> same_segment ex_segment seg2"
  using segments_are_carried [OF numeric_resolver_ok ex_fa_peers ex_segment_fits] by blast

text \<open>C22: an adapter with losses drops a segment to be sent exactly when the low sixteen bits of the random number
  are below the configured rate of the uplink, and otherwise sends the datagram of the adapter without losses.  The peer
  drops what arrives exactly when its random number is below its rate of the downlink, and otherwise reads the
  segment that was sent.  A rate of zero drops nothing.\<close>

theorem lossy_adapter_delivers_or_drops:
  assumes "resolver_ok res" "fa_peers a b" "segment_fits seg"
  shows "if unat r1 mod 2 ^ 16 < unat (cfg_loss_rate_up (fa_cfg a))
    then LossyFdAdapter_write fa_cfg (TunFdAdapter_write res) a seg r1 = Inr (None, seg)
    else \<exists>p seg1 seg2. LossyFdAdapter_write fa_cfg (TunFdAdapter_write res) a seg r1 = Inr (Some p, seg1) \<and> same_segment seg seg2 \<and>
      LossyFdAdapter_read fa_cfg (TunFdAdapter_read res) b p r2 =
        Inr (if unat r2 mod 2 ^ 16 < unat (cfg_loss_rate_dn (fa_cfg b)) then None else Some seg2, b)"
  using assms by (intro tun.lossy_delivers_or_drops) simp_all

theorem lossy_adapter_delivers_or_drops_witness:
  "LossyFdAdapter_write fa_cfg (TunFdAdapter_write numeric_resolver) (ex_fa 1 2) ex_segment 99 = Inr (None, ex_segment) \<and>
   (\<exists>p seg1 seg2. LossyFdAdapter_write fa_cfg (TunFdAdapter_write numeric_resolver) (ex_fa 1 2) ex_segment 100 = Inr (Some p, seg1) \<and>
     LossyFdAdapter_read fa_cfg (TunFdAdapter_read numeric_resolver) (ex_fa 2 1) p 0 = Inr (Some seg2, ex_fa 2 1) \<and>
     same_segment ex_segment seg2)"
  using lossy_adapter_delivers_or_drops [OF numeric_resolver_ok ex_fa_peers ex_segment_fits, of 99 1 2 0]
    lossy_adapter_delivers_or_drops [OF numeric_resolver_ok ex_fa_peers ex_segment_fits, of 100 1 2 0]
  by (auto simp: ex_fa_def)

text \<open>C21: a listening adapter ignores every segment without SYN or with RST; a SYN makes it answer from the
  address it was contacted at, to the address and port of the sender, and stop listening.\<close>

theorem listener_learns_peer:
  assumes "resolver_ok res" "segment_fits seg" "cfg_source (fa_cfg a) = ipv4_address sport src" "cfg_destination (fa_cfg a) = ipv4_address dport dst"
    and "fa_listen b" "cfg_source (fa_cfg b) = ipv4_address dport any"
  shows "\<exists>packet seg1 seg2. TunFdAdapter_write res a seg = Inr (packet, seg1) \<and> same_segment seg seg2 \<and>
    TunFdAdapter_read res b packet =
      (if th_syn (seg_header seg) \<and> \<not> th_rst (seg_header seg)
       then Inr (Some seg2, \<lparr>fa_cfg = (fa_cfg b)\<lparr>cfg_source := ipv4_address dport dst, cfg_destination := ipv4_address sport src\<rparr>, fa_listen = False\<rparr>)
       else Inr (None, b))"
proof -
  obtain packet seg1 dg seg2 pb where w: "TunFdAdapter_write res a seg = Inr (packet, seg1)"
    "IPv4Datagram_parse IPv4Datagram_default (Buffer_new packet) = Inr (NoError, dg)"
    "ip_src (dg_header dg) = src" "ip_dst (dg_header dg) = dst" "ip_proto (dg_header dg) = IPv4Header_PROTO_TCP" "dg_payload dg = [pb]"
    "TCPSegment_parse TCPSegment_default pb (IPv4Header_pseudo_cksum (dg_header dg)) = Inr (NoError, seg2)"
    "th_sport (seg_header seg2) = sport" "th_dport (seg_header seg2) = dport" "same_segment seg seg2"
    by (rule tun_write_eq [OF assms(1-4)])
  have flags: "th_syn (seg_header seg2) = th_syn (seg_header seg)" "th_rst (seg_header seg2) = th_rst (seg_header seg)"
    by (subst w(10) [unfolded same_segment_def, THEN conjunct1], simp)+
  have "TunFdAdapter_read res b packet = unwrap_tcp_in_ip res b dg" using w(2) by (simp add: TunFdAdapter_read_def)
  with unwrap_listening [OF assms(1,6,5) w(3-9)] show ?thesis unfolding flags using w(1,10) by (intro exI conjI) simp_all
qed

theorem listener_learns_peer_witness:
  "\<exists>packet seg1 seg2. TunFdAdapter_write numeric_resolver (ex_fa 1 2) ex_segment = Inr (packet, seg1) \<and>
     TunFdAdapter_read numeric_resolver (set_listening (ex_fa 2 0) True) packet = Inr (Some seg2, ex_fa 2 1)"
  using listener_learns_peer [OF numeric_resolver_ok ex_segment_fits, of "ex_fa 1 2" 1 1 2 2 "set_listening (ex_fa 2 0) True" 2]
  by (auto simp: ex_fa_def ex_segment_def set_listening_def TCPHeader_default_def)

end
