(* ===== verification/Printing.thy ===== *)
theory Printing
  imports Adapters
begin

text \<open>
  Text output: the \<open>to_string\<close> and \<open>summary\<close> functions of \<open>tcp_header.cc\<close>, \<open>ipv4_header.cc\<close>,
  \<open>ethernet_header.cc\<close> and \<open>arp_message.cc\<close> under \<open>src/libsponge/tcp_helpers\<close>, and \<open>hexdump\<close> of
  \<open>src/libsponge/util/util.cc\<close>.  A stream is the string it prints; \<open>hex\<close> and \<open>boolalpha\<close> stay in
  force for the whole stream.
\<close>

section \<open>Headers\<close>

abbreviation newline :: string where
  "newline \<equiv> [CHR 0x0A]"

definition TCPHeader_to_string :: "TCPHeader \<Rightarrow> string" where
  "TCPHeader_to_string h =
     ''TCP source port: '' @ to_hex (unat (th_sport h)) @ newline @
     ''TCP dest port: '' @ to_hex (unat (th_dport h)) @ newline @
     ''TCP seqno: '' @ to_hex (unat (th_seqno h)) @ newline @
     ''TCP ackno: '' @ to_hex (unat (th_ackno h)) @ newline @
     ''TCP doff: '' @ to_hex (unat (th_doff h)) @ newline @
     ''Flags: urg: '' @ boolalpha (th_urg h) @ '' ack: '' @ boolalpha (th_ack h) @ '' psh: '' @ boolalpha (th_psh h) @
     '' rst: '' @ boolalpha (th_rst h) @ '' syn: '' @ boolalpha (th_syn h) @ '' fin: '' @ boolalpha (th_fin h) @ newline @
     ''TCP winsize: '' @ to_hex (unat (th_win h)) @ newline @
     ''TCP cksum: '' @ to_hex (unat (th_cksum h)) @ newline @
     ''TCP uptr: '' @ to_hex (unat (th_uptr h)) @ newline"

definition TCPHeader_summary :: "TCPHeader \<Rightarrow> string" where
  "TCPHeader_summary h =
     ''Header(flags='' @ (if th_syn h then ''S'' else '''') @ (if th_ack h then ''A'' else '''') @
     (if th_rst h then ''R'' else '''') @ (if th_fin h then ''F'' else '''') @
     '',seqno='' @ to_string (unat (th_seqno h)) @ '',ack='' @ to_string (unat (th_ackno h)) @
     '',win='' @ to_string (unat (th_win h)) @ '')''"

definition IPv4Header_to_string :: "IPv4Header \<Rightarrow> string" where
  "IPv4Header_to_string h =
     ''IP version: '' @ to_hex (unat (ip_ver h)) @ newline @
     ''IP hdr len: '' @ to_hex (unat (ip_hlen h)) @ newline @
     ''IP tos: '' @ to_hex (unat (ip_tos h)) @ newline @
     ''IP dgram len: '' @ to_hex (unat (ip_len h)) @ newline @
     ''IP id: '' @ to_hex (unat (ip_id h)) @ newline @
     ''Flags: df: '' @ boolalpha (ip_df h) @ '' mf: '' @ boolalpha (ip_mf h) @ newline @
     ''Offset: '' @ to_hex (unat (ip_offset h)) @ newline @
     ''TTL: '' @ to_hex (unat (ip_ttl h)) @ newline @
     ''Protocol: '' @ to_hex (unat (ip_proto h)) @ newline @
     ''Checksum: '' @ to_hex (unat (ip_cksum h)) @ newline @
     ''Src addr: '' @ to_hex (unat (ip_src h)) @ newline @
     ''Dst addr: '' @ to_hex (unat (ip_dst h)) @ newline"

definition IPv4Header_summary :: "IPv4Header \<Rightarrow> string" where
  "IPv4Header_summary h =
     ''IPv'' @ to_hex (unat (ip_ver h)) @ '', '' @
     ''len='' @ to_hex (unat (ip_len h)) @ '', '' @
     ''protocol='' @ to_hex (unat (ip_proto h)) @ '', '' @
     (if ip_ttl h \<ge> 10 then '''' else ''ttl='' @ to_string (unat (ip_ttl h)) @ '', '') @
     ''src='' @ inet_ntoa (ip_src h) @ '', '' @ ''dst='' @ inet_ntoa (ip_dst h)"

fun EthernetAddress_to_string :: "EthernetAddress \<Rightarrow> string" where
  "EthernetAddress_to_string [] = ''''"
| "EthernetAddress_to_string [b] = zero_fill 2 (to_hex (unat b))"
| "EthernetAddress_to_string (b # bs) = zero_fill 2 (to_hex (unat b)) @ '':'' @ EthernetAddress_to_string bs"

definition EthernetHeader_to_string :: "EthernetHeader \<Rightarrow> string" where
  "EthernetHeader_to_string h =
     ''dst='' @ EthernetAddress_to_string (eth_dst h) @ '', src='' @ EthernetAddress_to_string (eth_src h) @ '', type='' @
     (if eth_type h = TYPE_IPv4 then ''IPv4''
      else if eth_type h = TYPE_ARP then ''ARP''
      else ''[unknown type '' @ to_hex (unat (eth_type h)) @ ''!]'')"

definition ARPMessage_to_string :: "ARPMessage \<Rightarrow> string" where
  "ARPMessage_to_string arp =
     (let opcode_str = ''(unknown type)'';
          opcode_str = (if arp_opcode arp = OPCODE_REQUEST then ''REQUEST'' else opcode_str);
          opcode_str = (if arp_opcode arp = OPCODE_REPLY then ''REPLY'' else opcode_str)
      in ''opcode='' @ opcode_str @ '', sender='' @ EthernetAddress_to_string (arp_sender_ethernet_address arp) @ ''/'' @
         inet_ntoa (arp_sender_ip_address arp) @ '', target='' @ EthernetAddress_to_string (arp_target_ethernet_address arp) @
         ''/'' @ inet_ntoa (arp_target_ip_address arp))"

section \<open>Hexdump\<close>

text \<open>The stream \<open>pchars\<close> starts with a blank, which the first character written to it overwrites: \<open>pchars\<close>
  is what was written, and \<open>pchars_str\<close> its string.  For fewer than \<open>2 ^ 31\<close> bytes.\<close>

definition pchars_str :: "string \<Rightarrow> string" where
  "pchars_str pchars = (if pchars = [] then '' '' else pchars)"

definition isprint :: "byte \<Rightarrow> bool" where
  "isprint b \<longleftrightarrow> 0x20 \<le> b \<and> b \<le> 0x7e"

fun hexdump_loop :: "string \<Rightarrow> bytes \<Rightarrow> nat \<Rightarrow> string \<Rightarrow> string \<Rightarrow> string \<times> nat \<times> string" where
  "hexdump_loop indent_string [] printed pchars out = (out, printed, pchars)"
| "hexdump_loop indent_string (b # bs) printed pchars out =
     (let (pchars, out) =
        (if printed mod 16 = 0 then
           (let (pchars, out) = (if printed \<noteq> 0 then ([], out @ ''    '' @ pchars_str pchars @ newline) else (pchars, out))
            in (pchars, out @ indent_string @ zero_fill 8 (to_hex printed) @ '':    ''))
         else if printed mod 2 = 0 then (pchars, out @ '' '')
         else (pchars, out))
      in hexdump_loop indent_string bs (printed + 1)
           (pchars @ [if isprint b then char_of (unat b) else CHR ''.''])
           (out @ zero_fill 2 (to_hex (unat b))))"

definition hexdump :: "bytes \<Rightarrow> nat \<Rightarrow> string" where
  "hexdump data indent =
     (let (out, printed, pchars) = hexdump_loop (replicate indent (CHR '' '')) data 0 [] [];
          print_rem = (16 - printed mod 16) mod 16
      in out @ replicate (2 * print_rem + print_rem div 2 + 4) (CHR '' '') @ pchars_str pchars @ newline @ newline)"

section \<open>Properties\<close>

text \<open>The shape of a printed Ethernet address: six times two hexadecimal digits with colons between.\<close>

definition hex_digits :: string where
  "hex_digits = ''0123456789abcdef''"

definition ethernet_text :: "string \<Rightarrow> bool" where
  "ethernet_text s \<longleftrightarrow>
     list_all2 (\<lambda>is_digit c. if is_digit then c \<in> set hex_digits else c = CHR '':'')
       [True, True, False, True, True, False, True, True, False, True, True, False, True, True, False, True, True] s"

definition hex_pair :: "byte \<Rightarrow> string" where
  "hex_pair b = zero_fill 2 (to_hex (unat b))"

lemma hex_pair_eq: "hex_pair b = [digit (unat b div 16), digit (unat b mod 16)]"
proof -
  have b: "unat b < 256" using unsigned_less [of b] by simp
  show ?thesis
  proof (cases "unat b < 16")
    case True
    then show ?thesis by (simp add: hex_pair_def zero_fill_def to_hex_def print_base.simps [of 16 "unat b"] digit_def)
  next
    case False
    then have "unat b div 16 < 16" using b by simp
    then show ?thesis
      using False by (simp add: hex_pair_def zero_fill_def to_hex_def print_base.simps [of 16 "unat b"] print_base.simps [of 16 "unat b div 16"])
  qed
qed

lemma digit_hex: "d < 16 \<Longrightarrow> digit d \<in> set hex_digits"
  unfolding digit_def hex_digits_def by (rule nth_mem) simp

lemma hex_pair_inj: "hex_pair a = hex_pair b \<Longrightarrow> a = b"
proof -
  assume eq: "hex_pair a = hex_pair b"
  have "unat a < 256" "unat b < 256" using unsigned_less [of a] unsigned_less [of b] by simp_all
  then have "unat a div 16 < 16" "unat b div 16 < 16" by simp_all
  then have "unat a div 16 = unat b div 16" "unat a mod 16 = unat b mod 16"
    using eq digit_inj [of "unat a div 16" "unat b div 16"] digit_inj [of "unat a mod 16" "unat b mod 16"] by (simp_all add: hex_pair_eq)
  then have "unat a = unat b" by (metis div_mult_mod_eq)
  then show "a = b" by (simp add: unsigned_word_eqI)
qed

lemma EthernetAddress_six:
  assumes "length a = 6"
  shows "\<exists>a0 a1 a2 a3 a4 a5. a = [a0, a1, a2, a3, a4, a5] \<and>
    EthernetAddress_to_string a = hex_pair a0 @ '':'' @ hex_pair a1 @ '':'' @ hex_pair a2 @ '':'' @ hex_pair a3 @ '':'' @ hex_pair a4 @ '':'' @ hex_pair a5"
proof -
  obtain a0 a1 a2 a3 a4 a5 where "a = [a0, a1, a2, a3, a4, a5]"
    using assms by (auto simp: length_Suc_conv eval_nat_numeral)
  then show ?thesis by (simp add: hex_pair_def)
qed

text \<open>C40: a printed Ethernet address has the form \<open>xx:xx:xx:xx:xx:xx\<close> with lower-case hexadecimal
  digits, and different addresses have different texts.\<close>

theorem EthernetAddress_to_string_wf:
  assumes "length a = 6"
  shows "ethernet_text (EthernetAddress_to_string a) \<and>
    (\<forall>b. length b = 6 \<and> EthernetAddress_to_string b = EthernetAddress_to_string a \<longrightarrow> b = a)"
proof
  obtain a0 a1 a2 a3 a4 a5 where a: "a = [a0, a1, a2, a3, a4, a5]"
    "EthernetAddress_to_string a = hex_pair a0 @ '':'' @ hex_pair a1 @ '':'' @ hex_pair a2 @ '':'' @ hex_pair a3 @ '':'' @ hex_pair a4 @ '':'' @ hex_pair a5"
    using EthernetAddress_six [OF assms] by blast
  have d: "digit (unat x div 16) \<in> set hex_digits" "digit (unat x mod 16) \<in> set hex_digits" for x :: byte
    using unat_bounds(1) [of x] by (auto intro!: digit_hex)
  show "ethernet_text (EthernetAddress_to_string a)"
    unfolding ethernet_text_def a(2) hex_pair_eq
    by (simp add: d)
  show "\<forall>b. length b = 6 \<and> EthernetAddress_to_string b = EthernetAddress_to_string a \<longrightarrow> b = a"
  proof (intro allI impI, elim conjE)
    fix b :: EthernetAddress
    assume "length b = 6" and eq: "EthernetAddress_to_string b = EthernetAddress_to_string a"
    then obtain b0 b1 b2 b3 b4 b5 where b: "b = [b0, b1, b2, b3, b4, b5]"
      "EthernetAddress_to_string b = hex_pair b0 @ '':'' @ hex_pair b1 @ '':'' @ hex_pair b2 @ '':'' @ hex_pair b3 @ '':'' @ hex_pair b4 @ '':'' @ hex_pair b5"
      using EthernetAddress_six by blast
    have "hex_pair b0 = hex_pair a0" "hex_pair b1 = hex_pair a1" "hex_pair b2 = hex_pair a2" "hex_pair b3 = hex_pair a3"
      "hex_pair b4 = hex_pair a4" "hex_pair b5 = hex_pair a5"
      using eq unfolding a(2) b(2) by (simp_all add: hex_pair_eq)
    then show "b = a" unfolding a(1) b(1) using hex_pair_inj by blast
  qed
qed

theorem EthernetAddress_to_string_wf_witness:
  "ethernet_text (EthernetAddress_to_string [2, 0, 0, 0, 0, 0xff])"
  using EthernetAddress_to_string_wf [of "[2, 0, 0, 0, 0, 0xff]"] by simp

end
