(* ===== verification/Simulator.thy ===== *)
theory Simulator
  imports Printing "HOL-Library.Multiset"
begin

text \<open>
  The network simulator: \<open>src/apps/network_simulator.cc\<close>, a network of hosts around one router.

  The numbers of the random generator are arguments.  A computation has the type \<open>'a result option\<close>, with
  \<open>None\<close> when an interface does not return.  The unordered map of hosts is a list, in the order of insertion.  The
  messages printed on the way are not modelled, but for \<open>summary\<close>.
\<close>

section \<open>Helpers\<close>

definition random_host_ethernet_address :: "bytes \<Rightarrow> EthernetAddress" where
  "random_host_ethernet_address rd = (let addr = rd[0 := rd ! 0 OR 0x02] in addr[0 := addr ! 0 AND 0xfe])"

definition random_router_ethernet_address :: "bytes \<Rightarrow> EthernetAddress" where
  "random_router_ethernet_address rd = rd[0 := 0x02, 1 := 0, 2 := 0]"

definition ip_of :: "resolver \<Rightarrow> string \<Rightarrow> 32 word result" where
  "ip_of res str = bind_result (Address_of_ip res str 0) Address_ipv4_numeric"

fun clear_queue :: "'a list \<Rightarrow> 'a list \<Rightarrow> 'a list" where
  "clear_queue [] queue2 = queue2"
| "clear_queue (_ # queue1) queue2 = clear_queue queue1 (tl queue2)"

definition text_bytes :: "string \<Rightarrow> bytes" where
  "text_bytes s = map (\<lambda>c. of_nat (of_char c)) s"

definition bytes_text :: "bytes \<Rightarrow> string" where
  "bytes_text bs = map (\<lambda>b. char_of (unat b)) bs"

definition frame_summary :: "EthernetFrame \<Rightarrow> string result" where
  "frame_summary frame =
     (let ret = EthernetHeader_to_string (fr_header frame)
      in if eth_type (fr_header frame) = TYPE_IPv4 then
           bind_result (BufferList_to_Buffer (fr_payload frame)) (\<lambda>payload.
           bind_result (IPv4Datagram_parse IPv4Datagram_default payload) (\<lambda>(result, dgram).
           Inr (if result = NoError
                then ret @ '' '' @ IPv4Header_summary (dg_header dgram) @
                     '' payload='' @ [CHR 0x22] @ bytes_text (BufferList_concatenate (dg_payload dgram)) @ [CHR 0x22]
                else ret @ '' (bad IPv4)'')))
         else if eth_type (fr_header frame) = TYPE_ARP then
           bind_result (BufferList_to_Buffer (fr_payload frame)) (\<lambda>payload.
           bind_result (ARPMessage_parse ARPMessage_default payload) (\<lambda>(result, arp).
           Inr (if result = NoError then ret @ '' '' @ ARPMessage_to_string arp else ret @ '' (bad ARP)'')))
         else Inr ret)"

section \<open>Hosts\<close>

record Host =
  ho_name :: string
  ho_my_address :: Address
  ho_interface :: AsyncNetworkInterface
  ho_next_hop :: Address
  ho_expecting_to_receive :: "InternetDatagram list"

definition same_bytes :: "InternetDatagram \<Rightarrow> InternetDatagram \<Rightarrow> bool result" where
  "same_bytes x expected =
     bind_result (IPv4Datagram_serialize x) (\<lambda>a.
     bind_result (IPv4Datagram_serialize expected) (\<lambda>b. Inr (BufferList_concatenate a = BufferList_concatenate b)))"

fun expecting :: "InternetDatagram list \<Rightarrow> InternetDatagram \<Rightarrow> bool result" where
  "expecting [] expected = Inr False"
| "expecting (x # xs) expected =
     bind_result (same_bytes x expected) (\<lambda>eq. if eq then Inr True else expecting xs expected)"

fun remove_expectation :: "InternetDatagram list \<Rightarrow> InternetDatagram \<Rightarrow> InternetDatagram list result" where
  "remove_expectation [] expected = Inr []"
| "remove_expectation (x # xs) expected =
     bind_result (same_bytes x expected) (\<lambda>eq.
     if eq then Inr xs else bind_result (remove_expectation xs expected) (\<lambda>ys. Inr (x # ys)))"

definition Host_new :: "bytes \<Rightarrow> string \<Rightarrow> Address \<Rightarrow> Address \<Rightarrow> Host" where
  "Host_new rd name my_address next_hop =
     \<lparr>ho_name = name, ho_my_address = my_address,
      ho_interface = AsyncNetworkInterface_of (NetworkInterface_new (random_host_ethernet_address rd) my_address),
      ho_next_hop = next_hop, ho_expecting_to_receive = []\<rparr>"

definition Host_send_to :: "Host \<Rightarrow> Address \<Rightarrow> 8 word \<Rightarrow> 32 word \<Rightarrow> (InternetDatagram \<times> Host) result" where
  "Host_send_to h destination ttl rd =
     bind_result (Address_ipv4_numeric (ho_my_address h)) (\<lambda>src.
     bind_result (Address_ipv4_numeric destination) (\<lambda>dst.
     let payload = BufferList_new (text_bytes (''random payload: {'' @ to_string (unat rd) @ ''}''));
         header = IPv4Header_default\<lparr>ip_src := src, ip_dst := dst\<rparr>;
         header = header\<lparr>ip_len := of_nat (unat (ip_hlen header) * 4 + BufferList_size payload), ip_ttl := ttl\<rparr>;
         dgram = \<lparr>dg_header = header, dg_payload = payload\<rparr>
     in bind_result (send_datagram (ai_interface (ho_interface h)) dgram (ho_next_hop h)) (\<lambda>ni.
        Inr (dgram, h\<lparr>ho_interface := (ho_interface h)\<lparr>ai_interface := ni\<rparr>\<rparr>))))"

definition Host_expect :: "Host \<Rightarrow> InternetDatagram \<Rightarrow> Host" where
  "Host_expect h expected = h\<lparr>ho_expecting_to_receive := ho_expecting_to_receive h @ [expected]\<rparr>"

text \<open>The loop of \<open>check\<close> over the datagrams received, with the expectations that are left.\<close>

fun check_received :: "InternetDatagram list \<Rightarrow> InternetDatagram list \<Rightarrow> InternetDatagram list result" where
  "check_received [] expectations = Inr expectations"
| "check_received (dgram_received # datagrams_out) expectations =
     bind_result (expecting expectations dgram_received) (\<lambda>expected.
     if \<not> expected then Inl Runtime_Error
     else bind_result (remove_expectation expectations dgram_received) (check_received datagrams_out))"

definition Host_check :: "Host \<Rightarrow> Host result" where
  "Host_check h =
     bind_result (check_received (ai_datagrams_out (ho_interface h)) (ho_expecting_to_receive h)) (\<lambda>expectations.
     if expectations \<noteq> [] then Inl Runtime_Error
     else Inr (h\<lparr>ho_interface := (ho_interface h)\<lparr>ai_datagrams_out := []\<rparr>, ho_expecting_to_receive := []\<rparr>))"

section \<open>The network\<close>

record Network =
  nw_router :: Router
  nw_default_id :: nat
  nw_eth0_id :: nat
  nw_eth1_id :: nat
  nw_eth2_id :: nat
  nw_uun3_id :: nat
  nw_hs4_id :: nat
  nw_mit5_id :: nat
  nw_hosts :: "(string \<times> Host) list"

fun deliver :: "EthernetFrame list \<Rightarrow> AsyncNetworkInterface \<Rightarrow> AsyncNetworkInterface result option" where
  "deliver [] dst = Some (Inr dst)"
| "deliver (frame # to_send) dst =
     (let frame = frame\<lparr>fr_payload := BufferList_new (BufferList_concatenate (fr_payload frame))\<rparr>
      in bind_run (Some (frame_summary frame)) (\<lambda>_.
         bind_run (AsyncNetworkInterface_recv_frame dst frame) (deliver to_send)))"

abbreviation ai_frames_out :: "AsyncNetworkInterface \<Rightarrow> EthernetFrame list" where
  "ai_frames_out ai \<equiv> ni_frames_out (ai_interface ai)"

definition clear_frames :: "EthernetFrame list \<Rightarrow> AsyncNetworkInterface \<Rightarrow> AsyncNetworkInterface" where
  "clear_frames frames ai =
     ai\<lparr>ai_interface := (ai_interface ai)\<lparr>ni_frames_out := clear_queue frames (ni_frames_out (ai_interface ai))\<rparr>\<rparr>"

definition exchange_frames2 ::
  "AsyncNetworkInterface \<Rightarrow> AsyncNetworkInterface \<Rightarrow> (AsyncNetworkInterface \<times> AsyncNetworkInterface) result option" where
  "exchange_frames2 x y =
     (let x_frames = ai_frames_out x; y_frames = ai_frames_out y
      in bind_run (deliver x_frames y) (\<lambda>y.
         bind_run (deliver y_frames x) (\<lambda>x.
         Some (Inr (clear_frames x_frames x, clear_frames y_frames y)))))"

definition exchange_frames3 ::
  "AsyncNetworkInterface \<Rightarrow> AsyncNetworkInterface \<Rightarrow> AsyncNetworkInterface \<Rightarrow>
     (AsyncNetworkInterface \<times> AsyncNetworkInterface \<times> AsyncNetworkInterface) result option" where
  "exchange_frames3 x y z =
     (let x_frames = ai_frames_out x; y_frames = ai_frames_out y; z_frames = ai_frames_out z
      in bind_run (deliver x_frames y) (\<lambda>y.
         bind_run (deliver x_frames z) (\<lambda>z.
         bind_run (deliver y_frames x) (\<lambda>x.
         bind_run (deliver y_frames z) (\<lambda>z.
         bind_run (deliver z_frames x) (\<lambda>x.
         bind_run (deliver z_frames y) (\<lambda>y.
         Some (Inr (clear_frames x_frames x, clear_frames y_frames y, clear_frames z_frames z)))))))))"

definition Network_host :: "Network \<Rightarrow> string \<Rightarrow> Host result" where
  "Network_host nw name =
     (case map_of (nw_hosts nw) name of
        None \<Rightarrow> Inl Runtime_Error
      | Some h \<Rightarrow> if ho_name h \<noteq> name then Inl Runtime_Error else Inr h)"

definition set_host :: "Network \<Rightarrow> string \<Rightarrow> Host \<Rightarrow> Network" where
  "set_host nw name h = nw\<lparr>nw_hosts := map (\<lambda>(n, h'). (n, if n = name then h else h')) (nw_hosts nw)\<rparr>"

text \<open>The constructor: \<open>router_rd\<close> and \<open>host_rd\<close> give the random bytes of the interfaces, by their position.
  A host that is inserted twice is inserted once.\<close>

definition Network_add_interface :: "resolver \<Rightarrow> bytes \<Rightarrow> string \<Rightarrow> Router \<Rightarrow> (nat \<times> Router) result" where
  "Network_add_interface res rd ip rt =
     bind_result (Address_of_ip res ip 0) (\<lambda>a.
     Inr (Router_add_interface rt (AsyncNetworkInterface_of (NetworkInterface_new (random_router_ethernet_address rd) a))))"

definition Network_insert_host :: "resolver \<Rightarrow> bytes \<Rightarrow> string \<Rightarrow> string \<Rightarrow> string \<Rightarrow> Network \<Rightarrow> Network result" where
  "Network_insert_host res rd name my_address next_hop nw =
     bind_result (Address_of_ip res my_address 0) (\<lambda>a.
     bind_result (Address_of_ip res next_hop 0) (\<lambda>hop.
     Inr (if map_of (nw_hosts nw) name = None then nw\<lparr>nw_hosts := nw_hosts nw @ [(name, Host_new rd name a hop)]\<rparr> else nw)))"

definition Network_add_route :: "resolver \<Rightarrow> string \<Rightarrow> 8 word \<Rightarrow> Address option \<Rightarrow> nat \<Rightarrow> Network \<Rightarrow> Network result" where
  "Network_add_route res route_prefix prefix_length next_hop interface_num nw =
     bind_result (ip_of res route_prefix) (\<lambda>p.
     Inr (nw\<lparr>nw_router := Router_add_route (nw_router nw) p prefix_length next_hop interface_num\<rparr>))"

definition host_address :: "Network \<Rightarrow> string \<Rightarrow> Address option result" where
  "host_address nw name = bind_result (Network_host nw name) (\<lambda>h. Inr (Some (ho_my_address h)))"

definition Network_interfaces :: "resolver \<Rightarrow> (nat \<Rightarrow> bytes) \<Rightarrow> Network result" where
  "Network_interfaces res router_rd =
     bind_result (Network_add_interface res (router_rd 0) ''171.67.76.46'' Router_new) (\<lambda>(default_id, rt).
     bind_result (Network_add_interface res (router_rd 1) ''10.0.0.1'' rt) (\<lambda>(eth0_id, rt).
     bind_result (Network_add_interface res (router_rd 2) ''172.16.0.1'' rt) (\<lambda>(eth1_id, rt).
     bind_result (Network_add_interface res (router_rd 3) ''192.168.0.1'' rt) (\<lambda>(eth2_id, rt).
     bind_result (Network_add_interface res (router_rd 4) ''198.178.229.1'' rt) (\<lambda>(uun3_id, rt).
     bind_result (Network_add_interface res (router_rd 5) ''143.195.0.2'' rt) (\<lambda>(hs4_id, rt).
     bind_result (Network_add_interface res (router_rd 6) ''128.30.76.255'' rt) (\<lambda>(mit5_id, rt).
     Inr \<lparr>nw_router = rt, nw_default_id = default_id, nw_eth0_id = eth0_id, nw_eth1_id = eth1_id, nw_eth2_id = eth2_id,
          nw_uun3_id = uun3_id, nw_hs4_id = hs4_id, nw_mit5_id = mit5_id, nw_hosts = []\<rparr>)))))))"

definition Network_insert_hosts :: "resolver \<Rightarrow> (nat \<Rightarrow> bytes) \<Rightarrow> Network \<Rightarrow> Network result" where
  "Network_insert_hosts res host_rd nw =
     bind_result (Network_insert_host res (host_rd 0) ''applesauce'' ''10.0.0.2'' ''10.0.0.1'' nw) (\<lambda>nw.
     bind_result (Network_insert_host res (host_rd 1) ''default_router'' ''171.67.76.1'' ''0'' nw) (\<lambda>nw.
     bind_result (Network_insert_host res (host_rd 2) ''cherrypie'' ''192.168.0.2'' ''192.168.0.1'' nw) (\<lambda>nw.
     bind_result (Network_insert_host res (host_rd 3) ''hs_router'' ''143.195.0.1'' ''0'' nw) (\<lambda>nw.
     bind_result (Network_insert_host res (host_rd 4) ''dm42'' ''198.178.229.42'' ''198.178.229.1'' nw) (\<lambda>nw.
     Network_insert_host res (host_rd 5) ''dm43'' ''198.178.229.43'' ''198.178.229.1'' nw)))))"

definition Network_add_routes :: "resolver \<Rightarrow> Network \<Rightarrow> Network result" where
  "Network_add_routes res nw =
     bind_result (host_address nw ''default_router'') (\<lambda>default_router.
     bind_result (Network_add_route res ''0.0.0.0'' 0 default_router (nw_default_id nw) nw) (\<lambda>nw.
     bind_result (Network_add_route res ''10.0.0.0'' 8 None (nw_eth0_id nw) nw) (\<lambda>nw.
     bind_result (Network_add_route res ''172.16.0.0'' 16 None (nw_eth1_id nw) nw) (\<lambda>nw.
     bind_result (Network_add_route res ''192.168.0.0'' 24 None (nw_eth2_id nw) nw) (\<lambda>nw.
     bind_result (Network_add_route res ''198.178.229.0'' 24 None (nw_uun3_id nw) nw) (\<lambda>nw.
     bind_result (host_address nw ''hs_router'') (\<lambda>hs_router.
     bind_result (Network_add_route res ''143.195.0.0'' 17 hs_router (nw_hs4_id nw) nw) (\<lambda>nw.
     bind_result (host_address nw ''hs_router'') (\<lambda>hs_router.
     bind_result (Network_add_route res ''143.195.128.0'' 18 hs_router (nw_hs4_id nw) nw) (\<lambda>nw.
     bind_result (host_address nw ''hs_router'') (\<lambda>hs_router.
     bind_result (Network_add_route res ''143.195.192.0'' 19 hs_router (nw_hs4_id nw) nw) (\<lambda>nw.
     bind_result (Address_of_ip res ''128.30.0.1'' 0) (\<lambda>mit_router.
     Network_add_route res ''128.30.76.255'' 16 (Some mit_router) (nw_mit5_id nw) nw)))))))))))))"

definition Network_new :: "resolver \<Rightarrow> (nat \<Rightarrow> bytes) \<Rightarrow> (nat \<Rightarrow> bytes) \<Rightarrow> Network result" where
  "Network_new res router_rd host_rd =
     bind_result (Network_interfaces res router_rd) (\<lambda>nw.
     bind_result (Network_insert_hosts res host_rd nw) (Network_add_routes res))"

text \<open>One cable: the frames of an interface of the router and of the hosts attached to it.\<close>

definition set_interface :: "Network \<Rightarrow> nat \<Rightarrow> AsyncNetworkInterface \<Rightarrow> Network" where
  "set_interface nw i ai = nw\<lparr>nw_router := (nw_router nw)\<lparr>rt_interfaces := (rt_interfaces (nw_router nw))[i := ai]\<rparr>\<rparr>"

definition connect_host :: "nat \<Rightarrow> string \<Rightarrow> Network \<Rightarrow> Network result option" where
  "connect_host i name nw =
     bind_run (Some (Router_interface (nw_router nw) i)) (\<lambda>x.
     bind_run (Some (Network_host nw name)) (\<lambda>h.
     bind_run (exchange_frames2 x (ho_interface h)) (\<lambda>(x, y).
     Some (Inr (set_host (set_interface nw i x) name (h\<lparr>ho_interface := y\<rparr>))))))"

definition connect_hosts :: "nat \<Rightarrow> string \<Rightarrow> string \<Rightarrow> Network \<Rightarrow> Network result option" where
  "connect_hosts i name1 name2 nw =
     bind_run (Some (Router_interface (nw_router nw) i)) (\<lambda>x.
     bind_run (Some (Network_host nw name1)) (\<lambda>h1.
     bind_run (Some (Network_host nw name2)) (\<lambda>h2.
     bind_run (exchange_frames3 x (ho_interface h1) (ho_interface h2)) (\<lambda>(x, y, z).
     Some (Inr (set_host (set_host (set_interface nw i x) name1 (h1\<lparr>ho_interface := y\<rparr>)) name2 (h2\<lparr>ho_interface := z\<rparr>)))))))"

definition simulate_physical_connections :: "Network \<Rightarrow> Network result option" where
  "simulate_physical_connections nw =
     bind_run (connect_host (nw_default_id nw) ''default_router'' nw) (\<lambda>nw.
     bind_run (connect_host (nw_eth0_id nw) ''applesauce'' nw) (\<lambda>nw.
     bind_run (connect_host (nw_eth2_id nw) ''cherrypie'' nw) (\<lambda>nw.
     bind_run (connect_host (nw_hs4_id nw) ''hs_router'' nw) (\<lambda>nw.
     connect_hosts (nw_uun3_id nw) ''dm42'' ''dm43'' nw))))"

fun simulate_rounds :: "nat \<Rightarrow> Network \<Rightarrow> Network result option" where
  "simulate_rounds 0 nw = Some (Inr nw)"
| "simulate_rounds (Suc n) nw =
     bind_run (Some (Router_route (nw_router nw))) (\<lambda>rt.
     bind_run (simulate_physical_connections (nw\<lparr>nw_router := rt\<rparr>)) (simulate_rounds n))"

fun check_hosts :: "(string \<times> Host) list \<Rightarrow> (string \<times> Host) list result" where
  "check_hosts [] = Inr []"
| "check_hosts ((name, h) # hosts) =
     bind_result (Host_check h) (\<lambda>h. bind_result (check_hosts hosts) (\<lambda>hosts. Inr ((name, h) # hosts)))"

definition Network_simulate :: "Network \<Rightarrow> Network result option" where
  "Network_simulate nw =
     bind_run (simulate_rounds 256 nw) (\<lambda>nw.
     bind_run (Some (check_hosts (nw_hosts nw))) (\<lambda>hosts. Some (Inr (nw\<lparr>nw_hosts := hosts\<rparr>))))"

section \<open>The tests\<close>

text \<open>One host sends, the other is to receive the datagram with its time to live decremented.\<close>

definition test_send :: "string \<Rightarrow> Address \<Rightarrow> 8 word \<Rightarrow> 32 word \<Rightarrow> Network \<Rightarrow> (InternetDatagram \<times> Network) result" where
  "test_send from_host destination ttl rd nw =
     bind_result (Network_host nw from_host) (\<lambda>h.
     bind_result (Host_send_to h destination ttl rd) (\<lambda>(dgram_sent, h). Inr (dgram_sent, set_host nw from_host h)))"

definition test_delivery :: "string \<Rightarrow> Address result \<Rightarrow> string \<Rightarrow> 32 word \<Rightarrow> Network \<Rightarrow> Network result option" where
  "test_delivery from_host destination to_host rd nw =
     bind_run (Some (bind_result destination (\<lambda>a. test_send from_host a 64 rd nw))) (\<lambda>(dgram_sent, nw).
     let dgram_sent = dgram_sent\<lparr>dg_header := (dg_header dgram_sent)\<lparr>ip_ttl := ip_ttl (dg_header dgram_sent) - 1\<rparr>\<rparr>
     in bind_run (Some (Network_host nw to_host)) (\<lambda>h. Network_simulate (set_host nw to_host (Host_expect h dgram_sent))))"

definition test_drop :: "string \<Rightarrow> Address result \<Rightarrow> 8 word \<Rightarrow> 32 word \<Rightarrow> Network \<Rightarrow> Network result option" where
  "test_drop from_host destination ttl rd nw =
     bind_run (Some (bind_result destination (\<lambda>a. test_send from_host a ttl rd nw))) (\<lambda>(_, nw). Network_simulate nw)"

definition address_of_host :: "Network \<Rightarrow> string \<Rightarrow> Address result" where
  "address_of_host nw name = bind_result (Network_host nw name) (\<lambda>h. Inr (ho_my_address h))"

definition network_simulator :: "resolver \<Rightarrow> (nat \<Rightarrow> bytes) \<Rightarrow> (nat \<Rightarrow> bytes) \<Rightarrow> (nat \<Rightarrow> 32 word) \<Rightarrow> unit result option" where
  "network_simulator res router_rd host_rd rd =
     (let addr = (\<lambda>ip. Address_of_ip res ip 0)
      in bind_run (Some (Network_new res router_rd host_rd)) (\<lambda>nw.
         bind_run (test_delivery ''applesauce'' (address_of_host nw ''cherrypie'') ''cherrypie'' (rd 0) nw) (\<lambda>nw.
         bind_run (test_delivery ''cherrypie'' (address_of_host nw ''applesauce'') ''applesauce'' (rd 1) nw) (\<lambda>nw.
         bind_run (test_delivery ''applesauce'' (addr ''1.2.3.4'') ''default_router'' (rd 2) nw) (\<lambda>nw.
         bind_run (test_delivery ''applesauce'' (addr ''143.195.131.17'') ''hs_router'' (rd 3) nw) (\<lambda>nw.
         bind_run (test_delivery ''cherrypie'' (addr ''143.195.193.52'') ''hs_router'' (rd 4) nw) (\<lambda>nw.
         bind_run (test_delivery ''cherrypie'' (addr ''143.195.223.255'') ''hs_router'' (rd 5) nw) (\<lambda>nw.
         bind_run (test_delivery ''cherrypie'' (addr ''143.195.224.0'') ''default_router'' (rd 6) nw) (\<lambda>nw.
         bind_run (test_delivery ''dm42'' (address_of_host nw ''dm43'') ''dm43'' (rd 7) nw) (\<lambda>nw.
         bind_run (test_drop ''applesauce'' (addr ''1.2.3.4'') 1 (rd 8) nw) (\<lambda>nw.
         bind_run (test_drop ''applesauce'' (addr ''1.2.3.4'') 0 (rd 9) nw) (\<lambda>nw.
         Some (Inr ())))))))))))))"

section \<open>A network that works\<close>

text \<open>Every frame on a cable carries an ARP message or a datagram that some interface has made.\<close>

definition good_frame :: "EthernetFrame \<Rightarrow> bool" where
  "good_frame fr \<longleftrightarrow>
     (\<exists>src dst msg. fr = arp_frame src dst msg \<and> ARPMessage_wf msg \<and> ARPMessage_supported msg) \<or>
     (\<exists>src dst dg. fr = ip_frame src dst dg \<and> IPv4Datagram_wf dg)"

definition ni_good :: "NetworkInterface \<Rightarrow> bool" where
  "ni_good ni \<longleftrightarrow> ni_inv ni \<and> (\<forall>w \<in> set (ni_waiting_ip_response ni). IPv4Datagram_wf (snd w)) \<and>
     (\<forall>fr \<in> set (ni_frames_out ni). good_frame fr)"

definition ai_good :: "AsyncNetworkInterface \<Rightarrow> bool" where
  "ai_good ai \<longleftrightarrow> ni_good (ai_interface ai) \<and> (\<forall>dg \<in> set (ai_datagrams_out ai). IPv4Datagram_wf dg)"

lemma good_ip_frame: "IPv4Datagram_wf dg \<Longrightarrow> good_frame (ip_frame src dst dg)"
  unfolding good_frame_def by blast

lemma good_arp_frame: "ARPMessage_wf msg \<Longrightarrow> ARPMessage_supported msg \<Longrightarrow> good_frame (arp_frame src dst msg)"
  unfolding good_frame_def by blast

lemma ni_good_new: "length eth = 6 \<Longrightarrow> hop_ok a \<Longrightarrow> ni_good (NetworkInterface_new eth a)"
  by (simp add: ni_good_def NetworkInterface_new_inv) (simp add: NetworkInterface_new_def)

lemma send_datagram_good:
  assumes good: "ni_good ni" and ok: "hop_ok hop" "IPv4Datagram_wf dg"
  shows "\<exists>ni'. send_datagram ni dg hop = Inr ni' \<and> ni_good ni'"
proof -
  have inv: "ni_inv ni" using good by (simp add: ni_good_def)
  then have own: "hop_ok (ni_ip_address ni)" and six: "length (ni_ethernet_address ni) = 6" by (simp_all add: ni_inv_def)
  have dg: "dgram_ok dg" by (rule IPv4Datagram_wf_ok [OF ok(2)])
  obtain ni' where ni': "send_datagram ni dg hop = Inr ni'" "ni_inv ni'" using send_datagram_inv [OF inv ok(1) dg] by blast
  have req: "good_frame (arp_frame src ETHERNET_BROADCAST (request_msg ni ip))" for src ip
    by (rule good_arp_frame [OF msg_ok(1) [OF six] msg_ok(2)])
  have "set (ni_waiting_ip_response ni') \<subseteq> insert (hop, dg) (set (ni_waiting_ip_response ni)) \<and>
      (\<forall>fr \<in> set (ni_frames_out ni') - set (ni_frames_out ni). good_frame fr)"
  proof (cases "om_find (ni_arp_table ni) (hop_ip hop)")
    case (Some e)
    then show ?thesis using send_datagram_known [OF ok(1) dg Some] ni'(1) good_ip_frame [OF ok(2)] by auto
  next
    case None
    then show ?thesis
      using send_datagram_waiting [OF ok(1) None, of dg] send_datagram_new [OF ok(1) None _ own, of dg] ni'(1) req
      by (cases "om_find (ni_waiting_arp_response ni) (hop_ip hop) = None") auto
  qed
  then have "ni_good ni'" using good ni'(2) ok(2) unfolding ni_good_def by auto
  then show ?thesis using ni'(1) by blast
qed

text \<open>A frame as \<open>deliver\<close> hands it over, with its payload in one buffer.\<close>

definition flat :: "EthernetFrame \<Rightarrow> EthernetFrame" where
  "flat fr = fr\<lparr>fr_payload := BufferList_new (BufferList_concatenate (fr_payload fr))\<rparr>"

lemma flat_eq: "flat fr = \<lparr>fr_header = fr_header fr, fr_payload = [Buffer_new (BufferList_concatenate (fr_payload fr))]\<rparr>"
  by (simp add: flat_def BufferList_new_def BufferList_append_def BufferList_of_Buffer_def)

lemma arp_received_good:
  assumes good: "ni_good ni" and msg: "ARPMessage_wf msg"
  shows "\<exists>ni'. arp_received ni msg = Some (Inr ni') \<and> ni_good ni'"
proof -
  have inv: "ni_inv ni" using good by (simp add: ni_good_def)
  then have six: "length (ni_ethernet_address ni) = 6" "length (arp_sender_ethernet_address msg) = 6"
    using msg by (simp_all add: ni_inv_def ARPMessage_wf_def)
  show ?thesis
  proof (cases "arp_for_us ni msg")
    case True
    from arp_received_spec [OF inv six(2), unfolded if_P [OF True]]
    obtain ni' where ni': "arp_received ni msg = Some (Inr ni')" "ni_inv ni'"
      "ni_waiting_ip_response ni' = filter (\<lambda>w. hop_ip (fst w) \<noteq> arp_sender_ip_address msg) (ni_waiting_ip_response ni)"
      "ni_frames_out ni' = ni_frames_out ni @ arp_replies ni msg @
        map (\<lambda>w. ip_frame (ni_ethernet_address ni) (arp_sender_ethernet_address msg) (snd w))
          (filter (\<lambda>w. hop_ip (fst w) = arp_sender_ip_address msg) (ni_waiting_ip_response ni))" by blast
    have "\<forall>fr \<in> set (arp_replies ni msg). good_frame fr"
      using good_arp_frame [OF msg_ok(3) [OF six] msg_ok(4)] by (simp add: arp_replies_def)
    then have "ni_good ni'" using good ni'(2) unfolding ni_good_def ni'(3,4) by (auto intro: good_ip_frame)
    then show ?thesis using ni'(1) by blast
  next
    case False
    then show ?thesis using arp_received_spec [OF inv six(2), of] good by simp
  qed
qed

lemma recv_frame_good:
  assumes good: "ni_good ni" and fr: "good_frame fr"
  shows "\<exists>d ni'. recv_frame ni (flat fr) = Some (Inr (d, ni')) \<and> ni_good ni' \<and> (\<forall>dg. d = Some dg \<longrightarrow> IPv4Datagram_wf dg)"
proof (cases "eth_dst (fr_header fr) = ni_ethernet_address ni \<or> eth_dst (fr_header fr) = ETHERNET_BROADCAST")
  case False
  then show ?thesis using good by (auto simp: recv_frame_def flat_eq)
next
  case us: True
  from fr consider (arp) src dst msg where "fr = arp_frame src dst msg" "ARPMessage_wf msg" "ARPMessage_supported msg"
    | (ip) src dst dg where "fr = ip_frame src dst dg" "IPv4Datagram_wf dg"
    unfolding good_frame_def by blast
  then show ?thesis
  proof cases
    case arp
    have dst: "dst = ni_ethernet_address ni \<or> dst = ETHERNET_BROADCAST" using us by (simp add: arp(1) arp_frame_def)
    obtain ni' where "arp_received ni msg = Some (Inr ni')" "ni_good ni'" using arp_received_good [OF good arp(2)] by blast
    then show ?thesis
      using recv_arp_payload [OF dst arp(2,3) Buffer_wf_new(1) Buffer_str_new, of src] by (simp add: flat_eq arp(1))
  next
    case ip
    have dst: "dst = ni_ethernet_address ni \<or> dst = ETHERNET_BROADCAST" using us by (simp add: ip(1) ip_frame_def)
    obtain dg' where "recv_frame ni (flat fr) = Some (Inr (Some dg', ni))" "dg_header dg' = (dg_header dg)\<lparr>ip_cksum := IPv4Datagram_cksum dg\<rparr>"
      "BufferList_concatenate (dg_payload dg') = BufferList_concatenate (dg_payload dg)"
      using recv_ip_payload [OF ip(2) dst Buffer_wf_new(1) Buffer_str_new, of src] by (auto simp: flat_eq ip(1))
    moreover from this have "IPv4Datagram_wf dg'" using ip(2) by (simp add: IPv4Datagram_wf_def IPv4Header_wf_def)
    ultimately show ?thesis using good by simp
  qed
qed

lemma frame_summary_total: "\<exists>s. frame_summary (flat fr) = Inr s"
proof -
  let ?b = "Buffer_new (BufferList_concatenate (fr_payload fr))"
  obtain r dg where "IPv4Datagram_parse IPv4Datagram_default ?b = Inr (r, dg)"
    using IPv4Datagram_parse_total_lemma [of ?b IPv4Datagram_default] by auto
  moreover obtain r' m where "ARPMessage_parse ARPMessage_default ?b = Inr (r', m)"
  proof -
    have "Buffer_wf (np_buffer (NetParser_new ?b))" by (simp add: NetParser_new_def)
    then obtain v p' where "ARPMessage_parse_from ARPMessage_default (NetParser_new ?b) = Inr (v, p')"
      using ARPMessage_parse_safe [of ARPMessage_default] unfolding p_safe_def by blast
    then show ?thesis using that by (cases v) (auto simp: ARPMessage_parse_def)
  qed
  ultimately show ?thesis by (auto simp: frame_summary_def flat_eq BufferList_to_Buffer_def Let_def)
qed

lemma deliver_good:
  "ai_good dst \<Longrightarrow> \<forall>fr \<in> set frames. good_frame fr \<Longrightarrow> \<exists>dst'. deliver frames dst = Some (Inr dst') \<and> ai_good dst'"
proof (induction frames arbitrary: dst)
  case (Cons fr frames)
  obtain s where s: "frame_summary (flat fr) = Inr s" using frame_summary_total by blast
  obtain d ni where r: "recv_frame (ai_interface dst) (flat fr) = Some (Inr (d, ni))" "ni_good ni" "\<forall>dg. d = Some dg \<longrightarrow> IPv4Datagram_wf dg"
    using recv_frame_good [of "ai_interface dst" fr] Cons(2,3) by (auto simp: ai_good_def)
  let ?dst = "case d of Some dgram \<Rightarrow> dst\<lparr>ai_interface := ni, ai_datagrams_out := ai_datagrams_out dst @ [dgram]\<rparr>
    | None \<Rightarrow> dst\<lparr>ai_interface := ni\<rparr>"
  have "ai_good ?dst" using Cons(2) r(2,3) by (auto simp: ai_good_def split: option.splits)
  from Cons(1) [OF this] Cons(3) obtain dst' where "deliver frames ?dst = Some (Inr dst')" "ai_good dst'" by auto
  then show ?case
    using s r(1) by (simp add: AsyncNetworkInterface_recv_frame_def flat_def [symmetric] Let_def)
qed simp

lemma set_clear_queue: "set (clear_queue q1 q2) \<subseteq> set q2"
proof (induction q1 q2 rule: clear_queue.induct)
  case (2 x q1 q2)
  then show ?case by (cases q2) auto
qed simp

lemma clear_frames_good: "ai_good ai \<Longrightarrow> ai_good (clear_frames frames ai)"
  using set_clear_queue [of frames "ai_frames_out ai"] by (auto simp: ai_good_def ni_good_def clear_frames_def)

lemma ai_good_frames: "ai_good ai \<Longrightarrow> \<forall>fr \<in> set (ai_frames_out ai). good_frame fr"
  by (simp add: ai_good_def ni_good_def)

lemma exchange_frames2_good:
  assumes "ai_good x" "ai_good y"
  shows "\<exists>x' y'. exchange_frames2 x y = Some (Inr (x', y')) \<and> ai_good x' \<and> ai_good y'"
proof -
  obtain y1 where "deliver (ai_frames_out x) y = Some (Inr y1)" "ai_good y1"
    using deliver_good [OF assms(2) ai_good_frames [OF assms(1)]] by blast
  moreover obtain x1 where "deliver (ai_frames_out y) x = Some (Inr x1)" "ai_good x1"
    using deliver_good [OF assms(1) ai_good_frames [OF assms(2)]] by blast
  ultimately show ?thesis by (simp add: exchange_frames2_def clear_frames_good)
qed

lemma exchange_frames3_good:
  assumes "ai_good x" "ai_good y" "ai_good z"
  shows "\<exists>x' y' z'. exchange_frames3 x y z = Some (Inr (x', y', z')) \<and> ai_good x' \<and> ai_good y' \<and> ai_good z'"
proof -
  note frames = ai_good_frames [OF assms(1)] ai_good_frames [OF assms(2)] ai_good_frames [OF assms(3)]
  obtain y1 where y1: "deliver (ai_frames_out x) y = Some (Inr y1)" "ai_good y1" using deliver_good [OF assms(2) frames(1)] by blast
  obtain z1 where z1: "deliver (ai_frames_out x) z = Some (Inr z1)" "ai_good z1" using deliver_good [OF assms(3) frames(1)] by blast
  obtain x1 where x1: "deliver (ai_frames_out y) x = Some (Inr x1)" "ai_good x1" using deliver_good [OF assms(1) frames(2)] by blast
  obtain z2 where z2: "deliver (ai_frames_out y) z1 = Some (Inr z2)" "ai_good z2" using deliver_good [OF z1(2) frames(2)] by blast
  obtain x2 where x2: "deliver (ai_frames_out z) x1 = Some (Inr x2)" "ai_good x2" using deliver_good [OF x1(2) frames(3)] by blast
  obtain y2 where y2: "deliver (ai_frames_out z) y1 = Some (Inr y2)" "ai_good y2" using deliver_good [OF y1(2) frames(3)] by blast
  show ?thesis using y1 z1 x1 z2 x2 y2 by (simp add: exchange_frames3_def clear_frames_good)
qed

text \<open>The router keeps its interfaces good.\<close>

definition rt_good :: "Router \<Rightarrow> bool" where
  "rt_good rt \<longleftrightarrow> table_ok rt \<and> (\<forall>ai \<in> set (rt_interfaces rt). ai_good ai)"

lemma rt_good_inv: "rt_good rt \<Longrightarrow> rt_inv rt"
  by (auto simp: rt_good_def rt_inv_def ai_good_def ni_good_def IPv4Datagram_wf_ok)

lemma send_all_good:
  "ni_good ni \<Longrightarrow> \<forall>(dg, hop) \<in> set ds. IPv4Datagram_wf dg \<and> hop_ok hop \<Longrightarrow> send_all ni ds = Inr ni' \<Longrightarrow> ni_good ni'"
proof (induction ni ds rule: send_all.induct)
  case (2 ni dg hop ds)
  obtain ni1 where "send_datagram ni dg hop = Inr ni1" "ni_good ni1"
    using send_datagram_good [OF 2(2), of hop dg] 2(3) by auto
  then show ?case using 2(1) [of ni1] 2(3,4) by simp
qed simp

lemma forward_wf:
  assumes "forward (rt_router_table rt) dg = Some (i, dg', hop)" "table_ok rt" "IPv4Datagram_wf dg"
  shows "IPv4Datagram_wf dg'" "hop_ok hop"
proof -
  show "hop_ok hop" using forward_ok(2) [OF assms(1,2) IPv4Datagram_wf_ok [OF assms(3)]] .
  show "IPv4Datagram_wf dg'"
    using assms(1,3) by (auto simp: forward_def IPv4Datagram_wf_def IPv4Header_wf_def split: if_splits)
qed

lemma in_forwarded: "(dg, hop) \<in> set (forwarded table j dgs) \<Longrightarrow> \<exists>d \<in> set dgs. forward table d = Some (j, dg, hop)"
  by (induction dgs) (auto simp: forwarded_def [of _ _ "[]"] forwarded_Cons split: option.splits if_splits)

lemma Router_route_good:
  assumes good: "rt_good rt"
  shows "\<exists>rt'. Router_route rt = Inr rt' \<and> rt_good rt' \<and> length (rt_interfaces rt') = length (rt_interfaces rt)"
proof -
  let ?n = "length (rt_interfaces rt)" and ?dgs = "concat (map (rt_queue rt) [0..<length (rt_interfaces rt)])"
  obtain rt' where rt': "Router_route rt = Inr rt'" "rt_inv rt'" "length (rt_interfaces rt') = ?n" "rt_router_table rt' = rt_router_table rt"
    "\<forall>j < ?n. rt_queue rt' j = []"
    "\<forall>j < ?n. send_all (rt_ni rt j) (forwarded (rt_router_table rt) j ?dgs) = Inr (rt_ni rt' j)"
    using Router_route_upto [OF rt_good_inv [OF good] order_refl] unfolding Router_route_def by auto
  have wf: "\<forall>dg \<in> set ?dgs. IPv4Datagram_wf dg" using good by (auto simp: rt_good_def ai_good_def)
  have t: "table_ok rt" using good by (simp add: rt_good_def)
  have fw: "\<forall>(dg, hop) \<in> set (forwarded (rt_router_table rt) j ?dgs). IPv4Datagram_wf dg \<and> hop_ok hop" for j
  proof (rule ballI)
    fix x assume x: "x \<in> set (forwarded (rt_router_table rt) j ?dgs)"
    obtain dg hop where p: "x = (dg, hop)" by (cases x)
    obtain d where "d \<in> set ?dgs" "forward (rt_router_table rt) d = Some (j, dg, hop)" using in_forwarded [OF x [unfolded p]] by blast
    then show "case x of (dg, hop) \<Rightarrow> IPv4Datagram_wf dg \<and> hop_ok hop" using forward_wf [OF _ t] wf unfolding p by blast
  qed
  have "ai_good (rt_interfaces rt' ! j)" if j: "j < ?n" for j
  proof -
    have "ni_good (rt_ni rt j)" using good j by (simp add: rt_good_def ai_good_def)
    then have "ni_good (rt_ni rt' j)" using send_all_good [OF _ fw] rt'(6) j by blast
    then show ?thesis using rt'(5) j by (simp add: ai_good_def)
  qed
  then have "\<forall>ai \<in> set (rt_interfaces rt'). ai_good ai" unfolding all_set_conv_all_nth rt'(3) by simp
  then show ?thesis using rt' by (simp add: rt_good_def rt_inv_def)
qed

definition host_names :: "string list" where
  "host_names = [''applesauce'', ''default_router'', ''cherrypie'', ''hs_router'', ''dm42'', ''dm43'']"

definition host_good :: "string \<Rightarrow> Host \<Rightarrow> bool" where
  "host_good name h \<longleftrightarrow> ho_name h = name \<and> ai_good (ho_interface h) \<and> hop_ok (ho_my_address h) \<and> hop_ok (ho_next_hop h)"

definition nw_good :: "Network \<Rightarrow> bool" where
  "nw_good nw \<longleftrightarrow> rt_good (nw_router nw) \<and> map fst (nw_hosts nw) = host_names \<and>
     (\<forall>e \<in> set (nw_hosts nw). host_good (fst e) (snd e)) \<and>
     nw_default_id nw < length (rt_interfaces (nw_router nw)) \<and> nw_eth0_id nw < length (rt_interfaces (nw_router nw)) \<and>
     nw_eth2_id nw < length (rt_interfaces (nw_router nw)) \<and> nw_hs4_id nw < length (rt_interfaces (nw_router nw)) \<and>
     nw_uun3_id nw < length (rt_interfaces (nw_router nw))"

lemma Network_host_good:
  assumes good: "nw_good nw" and name: "name \<in> set host_names"
  obtains h where "Network_host nw name = Inr h" "host_good name h"
proof -
  have "name \<in> fst ` set (nw_hosts nw)" using good name unfolding nw_good_def by (metis set_map)
  then obtain h where h: "map_of (nw_hosts nw) name = Some h" using map_of_eq_None_iff [of "nw_hosts nw" name] by fastforce
  then have "host_good name h" using good map_of_SomeD [OF h] by (fastforce simp: nw_good_def)
  then show ?thesis using that h by (simp add: Network_host_def host_good_def)
qed

lemma set_host_good:
  assumes "nw_good nw" "host_good name h"
  shows "nw_good (set_host nw name h)"
proof -
  have "map fst (nw_hosts (set_host nw name h)) = map fst (nw_hosts nw)" by (simp add: set_host_def split_beta)
  moreover have "\<forall>e \<in> set (nw_hosts (set_host nw name h)). host_good (fst e) (snd e)"
    using assms by (auto simp: nw_good_def set_host_def)
  ultimately show ?thesis using assms(1) by (simp add: nw_good_def) (simp add: set_host_def)
qed

lemma set_interface_good:
  assumes "nw_good nw" "ai_good ai"
  shows "nw_good (set_interface nw i ai)"
proof -
  have "rt_good (nw_router (set_interface nw i ai))"
    using assms set_update_subset_insert [of "rt_interfaces (nw_router nw)" i ai]
    by (auto simp: nw_good_def rt_good_def set_interface_def table_ok_def)
  then show ?thesis using assms(1) by (simp add: nw_good_def) (simp add: set_interface_def)
qed

lemma Router_interface_good:
  assumes "nw_good nw" "i < length (rt_interfaces (nw_router nw))"
  obtains ai where "Router_interface (nw_router nw) i = Inr ai" "ai_good ai"
  using assms by (auto simp: nw_good_def rt_good_def Router_interface_def)

lemma connect_host_good:
  assumes good: "nw_good nw" and i: "i < length (rt_interfaces (nw_router nw))" and name: "name \<in> set host_names"
  shows "\<exists>nw'. connect_host i name nw = Some (Inr nw') \<and> nw_good nw'"
proof -
  obtain x where x: "Router_interface (nw_router nw) i = Inr x" "ai_good x" by (rule Router_interface_good [OF good i])
  obtain h where h: "Network_host nw name = Inr h" "host_good name h" by (rule Network_host_good [OF good name])
  have "ai_good (ho_interface h)" using h(2) by (simp add: host_good_def)
  from exchange_frames2_good [OF x(2) this]
  obtain x' y' where e: "exchange_frames2 x (ho_interface h) = Some (Inr (x', y'))" "ai_good x'" "ai_good y'" by blast
  have "host_good name (h\<lparr>ho_interface := y'\<rparr>)" using h(2) e(3) by (simp add: host_good_def)
  from set_host_good [OF set_interface_good [OF good e(2)] this] show ?thesis
    using x(1) h(1) e(1) by (simp add: connect_host_def)
qed

lemma connect_hosts_good:
  assumes good: "nw_good nw" and i: "i < length (rt_interfaces (nw_router nw))" and name: "name1 \<in> set host_names" "name2 \<in> set host_names"
  shows "\<exists>nw'. connect_hosts i name1 name2 nw = Some (Inr nw') \<and> nw_good nw'"
proof -
  obtain x where x: "Router_interface (nw_router nw) i = Inr x" "ai_good x" by (rule Router_interface_good [OF good i])
  obtain h1 where h1: "Network_host nw name1 = Inr h1" "host_good name1 h1" by (rule Network_host_good [OF good name(1)])
  obtain h2 where h2: "Network_host nw name2 = Inr h2" "host_good name2 h2" by (rule Network_host_good [OF good name(2)])
  have "ai_good (ho_interface h1)" "ai_good (ho_interface h2)" using h1(2) h2(2) by (simp_all add: host_good_def)
  from exchange_frames3_good [OF x(2) this]
  obtain x' y' z' where e: "exchange_frames3 x (ho_interface h1) (ho_interface h2) = Some (Inr (x', y', z'))"
    "ai_good x'" "ai_good y'" "ai_good z'" by blast
  have "host_good name1 (h1\<lparr>ho_interface := y'\<rparr>)" "host_good name2 (h2\<lparr>ho_interface := z'\<rparr>)"
    using h1(2) h2(2) e(3,4) by (simp_all add: host_good_def)
  from set_host_good [OF set_host_good [OF set_interface_good [OF good e(2)] this(1)] this(2)] show ?thesis
    using x(1) h1(1) h2(1) e(1) by (simp add: connect_hosts_def)
qed

lemma nw_good_ids:
  assumes "nw_good nw"
  shows "nw_default_id nw < length (rt_interfaces (nw_router nw))" "nw_eth0_id nw < length (rt_interfaces (nw_router nw))"
    "nw_eth2_id nw < length (rt_interfaces (nw_router nw))" "nw_hs4_id nw < length (rt_interfaces (nw_router nw))"
    "nw_uun3_id nw < length (rt_interfaces (nw_router nw))"
  using assms by (simp_all add: nw_good_def)

lemma in_host_names:
  "''applesauce'' \<in> set host_names" "''default_router'' \<in> set host_names" "''cherrypie'' \<in> set host_names"
  "''hs_router'' \<in> set host_names" "''dm42'' \<in> set host_names" "''dm43'' \<in> set host_names"
  by (simp_all add: host_names_def)

lemma simulate_physical_connections_good:
  assumes "nw_good nw"
  shows "\<exists>nw'. simulate_physical_connections nw = Some (Inr nw') \<and> nw_good nw'"
  unfolding simulate_physical_connections_def using assms
  by (intro bind_run_good [where P = nw_good] connect_host_good connect_hosts_good nw_good_ids in_host_names)

lemma simulate_rounds_good:
  "nw_good nw \<Longrightarrow> \<exists>nw'. simulate_rounds n nw = Some (Inr nw') \<and> nw_good nw'"
proof (induction n arbitrary: nw)
  case (Suc n)
  obtain rt where rt: "Router_route (nw_router nw) = Inr rt" "rt_good rt" "length (rt_interfaces rt) = length (rt_interfaces (nw_router nw))"
    using Router_route_good Suc(2) unfolding nw_good_def by blast
  have "nw_good (nw\<lparr>nw_router := rt\<rparr>)" using Suc(2) rt(2,3) by (simp add: nw_good_def)
  from bind_run_good [OF simulate_physical_connections_good [OF this] Suc(1)] show ?case by (simp add: rt(1))
qed simp

text \<open>A host can send to every IPv4 address.\<close>

lemma length_print_base: "1 < b \<Longrightarrow> n < b ^ k \<Longrightarrow> 0 < k \<Longrightarrow> length (print_base b n) \<le> k"
proof (induction b n arbitrary: k rule: print_base.induct)
  case (1 b n)
  show ?case
  proof (cases "n < b")
    case True
    then show ?thesis using 1(4) by (simp add: print_base.simps [of b n])
  next
    case False
    obtain j where k: "k = Suc j" using 1(4) by (cases k) auto
    have "n div b < b ^ j" using 1(2,3) by (simp add: k less_mult_imp_div_less mult.commute)
    moreover have "0 < j" using False 1(3) by (cases j) (simp_all add: k)
    ultimately have "length (print_base b (n div b)) \<le> j" using 1(1) [of j] False 1(2) by simp
    then show ?thesis using False 1(2) by (simp add: print_base.simps [of b n] k)
  qed
qed

lemma Host_send_to_good:
  assumes good: "host_good name h" and dst: "hop_ok destination"
  shows "\<exists>dg h'. Host_send_to h destination ttl rd = Inr (dg, h') \<and> host_good name h' \<and> IPv4Datagram_wf dg"
proof -
  have h: "Address_ipv4_numeric (ho_my_address h) = Inr (hop_ip (ho_my_address h))" "hop_ok (ho_next_hop h)" "ni_good (ai_interface (ho_interface h))"
    using good by (simp_all add: host_good_def hop_ok_def ai_good_def)
  let ?text = "text_bytes (''random payload: {'' @ to_string (unat rd) @ ''}'')"
  have "unat rd < 10 ^ 10" using unat_bounds(3) [of rd] by simp
  then have "length (to_string (unat rd)) \<le> 10" unfolding to_string_def by (intro length_print_base) simp_all
  then have len: "length ?text \<le> 28" by (simp add: text_bytes_def)
  have c: "BufferList_concatenate (BufferList_new ?text) = ?text"
    by (simp add: BufferList_new_def BufferList_append_def BufferList_of_Buffer_def)
  then have sz: "BufferList_size (BufferList_new ?text) = length ?text" using len by (subst BufferList_size_exact) simp_all
  define hd where "hd = IPv4Header_default\<lparr>ip_src := hop_ip (ho_my_address h), ip_dst := hop_ip destination,
    ip_len := of_nat (20 + length ?text), ip_ttl := ttl\<rparr>"
  let ?dg = "\<lparr>dg_header = hd, dg_payload = BufferList_new ?text\<rparr>"
  have "unat (of_nat (20 + length ?text) :: 16 word) = 20 + length ?text" using len by (simp only: unat_of_nat) simp
  then have wf: "IPv4Datagram_wf ?dg" using c by (simp add: hd_def IPv4Datagram_wf_def IPv4Header_wf_def IPv4Header_default_def)
  obtain ni where ni: "send_datagram (ai_interface (ho_interface h)) ?dg (ho_next_hop h) = Inr ni" "ni_good ni"
    using send_datagram_good [OF h(3,2) wf] by blast
  have "Host_send_to h destination ttl rd = Inr (?dg, h\<lparr>ho_interface := (ho_interface h)\<lparr>ai_interface := ni\<rparr>\<rparr>)"
    using h(1) dst ni(1) sz by (simp add: Host_send_to_def hop_ok_def Let_def hd_def IPv4Header_default_def)
  moreover have "host_good name (h\<lparr>ho_interface := (ho_interface h)\<lparr>ai_interface := ni\<rparr>\<rparr>)"
    using good ni(2) by (simp add: host_good_def ai_good_def)
  ultimately show ?thesis using wf by blast
qed

lemma test_send_good:
  assumes "nw_good nw" "name \<in> set host_names" "hop_ok destination"
  shows "\<exists>dg nw'. test_send name destination ttl rd nw = Inr (dg, nw') \<and> nw_good nw'"
proof -
  obtain h where h: "Network_host nw name = Inr h" "host_good name h" by (rule Network_host_good [OF assms(1,2)])
  then show ?thesis using Host_send_to_good [OF h(2) assms(3), of ttl rd] set_host_good [OF assms(1)] by (force simp: test_send_def)
qed

text \<open>The addresses of the network, and what \<open>getaddrinfo\<close> makes of the node \<open>0\<close>: like \<open>inet_aton\<close>, it
  takes a single number for the whole address.\<close>

definition resolver_aton :: "resolver \<Rightarrow> bool" where
  "resolver_aton res \<longleftrightarrow> resolver_ok res \<and>
     getaddrinfo res ''0'' (to_string 0) (make_hints (or AI_NUMERICHOST AI_NUMERICSERV) AF_INET) =
       (0, Some (sockaddr_in 0 0, sizeof_sockaddr_in))"

lemmas text_eval = inet_ntoa_def to_string_def print_base.simps digit_def

lemma quads:
  "''171.67.76.46'' = inet_ntoa 0xab434c2e" "''10.0.0.1'' = inet_ntoa 0x0a000001" "''172.16.0.1'' = inet_ntoa 0xac100001"
  "''192.168.0.1'' = inet_ntoa 0xc0a80001" "''198.178.229.1'' = inet_ntoa 0xc6b2e501" "''143.195.0.2'' = inet_ntoa 0x8fc30002"
  "''128.30.76.255'' = inet_ntoa 0x801e4cff" "''10.0.0.2'' = inet_ntoa 0x0a000002" "''171.67.76.1'' = inet_ntoa 0xab434c01"
  "''192.168.0.2'' = inet_ntoa 0xc0a80002" "''143.195.0.1'' = inet_ntoa 0x8fc30001" "''198.178.229.42'' = inet_ntoa 0xc6b2e52a"
  "''198.178.229.43'' = inet_ntoa 0xc6b2e52b" "''10.0.0.0'' = inet_ntoa 0x0a000000"
  "''172.16.0.0'' = inet_ntoa 0xac100000" "''192.168.0.0'' = inet_ntoa 0xc0a80000" "''198.178.229.0'' = inet_ntoa 0xc6b2e500"
  "''143.195.0.0'' = inet_ntoa 0x8fc30000" "''143.195.128.0'' = inet_ntoa 0x8fc38000" "''143.195.192.0'' = inet_ntoa 0x8fc3c000"
  "''128.30.0.1'' = inet_ntoa 0x801e0001"
  by (simp_all add: text_eval)

lemma Address_quads:
  assumes "resolver_ok res"
  shows "Address_of_ip res ''171.67.76.46'' 0 = Inr (ipv4_address 0 0xab434c2e)" "Address_of_ip res ''10.0.0.1'' 0 = Inr (ipv4_address 0 0x0a000001)"
    "Address_of_ip res ''172.16.0.1'' 0 = Inr (ipv4_address 0 0xac100001)" "Address_of_ip res ''192.168.0.1'' 0 = Inr (ipv4_address 0 0xc0a80001)"
    "Address_of_ip res ''198.178.229.1'' 0 = Inr (ipv4_address 0 0xc6b2e501)" "Address_of_ip res ''143.195.0.2'' 0 = Inr (ipv4_address 0 0x8fc30002)"
    "Address_of_ip res ''128.30.76.255'' 0 = Inr (ipv4_address 0 0x801e4cff)" "Address_of_ip res ''10.0.0.2'' 0 = Inr (ipv4_address 0 0x0a000002)"
    "Address_of_ip res ''171.67.76.1'' 0 = Inr (ipv4_address 0 0xab434c01)" "Address_of_ip res ''192.168.0.2'' 0 = Inr (ipv4_address 0 0xc0a80002)"
    "Address_of_ip res ''143.195.0.1'' 0 = Inr (ipv4_address 0 0x8fc30001)" "Address_of_ip res ''198.178.229.42'' 0 = Inr (ipv4_address 0 0xc6b2e52a)"
    "Address_of_ip res ''198.178.229.43'' 0 = Inr (ipv4_address 0 0xc6b2e52b)" "Address_of_ip res ''128.30.0.1'' 0 = Inr (ipv4_address 0 0x801e0001)"
  unfolding quads by (rule Address_of_ip_eq [OF assms])+

lemma ip_of_inet_ntoa: "resolver_ok res \<Longrightarrow> ip_of res (inet_ntoa ip) = Inr ip"
  by (simp add: ip_of_def Address_of_ip_eq)

lemma ip_of_quads:
  assumes "resolver_ok res"
  shows "ip_of res ''10.0.0.0'' = Inr 0x0a000000" "ip_of res ''172.16.0.0'' = Inr 0xac100000"
    "ip_of res ''192.168.0.0'' = Inr 0xc0a80000" "ip_of res ''198.178.229.0'' = Inr 0xc6b2e500" "ip_of res ''143.195.0.0'' = Inr 0x8fc30000"
    "ip_of res ''143.195.128.0'' = Inr 0x8fc38000" "ip_of res ''143.195.192.0'' = Inr 0x8fc3c000" "ip_of res ''128.30.76.255'' = Inr 0x801e4cff"
  unfolding quads by (rule ip_of_inet_ntoa [OF assms])+

lemma ip_of_zero: "resolver_ok res \<Longrightarrow> ip_of res ''0.0.0.0'' = Inr 0"
  using ip_of_inet_ntoa [of res 0] by (simp add: text_eval)

lemma Address_zero: "resolver_aton res \<Longrightarrow> Address_of_ip res ''0'' 0 = Inr (ipv4_address 0 0)"
  by (simp add: resolver_aton_def Address_of_ip_def Address_resolve_def Address_of_sockaddr_in)

definition new_interface :: "bytes \<Rightarrow> 32 word \<Rightarrow> AsyncNetworkInterface" where
  "new_interface rd ip = AsyncNetworkInterface_of (NetworkInterface_new (random_router_ethernet_address rd) (ipv4_address 0 ip))"

lemma Network_add_interface_eq:
  "Address_of_ip res s 0 = Inr (ipv4_address 0 ip) \<Longrightarrow> length (rt_interfaces rt) < W64 - 1 \<Longrightarrow> Network_add_interface res rd s rt =
     Inr (length (rt_interfaces rt), rt\<lparr>rt_interfaces := rt_interfaces rt @ [new_interface rd ip]\<rparr>)"
  by (simp add: Network_add_interface_def Router_add_interface_def new_interface_def Let_def u64_simps)

lemma Network_interfaces_eq:
  assumes "resolver_ok res"
  shows "\<exists>nw. Network_interfaces res rd = Inr nw \<and> nw_hosts nw = [] \<and> rt_router_table (nw_router nw) = [] \<and>
    rt_interfaces (nw_router nw) = [new_interface (rd 0) 0xab434c2e, new_interface (rd 1) 0x0a000001, new_interface (rd 2) 0xac100001,
      new_interface (rd 3) 0xc0a80001, new_interface (rd 4) 0xc6b2e501, new_interface (rd 5) 0x8fc30002, new_interface (rd 6) 0x801e4cff] \<and>
    nw_default_id nw = 0 \<and> nw_eth0_id nw = 1 \<and> nw_eth1_id nw = 2 \<and> nw_eth2_id nw = 3 \<and> nw_uun3_id nw = 4 \<and> nw_hs4_id nw = 5 \<and> nw_mit5_id nw = 6"
  using Address_quads [OF assms] by (simp add: Network_interfaces_def Network_add_interface_eq Router_new_def W64_def)

text \<open>The network \<open>nw\<close> with the hosts \<open>names\<close> added.\<close>

definition hosts_added :: "Network \<Rightarrow> string list \<Rightarrow> Network \<Rightarrow> bool" where
  "hosts_added nw names nw' \<longleftrightarrow> map fst (nw_hosts nw') = names \<and> (\<forall>e \<in> set (nw_hosts nw'). host_good (fst e) (snd e)) \<and>
     nw'\<lparr>nw_hosts := []\<rparr> = nw\<lparr>nw_hosts := []\<rparr>"

lemma Host_new_good:
  assumes "length rd = 6"
  shows "host_good name (Host_new rd name (ipv4_address 0 ip) (ipv4_address 0 hop))"
  using assms ni_good_new [of "random_host_ethernet_address rd" "ipv4_address 0 ip"]
  by (simp add: host_good_def Host_new_def ai_good_def AsyncNetworkInterface_of_def random_host_ethernet_address_def Let_def)

lemma Network_insert_host_good:
  assumes "hosts_added nw names nw1" "name \<notin> set names" "length rd = 6"
    "Address_of_ip res a 0 = Inr (ipv4_address 0 ip)" "Address_of_ip res b 0 = Inr (ipv4_address 0 hop)"
  shows "\<exists>nw2. Network_insert_host res rd name a b nw1 = Inr nw2 \<and> hosts_added nw (names @ [name]) nw2"
proof -
  have "set names = fst ` set (nw_hosts nw1)" using assms(1) unfolding hosts_added_def by (metis list.set_map)
  then have "map_of (nw_hosts nw1) name = None" using assms(2) by (simp add: map_of_eq_None_iff)
  then show ?thesis using assms Host_new_good [OF assms(3)] by (simp add: Network_insert_host_def hosts_added_def)
qed

lemma bind_result_good:
  assumes "\<exists>x. m = Inr x \<and> P x" "\<And>x. P x \<Longrightarrow> \<exists>y. f x = Inr y \<and> Q y"
  shows "\<exists>y. bind_result m f = Inr y \<and> Q y"
  using assms by force

lemma Network_insert_hosts_good:
  assumes res: "resolver_aton res" and nw: "nw_hosts nw = []" and rd: "\<And>i. length (rd i) = 6"
  shows "\<exists>nw'. Network_insert_hosts res rd nw = Inr nw' \<and> hosts_added nw host_names nw'"
proof -
  have ok: "resolver_ok res" using res by (simp add: resolver_aton_def)
  note addr = Address_quads [OF ok] Address_zero [OF res]
  have "hosts_added nw [] nw" using nw by (simp add: hosts_added_def)
  then have "\<exists>nw'. Network_insert_hosts res rd nw = Inr nw' \<and>
      hosts_added nw (((((([] @ [''applesauce'']) @ [''default_router'']) @ [''cherrypie'']) @ [''hs_router'']) @ [''dm42'']) @ [''dm43'']) nw'"
    unfolding Network_insert_hosts_def
    by (elim Network_insert_host_good [THEN bind_result_good] Network_insert_host_good) (rule rd addr | simp)+
  then show ?thesis by (simp add: host_names_def)
qed

text \<open>The routes lead to the interfaces of the router.\<close>

definition routes_added :: "Network \<Rightarrow> Network \<Rightarrow> bool" where
  "routes_added nw nw' \<longleftrightarrow> table_ok (nw_router nw') \<and>
     nw'\<lparr>nw_router := (nw_router nw')\<lparr>rt_router_table := []\<rparr>\<rparr> = nw\<lparr>nw_router := (nw_router nw)\<lparr>rt_router_table := []\<rparr>\<rparr>"

lemma routes_added_same:
  assumes "routes_added nw nw'"
  shows "rt_interfaces (nw_router nw') = rt_interfaces (nw_router nw)" "nw_hosts nw' = nw_hosts nw"
    "nw_default_id nw' = nw_default_id nw" "nw_eth0_id nw' = nw_eth0_id nw" "nw_eth1_id nw' = nw_eth1_id nw" "nw_eth2_id nw' = nw_eth2_id nw"
    "nw_uun3_id nw' = nw_uun3_id nw" "nw_hs4_id nw' = nw_hs4_id nw" "nw_mit5_id nw' = nw_mit5_id nw"
proof -
  have eq: "nw'\<lparr>nw_router := (nw_router nw')\<lparr>rt_router_table := []\<rparr>\<rparr> = nw\<lparr>nw_router := (nw_router nw)\<lparr>rt_router_table := []\<rparr>\<rparr>"
    using assms by (simp add: routes_added_def)
  show "rt_interfaces (nw_router nw') = rt_interfaces (nw_router nw)" using arg_cong [OF eq, of "\<lambda>n. rt_interfaces (nw_router n)"] by simp
  show "nw_hosts nw' = nw_hosts nw" using arg_cong [OF eq, of nw_hosts] by simp
  show "nw_default_id nw' = nw_default_id nw" using arg_cong [OF eq, of nw_default_id] by simp
  show "nw_eth0_id nw' = nw_eth0_id nw" using arg_cong [OF eq, of nw_eth0_id] by simp
  show "nw_eth1_id nw' = nw_eth1_id nw" using arg_cong [OF eq, of nw_eth1_id] by simp
  show "nw_eth2_id nw' = nw_eth2_id nw" using arg_cong [OF eq, of nw_eth2_id] by simp
  show "nw_uun3_id nw' = nw_uun3_id nw" using arg_cong [OF eq, of nw_uun3_id] by simp
  show "nw_hs4_id nw' = nw_hs4_id nw" using arg_cong [OF eq, of nw_hs4_id] by simp
  show "nw_mit5_id nw' = nw_mit5_id nw" using arg_cong [OF eq, of nw_mit5_id] by simp
qed

lemma Network_add_route_good:
  assumes "routes_added nw nw1" "ip_of res p = Inr q" "\<forall>a. hop = Some a \<longrightarrow> hop_ok a" "i < length (rt_interfaces (nw_router nw1))"
  shows "\<exists>nw2. Network_add_route res p len hop i nw1 = Inr nw2 \<and> routes_added nw nw2"
  using assms by (auto simp: Network_add_route_def Router_add_route_def routes_added_def table_ok_def)

lemma host_address_good:
  assumes "\<forall>e \<in> set (nw_hosts nw). host_good (fst e) (snd e)" "name \<in> set (map fst (nw_hosts nw))"
  shows "\<exists>x. host_address nw name = Inr x \<and> (\<forall>a. x = Some a \<longrightarrow> hop_ok a)"
proof -
  obtain h where h: "map_of (nw_hosts nw) name = Some h" using assms(2) map_of_eq_None_iff [of "nw_hosts nw" name] by fastforce
  then have "host_good name h" using assms(1) map_of_SomeD [OF h] by fastforce
  then show ?thesis using h by (auto simp: host_address_def Network_host_def host_good_def)
qed

lemma Network_add_routes_good:
  assumes res: "resolver_ok res" and t: "table_ok (nw_router nw)"
    and hosts: "\<forall>e \<in> set (nw_hosts nw). host_good (fst e) (snd e)" "map fst (nw_hosts nw) = host_names"
    and ids: "nw_default_id nw < n" "nw_eth0_id nw < n" "nw_eth1_id nw < n" "nw_eth2_id nw < n" "nw_uun3_id nw < n" "nw_hs4_id nw < n"
      "nw_mit5_id nw < n" "length (rt_interfaces (nw_router nw)) = n"
  shows "\<exists>nw'. Network_add_routes res nw = Inr nw' \<and> routes_added nw nw'"
proof -
  have start: "routes_added nw nw" using t by (simp add: routes_added_def)
  have host: "\<exists>x. host_address nw1 name = Inr x \<and> (\<forall>a. x = Some a \<longrightarrow> hop_ok a)" if "routes_added nw nw1" "name \<in> set host_names" for nw1 name
    using host_address_good [of nw1 name] hosts routes_added_same(2) [OF that(1)] that(2) by simp
  have mit: "\<exists>x. Address_of_ip res ''128.30.0.1'' 0 = Inr x \<and> hop_ok x" using Address_quads(14) [OF res] by simp
  have none: "\<forall>a. None = Some a \<longrightarrow> hop_ok a" by simp
  note route = Network_add_route_good [of nw]
  have same: "nw_default_id x < length (rt_interfaces (nw_router x))" "nw_eth0_id x < length (rt_interfaces (nw_router x))"
    "nw_eth1_id x < length (rt_interfaces (nw_router x))" "nw_eth2_id x < length (rt_interfaces (nw_router x))"
    "nw_uun3_id x < length (rt_interfaces (nw_router x))" "nw_hs4_id x < length (rt_interfaces (nw_router x))"
    "nw_mit5_id x < length (rt_interfaces (nw_router x))" if "routes_added nw x" for x
    using ids by (simp_all add: routes_added_same [OF that])
  show ?thesis
    unfolding Network_add_routes_def
    apply (rule bind_result_good [OF host [OF start in_host_names(2)]])
    apply (rule bind_result_good [OF route [OF start ip_of_zero [OF res] _ same(1) [OF start]]], assumption)
    apply (rule bind_result_good [OF route [OF _ ip_of_quads(1) [OF res] none same(2)]], assumption, assumption)
    apply (rule bind_result_good [OF route [OF _ ip_of_quads(2) [OF res] none same(3)]], assumption, assumption)
    apply (rule bind_result_good [OF route [OF _ ip_of_quads(3) [OF res] none same(4)]], assumption, assumption)
    apply (rule bind_result_good [OF route [OF _ ip_of_quads(4) [OF res] none same(5)]], assumption, assumption)
    apply (rule bind_result_good [OF host [OF _ in_host_names(4)]], assumption)
    apply (rule bind_result_good [OF route [OF _ ip_of_quads(5) [OF res] _ same(6)]], assumption, assumption, assumption)
    apply (rule bind_result_good [OF host [OF _ in_host_names(4)]], assumption)
    apply (rule bind_result_good [OF route [OF _ ip_of_quads(6) [OF res] _ same(6)]], assumption, assumption, assumption)
    apply (rule bind_result_good [OF host [OF _ in_host_names(4)]], assumption)
    apply (rule bind_result_good [OF route [OF _ ip_of_quads(7) [OF res] _ same(6)]], assumption, assumption, assumption)
    apply (rule bind_result_good [OF mit])
    apply (rule route [OF _ ip_of_quads(8) [OF res] _ same(7)], assumption, simp, assumption)
    done
qed

lemma new_interface_good: "length rd = 6 \<Longrightarrow> ai_good (new_interface rd ip)"
  by (simp add: new_interface_def ai_good_def AsyncNetworkInterface_of_def ni_good_new random_router_ethernet_address_def)

lemma Network_new_good:
  assumes res: "resolver_aton res" and rd: "\<And>i. length (router_rd i) = 6" "\<And>i. length (host_rd i) = 6"
  shows "\<exists>nw. Network_new res router_rd host_rd = Inr nw \<and> nw_good nw"
proof -
  have ok: "resolver_ok res" using res by (simp add: resolver_aton_def)
  obtain nw where nw: "Network_interfaces res router_rd = Inr nw" "nw_hosts nw = []" "rt_router_table (nw_router nw) = []"
    "\<forall>ai \<in> set (rt_interfaces (nw_router nw)). ai_good ai" "length (rt_interfaces (nw_router nw)) = 7"
    "nw_default_id nw < 7" "nw_eth0_id nw < 7" "nw_eth1_id nw < 7" "nw_eth2_id nw < 7" "nw_uun3_id nw < 7" "nw_hs4_id nw < 7" "nw_mit5_id nw < 7"
    using Network_interfaces_eq [OF ok, of router_rd] new_interface_good [OF rd(1)] by auto
  obtain nw1 where h: "Network_insert_hosts res host_rd nw = Inr nw1" "hosts_added nw host_names nw1"
    using Network_insert_hosts_good [OF res nw(2), of host_rd] rd(2) by blast
  have eq: "nw1\<lparr>nw_hosts := []\<rparr> = nw\<lparr>nw_hosts := []\<rparr>" using h(2) by (simp add: hosts_added_def)
  have nw1: "nw_router nw1 = nw_router nw" "nw_default_id nw1 = nw_default_id nw" "nw_eth0_id nw1 = nw_eth0_id nw" "nw_eth1_id nw1 = nw_eth1_id nw"
    "nw_eth2_id nw1 = nw_eth2_id nw" "nw_uun3_id nw1 = nw_uun3_id nw" "nw_hs4_id nw1 = nw_hs4_id nw" "nw_mit5_id nw1 = nw_mit5_id nw"
    using arg_cong [OF eq, of nw_router] arg_cong [OF eq, of nw_default_id] arg_cong [OF eq, of nw_eth0_id] arg_cong [OF eq, of nw_eth1_id]
      arg_cong [OF eq, of nw_eth2_id] arg_cong [OF eq, of nw_uun3_id] arg_cong [OF eq, of nw_hs4_id] arg_cong [OF eq, of nw_mit5_id] by simp_all
  have hosts: "\<forall>e \<in> set (nw_hosts nw1). host_good (fst e) (snd e)" "map fst (nw_hosts nw1) = host_names" using h(2) by (simp_all add: hosts_added_def)
  obtain nw2 where r: "Network_add_routes res nw1 = Inr nw2" "routes_added nw1 nw2"
    using Network_add_routes_good [OF ok _ hosts, of 7] nw nw1 by (auto simp: table_ok_def)
  have "nw_good nw2"
    using r(2) hosts nw nw1 by (simp add: nw_good_def rt_good_def routes_added_same [OF r(2)]) (simp add: routes_added_def)
  then show ?thesis using nw(1) h(1) r(1) by (simp add: Network_new_def)
qed

section \<open>Checking what a host has received\<close>

text \<open>The bytes of a datagram; \<open>check\<close> compares datagrams by them.\<close>

definition wire :: "InternetDatagram \<Rightarrow> bytes" where
  "wire dg = (case IPv4Datagram_serialize dg of Inr l \<Rightarrow> BufferList_concatenate l | Inl _ \<Rightarrow> [])"

lemma same_bytes_eq: "dgram_ok x \<Longrightarrow> dgram_ok y \<Longrightarrow> same_bytes x y = Inr (wire x = wire y)"
  by (auto simp: same_bytes_def dgram_ok_def wire_def)

lemma expecting_eq:
  "dgram_ok dg \<Longrightarrow> \<forall>x \<in> set xs. dgram_ok x \<Longrightarrow> expecting xs dg = Inr (wire dg \<in> wire ` set xs)"
  by (induction xs) (auto simp: same_bytes_eq)

lemma remove_expectation_eq:
  assumes "dgram_ok dg" "\<forall>x \<in> set xs. dgram_ok x" "wire dg \<in> wire ` set xs"
  shows "\<exists>ys. remove_expectation xs dg = Inr ys \<and> mset (map wire xs) = add_mset (wire dg) (mset (map wire ys)) \<and> set ys \<subseteq> set xs"
  using assms
proof (induction xs)
  case (Cons x xs)
  show ?case
  proof (cases "wire x = wire dg")
    case True
    then show ?thesis using Cons(2,3) by (auto simp: same_bytes_eq)
  next
    case False
    then obtain ys where "remove_expectation xs dg = Inr ys" "mset (map wire xs) = add_mset (wire dg) (mset (map wire ys))" "set ys \<subseteq> set xs"
      using Cons by auto
    then show ?thesis using False Cons(2,3) by (auto simp: same_bytes_eq)
  qed
qed simp

lemma check_received_eq:
  "\<forall>x \<in> set received \<union> set expectations. dgram_ok x \<Longrightarrow>
     (\<exists>ys. check_received received expectations = Inr ys \<and> mset (map wire expectations) = mset (map wire received) + mset (map wire ys)) \<or>
     check_received received expectations = Inl Runtime_Error \<and> \<not> mset (map wire received) \<subseteq># mset (map wire expectations)"
proof (induction received arbitrary: expectations)
  case (Cons dg received)
  have ok: "dgram_ok dg" "\<forall>x \<in> set expectations. dgram_ok x" using Cons(2) by auto
  show ?case
  proof (cases "wire dg \<in> wire ` set expectations")
    case True
    obtain ys where ys: "remove_expectation expectations dg = Inr ys"
      "mset (map wire expectations) = add_mset (wire dg) (mset (map wire ys))" "set ys \<subseteq> set expectations"
      using remove_expectation_eq [OF ok True] by blast
    have st: "check_received (dg # received) expectations = check_received received ys" using True ys(1) by (simp add: expecting_eq [OF ok])
    from Cons(1) [of ys] Cons(2) ys(3) show ?thesis unfolding st list.map mset.simps ys(2) by auto
  next
    case False
    then have "\<not> wire dg \<in># mset (map wire expectations)" by simp
    then have "\<not> mset (map wire (dg # received)) \<subseteq># mset (map wire expectations)" by (metis list.set_intros(1) list.simps(9) mset_subset_eqD set_mset_mset)
    then show ?thesis using False by (simp add: expecting_eq [OF ok])
  qed
qed simp

lemma Host_check_eq:
  assumes "\<forall>x \<in> set (ai_datagrams_out (ho_interface h)) \<union> set (ho_expecting_to_receive h). dgram_ok x"
  shows "(\<exists>h'. Host_check h = Inr h') \<longleftrightarrow>
    mset (map wire (ai_datagrams_out (ho_interface h))) = mset (map wire (ho_expecting_to_receive h))"
  using check_received_eq [OF assms] by (auto simp: Host_check_def split: if_splits)

section \<open>Properties\<close>

text \<open>The networks the simulator can get into: a new one, and any after a host has sent a datagram or some
  rounds were simulated.\<close>

inductive nw_reachable :: "resolver \<Rightarrow> Network \<Rightarrow> bool" for res where
  new: "Network_new res router_rd host_rd = Inr nw \<Longrightarrow> (\<And>i. length (router_rd i) = 6) \<Longrightarrow> (\<And>i. length (host_rd i) = 6) \<Longrightarrow>
    nw_reachable res nw"
| sends: "nw_reachable res nw \<Longrightarrow> hop_ok destination \<Longrightarrow> test_send name destination ttl rd nw = Inr (dg, nw') \<Longrightarrow>
    name \<in> set host_names \<Longrightarrow> nw_reachable res nw'"
| rounds: "nw_reachable res nw \<Longrightarrow> simulate_rounds n nw = Some (Inr nw') \<Longrightarrow> nw_reachable res nw'"

lemma nw_reachable_good:
  assumes "nw_reachable res nw" "resolver_aton res"
  shows "nw_good nw"
  using assms
proof (induction rule: nw_reachable.induct)
  case (new router_rd host_rd nw)
  then show ?case using Network_new_good [of res router_rd host_rd] by auto
next
  case (sends nw destination name ttl rd dg nw')
  then show ?case using test_send_good [of nw name destination ttl rd] by auto
next
  case (rounds nw n nw')
  then show ?case using simulate_rounds_good [of nw n] by auto
qed

text \<open>C7: the network of the simulator is built without an exception.  Whatever its hosts have sent to whatever
  addresses, every number of rounds of routing and of exchanging frames ends without an exception, no interface
  loops, and every host can send again.\<close>

theorem network_simulation_safe:
  assumes "resolver_aton res"
  shows "(\<forall>router_rd host_rd. (\<forall>i. length (router_rd i) = 6 \<and> length (host_rd i) = 6) \<longrightarrow> (\<exists>nw. Network_new res router_rd host_rd = Inr nw)) \<and>
    (\<forall>nw. nw_reachable res nw \<longrightarrow> (\<forall>n. \<exists>nw'. simulate_rounds n nw = Some (Inr nw')) \<and>
       (\<forall>name destination ttl rd. name \<in> set host_names \<and> hop_ok destination \<longrightarrow>
          (\<exists>dg nw'. test_send name destination ttl rd nw = Inr (dg, nw'))))"
proof (intro conjI allI impI)
  fix router_rd host_rd :: "nat \<Rightarrow> bytes"
  assume "\<forall>i. length (router_rd i) = 6 \<and> length (host_rd i) = 6"
  then show "\<exists>nw. Network_new res router_rd host_rd = Inr nw" using Network_new_good [OF assms, of router_rd host_rd] by blast
next
  fix nw n assume "nw_reachable res nw"
  then show "\<exists>nw'. simulate_rounds n nw = Some (Inr nw')" using simulate_rounds_good [OF nw_reachable_good [OF _ assms]] by blast
next
  fix nw name destination ttl rd assume "nw_reachable res nw" "name \<in> set host_names \<and> hop_ok destination"
  then show "\<exists>dg nw'. test_send name destination ttl rd nw = Inr (dg, nw')" using test_send_good [OF nw_reachable_good [OF _ assms]] by blast
qed

text \<open>A resolver that also takes \<open>0\<close> for an address.\<close>

definition aton_resolver :: resolver where
  "aton_resolver = numeric_resolver\<lparr>getaddrinfo := (\<lambda>node service hints.
     if node = ''0'' then (0, Some (sockaddr_in 0 0, sizeof_sockaddr_in)) else getaddrinfo numeric_resolver node service hints)\<rparr>"

lemma inet_ntoa_dotted: "CHR ''.'' \<in> set (inet_ntoa ip)"
  by (simp add: inet_ntoa_def)

lemma aton_resolver_ok: "resolver_aton aton_resolver"
proof -
  have "inet_ntoa ip \<noteq> ''0''" for ip using inet_ntoa_dotted [of ip] by auto
  then show ?thesis using numeric_resolver_ok by (simp add: resolver_aton_def resolver_ok_def aton_resolver_def)
qed

theorem network_simulation_safe_witness:
  "\<exists>nw dg nw1 nw2. Network_new aton_resolver (\<lambda>_. replicate 6 0) (\<lambda>_. replicate 6 1) = Inr nw \<and>
     test_send ''applesauce'' (ipv4_address 0 0xc0a80002) 64 7 nw = Inr (dg, nw1) \<and>
     simulate_rounds 256 nw1 = Some (Inr nw2)"
proof -
  note safe = network_simulation_safe [OF aton_resolver_ok]
  obtain nw where nw: "Network_new aton_resolver (\<lambda>_. replicate 6 0) (\<lambda>_. replicate 6 1) = Inr nw"
    using safe [THEN conjunct1, rule_format, of "\<lambda>_. replicate 6 0" "\<lambda>_. replicate 6 1"] by auto
  have r: "nw_reachable aton_resolver nw" by (rule nw_reachable.new [OF nw]) simp_all
  obtain dg nw1 where s: "test_send ''applesauce'' (ipv4_address 0 0xc0a80002) 64 7 nw = Inr (dg, nw1)"
    using safe r in_host_names(1) hop_ok_ipv4(1) by blast
  have "nw_reachable aton_resolver nw1" by (rule nw_reachable.sends [OF r hop_ok_ipv4(1) s in_host_names(1)])
  then show ?thesis using safe nw s by blast
qed

end
