(* ===== verification/Byte_Stream.thy ===== *)
theory Byte_Stream
  imports Sponge_Prelude
begin

text \<open>
  \<open>libsponge/byte_stream.hh\<close> and \<open>.cc\<close>: the flow-controlled in-memory byte stream.  The record
  \<open>ByteStream\<close> has the fields of the class, and there is one definition per method.  The locale
  \<open>byte_channel\<close> states what the users of a stream (the reassembler, the sender) rely on, in
  terms of the sequence of bytes accepted so far and the number of bytes taken out; the
  interpretation \<open>bs\<close> shows that the class provides it.
\<close>

section \<open>The class\<close>

record ByteStream =
  bs_capacity :: nat
  bs_buffer :: bytes
  bs_bytes_written :: nat
  bs_bytes_read :: nat
  bs_input_ended :: bool
  bs_error :: bool

definition ByteStream_new :: "nat \<Rightarrow> ByteStream" where
  "ByteStream_new capacity =
     \<lparr>bs_capacity = capacity, bs_buffer = [], bs_bytes_written = 0, bs_bytes_read = 0,
      bs_input_ended = False, bs_error = False\<rparr>"

definition ByteStream_remaining_capacity :: "ByteStream \<Rightarrow> nat" where
  "ByteStream_remaining_capacity s = u64_sub (bs_capacity s) (length (bs_buffer s))"

definition ByteStream_write :: "ByteStream \<Rightarrow> bytes \<Rightarrow> nat \<times> ByteStream" where
  "ByteStream_write s data =
     (let bytes_to_write = min (length data) (ByteStream_remaining_capacity s)
      in (bytes_to_write,
          s\<lparr>bs_buffer := bs_buffer s @ take bytes_to_write data,
            bs_bytes_written := u64_add (bs_bytes_written s) bytes_to_write\<rparr>))"

definition ByteStream_peek_output :: "ByteStream \<Rightarrow> nat \<Rightarrow> bytes" where
  "ByteStream_peek_output s len = take (min len (length (bs_buffer s))) (bs_buffer s)"

definition ByteStream_pop_output :: "ByteStream \<Rightarrow> nat \<Rightarrow> ByteStream" where
  "ByteStream_pop_output s len =
     (let pop_size = min len (length (bs_buffer s))
      in s\<lparr>bs_buffer := drop pop_size (bs_buffer s),
           bs_bytes_read := u64_add (bs_bytes_read s) pop_size\<rparr>)"

definition ByteStream_read :: "ByteStream \<Rightarrow> nat \<Rightarrow> bytes \<times> ByteStream" where
  "ByteStream_read s len = (ByteStream_peek_output s len, ByteStream_pop_output s len)"

definition ByteStream_end_input :: "ByteStream \<Rightarrow> ByteStream" where
  "ByteStream_end_input s = s\<lparr>bs_input_ended := True\<rparr>"

definition ByteStream_set_error :: "ByteStream \<Rightarrow> ByteStream" where
  "ByteStream_set_error s = s\<lparr>bs_error := True\<rparr>"

definition ByteStream_buffer_size :: "ByteStream \<Rightarrow> nat" where
  "ByteStream_buffer_size s = length (bs_buffer s)"

definition ByteStream_buffer_empty :: "ByteStream \<Rightarrow> bool" where
  "ByteStream_buffer_empty s = (bs_buffer s = [])"

definition ByteStream_eof :: "ByteStream \<Rightarrow> bool" where
  "ByteStream_eof s = (bs_input_ended s \<and> ByteStream_buffer_empty s)"

lemmas ByteStream_defs =
  ByteStream_new_def ByteStream_remaining_capacity_def ByteStream_write_def
  ByteStream_peek_output_def ByteStream_pop_output_def ByteStream_read_def
  ByteStream_end_input_def ByteStream_set_error_def ByteStream_buffer_size_def
  ByteStream_buffer_empty_def ByteStream_eof_def

section \<open>Calls on a stream\<close>

text \<open>The calls of the two sides of a stream in the order they happen.  \<open>ByteStream_call\<close>
  performs one and returns the bytes accepted by a write and the bytes returned by a read.\<close>

datatype stream_call = Write bytes | Read nat | Pop nat | End_Input | Set_Error

fun ByteStream_call :: "ByteStream \<Rightarrow> stream_call \<Rightarrow> bytes \<times> bytes \<times> ByteStream" where
  "ByteStream_call s (Write data) =
     (let (n, s') = ByteStream_write s data in (take n data, [], s'))"
| "ByteStream_call s (Read len) = (let (out, s') = ByteStream_read s len in ([], out, s'))"
| "ByteStream_call s (Pop len) = ([], ByteStream_peek_output s len, ByteStream_pop_output s len)"
| "ByteStream_call s End_Input = ([], [], ByteStream_end_input s)"
| "ByteStream_call s Set_Error = ([], [], ByteStream_set_error s)"

fun ByteStream_calls :: "ByteStream \<Rightarrow> stream_call list \<Rightarrow> bytes \<times> bytes \<times> ByteStream" where
  "ByteStream_calls s [] = ([], [], s)"
| "ByteStream_calls s (c # cs) =
     (let (i, out, s') = ByteStream_call s c; (i', out', s'') = ByteStream_calls s' cs
      in (i @ i', out @ out', s''))"

section \<open>The invariant of the class\<close>

definition bs_inv :: "ByteStream \<Rightarrow> bool" where
  "bs_inv s \<longleftrightarrow> length (bs_buffer s) \<le> bs_capacity s \<and> bs_capacity s < W64 \<and>
     bs_bytes_read s < W64 \<and>
     bs_bytes_written s = u64_add (bs_bytes_read s) (length (bs_buffer s))"

text \<open>\<open>bs_holds s w n\<close>: the stream accepted the bytes \<open>w\<close> since it was created and \<open>n\<close> of them
  were taken out.\<close>

definition bs_holds :: "ByteStream \<Rightarrow> bytes \<Rightarrow> nat \<Rightarrow> bool" where
  "bs_holds s w n \<longleftrightarrow> n \<le> length w \<and> bs_buffer s = drop n w \<and>
     bs_bytes_written s = u64 (length w) \<and> bs_bytes_read s = u64 n"

section \<open>What the users of a stream rely on\<close>

locale byte_channel =
  fixes room :: "'s \<Rightarrow> nat"
    and put :: "'s \<Rightarrow> bytes \<Rightarrow> nat \<times> 's"
    and get :: "'s \<Rightarrow> nat \<Rightarrow> bytes \<times> 's"
    and inv :: "'s \<Rightarrow> bool"
    and holds :: "'s \<Rightarrow> bytes \<Rightarrow> nat \<Rightarrow> bool"
    and capacity :: "'s \<Rightarrow> nat"
  assumes holds_bound: "inv s \<Longrightarrow> holds s w n \<Longrightarrow> n \<le> length w \<and> length w \<le> n + capacity s"
    and room_eq: "inv s \<Longrightarrow> holds s w n \<Longrightarrow> room s = capacity s - (length w - n)"
    and write_count: "inv s \<Longrightarrow> fst (put s d) = min (length d) (room s)"
    and write_holds: "inv s \<Longrightarrow> holds s w n \<Longrightarrow>
          holds (snd (put s d)) (w @ take (fst (put s d)) d) n"
    and write_inv: "inv s \<Longrightarrow> inv (snd (put s d))"
    and write_capacity: "capacity (snd (put s d)) = capacity s"
    and read_bytes: "inv s \<Longrightarrow> holds s w n \<Longrightarrow> fst (get s k) = take k (drop n w)"
    and read_holds: "inv s \<Longrightarrow> holds s w n \<Longrightarrow>
          holds (snd (get s k)) w (n + length (fst (get s k)))"
    and read_inv: "inv s \<Longrightarrow> inv (snd (get s k))"
    and read_capacity: "capacity (snd (get s k)) = capacity s"
begin

text \<open>A write that fits is accepted whole, and what does not fit is a suffix of the data.\<close>

lemma write_all: "inv s \<Longrightarrow> length d \<le> room s \<Longrightarrow> fst (put s d) = length d"
  by (simp add: write_count)

lemma write_fills:
  assumes "inv s" "holds s w n" "fst (put s d) < length d"
  shows "room (snd (put s d)) = 0"
proof -
  have "fst (put s d) = room s" using assms by (simp add: write_count)
  then show ?thesis
    using assms room_eq [OF write_inv write_holds, of s w n d] holds_bound [of s w n]
    by (simp add: write_capacity room_eq)
qed

text \<open>Reading takes the oldest bytes first and never returns a byte twice.\<close>

lemma read_twice:
  assumes "inv s" "holds s w n"
  shows "fst (get s k) @ fst (get (snd (get s k)) l) = take (k + l) (drop n w)"
proof -
  let ?r = "fst (get s k)"
  have r: "?r = take k (drop n w)"
    using assms by (rule read_bytes)
  have "fst (get (snd (get s k)) l) = take l (drop (n + length ?r) w)"
    using assms by (intro read_bytes read_inv read_holds)
  also have "\<dots> = take l (drop k (drop n w))"
    by (cases "k \<le> length (drop n w)") (simp_all add: r add.commute)
  finally show ?thesis
    by (simp add: r take_add)
qed

lemma read_frees:
  assumes "inv s" "holds s w n"
  shows "room (snd (get s k)) = room s + length (fst (get s k))"
proof -
  let ?k = "length (fst (get s k))"
  have "?k \<le> length w - n"
    using read_bytes [OF assms, of k] by simp
  then show ?thesis
    using assms holds_bound [OF assms] room_eq [OF read_inv [OF assms(1)] read_holds [OF assms], of k]
    by (auto simp: room_eq read_capacity)
qed

end

section \<open>The class provides the interface\<close>

lemma bs_inv_remaining [simp]:
  "bs_inv s \<Longrightarrow> ByteStream_remaining_capacity s = bs_capacity s - length (bs_buffer s)"
  by (simp add: bs_inv_def ByteStream_remaining_capacity_def u64_simps)

lemma bs_inv_new [inv_intros]: "c < W64 \<Longrightarrow> bs_inv (ByteStream_new c)"
  by (simp add: bs_inv_def ByteStream_new_def u64_simps)

lemma bs_holds_new: "bs_holds (ByteStream_new c) [] 0"
  by (simp add: bs_holds_def ByteStream_new_def u64_simps)

lemma bs_write_count: "bs_inv s \<Longrightarrow>
  fst (ByteStream_write s d) = min (length d) (bs_capacity s - length (bs_buffer s))"
  by (simp add: ByteStream_write_def Let_def)

lemma bs_inv_write [inv_intros]: "bs_inv s \<Longrightarrow> bs_inv (snd (ByteStream_write s d))"
  using bs_inv_remaining [of s]
  by (auto simp: bs_inv_def ByteStream_write_def Let_def u64_add_assoc)

lemma bs_inv_pop [inv_intros]: "bs_inv s \<Longrightarrow> bs_inv (ByteStream_pop_output s k)"
  by (auto simp: bs_inv_def ByteStream_pop_output_def Let_def u64_add_assoc min_def)

lemma bs_inv_read [inv_intros]: "bs_inv s \<Longrightarrow> bs_inv (snd (ByteStream_read s k))"
  by (simp add: ByteStream_read_def bs_inv_pop)

lemma bs_inv_end_input [inv_intros]: "bs_inv s \<Longrightarrow> bs_inv (ByteStream_end_input s)"
  by (simp add: bs_inv_def ByteStream_end_input_def)

lemma bs_inv_set_error [inv_intros]: "bs_inv s \<Longrightarrow> bs_inv (ByteStream_set_error s)"
  by (simp add: bs_inv_def ByteStream_set_error_def)

lemma bs_holds_write:
  "bs_holds s w n \<Longrightarrow>
     bs_holds (snd (ByteStream_write s d)) (w @ take (fst (ByteStream_write s d)) d) n"
  by (auto simp: bs_holds_def ByteStream_write_def Let_def)

lemma bs_read_bytes: "bs_holds s w n \<Longrightarrow> ByteStream_peek_output s k = take k (drop n w)"
  unfolding bs_holds_def ByteStream_peek_output_def by (simp only: take_min_length)

lemma bs_holds_pop:
  "bs_holds s w n \<Longrightarrow>
     bs_holds (ByteStream_pop_output s k) w (n + length (ByteStream_peek_output s k))"
  by (auto simp: bs_holds_def ByteStream_pop_output_def ByteStream_peek_output_def Let_def min_def
      add.commute)

lemma bs_holds_flags [simp]:
  "bs_holds (ByteStream_end_input s) w n = bs_holds s w n"
  "bs_holds (ByteStream_set_error s) w n = bs_holds s w n"
  by (simp_all add: bs_holds_def ByteStream_end_input_def ByteStream_set_error_def)

interpretation bs: byte_channel ByteStream_remaining_capacity ByteStream_write ByteStream_read
  bs_inv bs_holds bs_capacity
proof
  fix s w n d k
  assume inv: "bs_inv s"
  show "bs_inv (snd (ByteStream_write s d))" "bs_inv (snd (ByteStream_read s k))"
    using inv by (simp_all add: bs_inv_write bs_inv_read)
  show "fst (ByteStream_write s d) = min (length d) (ByteStream_remaining_capacity s)"
    using inv by (simp add: bs_write_count)
  assume holds: "bs_holds s w n"
  show "n \<le> length w \<and> length w \<le> n + bs_capacity s"
    using inv holds by (auto simp: bs_inv_def bs_holds_def)
  show "ByteStream_remaining_capacity s = bs_capacity s - (length w - n)"
    using inv holds by (simp add: bs_holds_def)
  show "bs_holds (snd (ByteStream_write s d)) (w @ take (fst (ByteStream_write s d)) d) n"
    using holds by (rule bs_holds_write)
  show "fst (ByteStream_read s k) = take k (drop n w)"
    using holds by (simp add: ByteStream_read_def bs_read_bytes)
  show "bs_holds (snd (ByteStream_read s k)) w (n + length (fst (ByteStream_read s k)))"
    using holds bs_holds_pop by (simp add: ByteStream_read_def)
next
  fix s d k
  show "bs_capacity (snd (ByteStream_write s d)) = bs_capacity s"
    "bs_capacity (snd (ByteStream_read s k)) = bs_capacity s"
    by (simp_all add: ByteStream_defs Let_def)
qed

section \<open>Sequences of calls\<close>

lemma ByteStream_call_step:
  assumes "bs_inv s" "bs_holds s w n" "ByteStream_call s c = (i, out, s')"
  shows "bs_inv s' \<and> bs_holds s' (w @ i) (n + length out) \<and> out = take (length out) (drop n w)"
  using assms
proof (cases c)
  case (Write d)
  then show ?thesis
    using assms bs.write_holds [OF assms(1,2), of d] bs.write_inv [OF assms(1), of d]
    by (auto simp: split_beta)
next
  case (Read k)
  then show ?thesis
    using assms bs.read_holds [OF assms(1,2), of k] bs.read_inv [OF assms(1), of k]
      bs.read_bytes [OF assms(1,2), of k]
    by (auto simp: split_beta min_def)
next
  case (Pop k)
  then show ?thesis
    using assms bs_holds_pop [OF assms(2)] bs_read_bytes [OF assms(2)]
    by (auto intro: inv_intros simp: min_def)
qed (auto intro: inv_intros)

lemma ByteStream_calls_run:
  assumes "bs_inv s" "bs_holds s w n" "ByteStream_calls s cs = (i, out, s')"
  shows "bs_inv s' \<and> bs_holds s' (w @ i) (n + length out) \<and>
    drop n (w @ i) = out @ bs_buffer s'"
  using assms
proof (induction cs arbitrary: s w n i out)
  case Nil
  then show ?case by (auto simp: bs_holds_def)
next
  case (Cons c cs)
  obtain i1 o1 s1 where c: "ByteStream_call s c = (i1, o1, s1)"
    by (cases "ByteStream_call s c") auto
  obtain i2 o2 where cs: "ByteStream_calls s1 cs = (i2, o2, s')" and io: "i = i1 @ i2" "out = o1 @ o2"
    using Cons.prems c by (auto split: prod.splits)
  have step: "bs_inv s1" "bs_holds s1 (w @ i1) (n + length o1)" "o1 = take (length o1) (drop n w)"
    using ByteStream_call_step [OF Cons.prems(1,2) c] by auto
  have IH: "bs_inv s'" "bs_holds s' ((w @ i1) @ i2) (n + length o1 + length o2)"
    "drop (n + length o1) ((w @ i1) @ i2) = o2 @ bs_buffer s'"
    using Cons.IH [OF step(1,2) cs] by auto
  have le: "length o1 \<le> length (drop n w)" "n \<le> length w"
    using step(3) Cons.prems(2) by (metis length_take min.cobounded1, simp add: bs_holds_def)
  have "drop n (w @ i) = take (length o1) (drop n (w @ i)) @ drop (length o1) (drop n (w @ i))"
    by (simp only: append_take_drop_id)
  also have "take (length o1) (drop n (w @ i)) = o1"
    using le step(3) io by simp
  also have "drop (length o1) (drop n (w @ i)) = o2 @ bs_buffer s'"
    using IH(3) io by (simp only: drop_drop add.commute append_assoc)
  finally show ?case
    using IH io by (simp add: add.assoc)
qed

section \<open>Properties\<close>

text \<open>C25: whatever the writer and the reader call on a fresh stream, in any order, the bytes the
  reader took out followed by the bytes still buffered are exactly the bytes the stream accepted,
  in order; the buffer never exceeds the capacity and the two counters are the numbers of bytes
  accepted and taken out (modulo \<open>2 ^ 64\<close>).\<close>

theorem ByteStream_fifo:
  assumes "capacity < W64" "ByteStream_calls (ByteStream_new capacity) cs = (accepted, taken, s)"
  shows "accepted = taken @ bs_buffer s \<and> length (bs_buffer s) \<le> bs_capacity s \<and>
    bs_bytes_written s = u64 (length accepted) \<and> bs_bytes_read s = u64 (length taken)"
proof -
  have "bs_inv s" "bs_holds s accepted (length taken)" "accepted = taken @ bs_buffer s"
    using ByteStream_calls_run [OF bs_inv_new [OF assms(1)] bs_holds_new assms(2)]
    by (metis append_Nil add_0 drop0)+
  then show ?thesis
    unfolding bs_inv_def bs_holds_def by blast
qed

theorem ByteStream_fifo_witness:
  "ByteStream_calls (ByteStream_new 3) [Write [1, 2, 3, 4], Read 2, Write [5], End_Input] =
     ([1, 2, 3, 5], [1, 2], \<lparr>bs_capacity = 3, bs_buffer = [3, 5], bs_bytes_written = 4,
      bs_bytes_read = 2, bs_input_ended = True, bs_error = False\<rparr>) \<and>
   [1, 2, 3, 5 :: byte] = [1, 2] @ [3, 5]"
proof -
  have run: "ByteStream_calls (ByteStream_new 3) [Write [1, 2, 3, 4], Read 2, Write [5], End_Input] =
     ([1, 2, 3, 5], [1, 2], \<lparr>bs_capacity = 3, bs_buffer = [3, 5], bs_bytes_written = 4,
      bs_bytes_read = 2, bs_input_ended = True, bs_error = False\<rparr>)"
    by (simp add: ByteStream_defs Let_def eval_simps del: eval_del)
  have cap: "3 < W64"
    by (simp add: W64_def)
  show ?thesis
    using ByteStream_fifo [OF cap run] run by simp
qed

end
