(* ===== verification/Stream_Reassembler.thy ===== *)
theory Stream_Reassembler
  imports Byte_Stream Ordered_Map
begin

text \<open>
  \<open>libsponge/stream_reassembler.hh\<close> and \<open>.cc\<close>: the reassembler turns substrings that arrive out of
  order and overlapping into the in-order output stream.  The record has the fields of the class
  (the \<open>std::map\<close> of stored substrings is an ordered association list); \<open>push_substring\<close> is split
  at the points where the source is: the new start index, the loop that drops or cuts the
  substrings behind, the insertion of the new data, and the loop that moves stored substrings to
  the output.

  The specification is stated against a ghost stream \<open>S\<close> of which every pushed substring is a part:
  the invariant \<open>sr_inv\<close> says the output accepted a prefix of \<open>S\<close> and the stored substrings are
  disjoint, non-empty parts of \<open>S\<close> behind it, and \<open>push_substring_correct\<close> that a push adds
  exactly the pushed bytes inside the window to what the reassembler knows.
\<close>

section \<open>The class\<close>

record StreamReassembler =
  sr_unassemble_strs :: "(nat, bytes) omap"
  sr_next_assembled_idx :: nat
  sr_unassembled_bytes_num :: nat
  sr_eof_idx :: nat
  sr_output :: ByteStream
  sr_capacity :: nat

definition StreamReassembler_new :: "nat \<Rightarrow> StreamReassembler" where
  "StreamReassembler_new capacity =
     \<lparr>sr_unassemble_strs = [], sr_next_assembled_idx = 0, sr_unassembled_bytes_num = 0,
      sr_eof_idx = W64 - 1, sr_output = ByteStream_new capacity, sr_capacity = capacity\<rparr>"

text \<open>The start index of the part of the substring that is not yet stored or assembled.\<close>

definition sr_new_idx :: "StreamReassembler \<Rightarrow> nat \<Rightarrow> nat" where
  "sr_new_idx r index =
     (let (prev, after) = upper_bound index (sr_unassemble_strs r);
          pos_iter = (if prev \<noteq> [] then last prev # after else after);
          behind_assembled = (if index < sr_next_assembled_idx r then sr_next_assembled_idx r else index)
      in case pos_iter of
           [] \<Rightarrow> behind_assembled
         | (up_idx, up_data) # _ \<Rightarrow>
             if up_idx \<le> index
             then (if index < u64_add up_idx (length up_data)
                   then u64_add up_idx (length up_data) else index)
             else behind_assembled)"

text \<open>The \<open>while\<close> loop over the stored substrings from \<open>new_idx\<close> on: a substring the new data
  covers is erased, one it overlaps in part cuts the new data.\<close>

fun sr_trim :: "nat \<Rightarrow> nat \<Rightarrow> int \<Rightarrow> (nat, bytes) omap \<Rightarrow> nat \<times> int \<times> (nat, bytes) omap" where
  "sr_trim new_idx num data_size [] = (num, data_size, [])"
| "sr_trim new_idx num data_size ((down_idx, down_data) # rest) =
     (if new_idx \<le> down_idx then
        let data_end_pos = of_ssize (int new_idx + data_size)
        in if down_idx < data_end_pos then
             if data_end_pos < u64_add down_idx (length down_data)
             then (num, to_ssize (u64_sub down_idx new_idx), (down_idx, down_data) # rest)
             else sr_trim new_idx (u64_sub num (length down_data)) data_size rest
           else (num, data_size, (down_idx, down_data) # rest)
      else (num, data_size, (down_idx, down_data) # rest))"

text \<open>The new data goes to the output when it is next in line, and is stored otherwise.\<close>

definition sr_accept :: "StreamReassembler \<Rightarrow> nat \<Rightarrow> bytes \<Rightarrow> StreamReassembler" where
  "sr_accept r new_idx new_data =
     (if new_idx = sr_next_assembled_idx r then
        let (write_byte, output) = ByteStream_write (sr_output r) new_data;
            next = u64_add (sr_next_assembled_idx r) write_byte;
            r' = r\<lparr>sr_output := output, sr_next_assembled_idx := next\<rparr>
        in if write_byte < length new_data then
             let data_to_store = drop write_byte new_data
             in r'\<lparr>sr_unassembled_bytes_num :=
                     u64_add (sr_unassembled_bytes_num r) (length data_to_store),
                   sr_unassemble_strs := om_insert next data_to_store (sr_unassemble_strs r)\<rparr>
           else r'
      else r\<lparr>sr_unassembled_bytes_num := u64_add (sr_unassembled_bytes_num r) (length new_data),
             sr_unassemble_strs := om_insert new_idx new_data (sr_unassemble_strs r)\<rparr>)"

text \<open>The \<open>for\<close> loop that moves stored substrings to the output while they are next in line.  The
  iterator is always at the first entry of the map.\<close>

fun sr_assemble :: "(nat, bytes) omap \<Rightarrow> nat \<Rightarrow> nat \<Rightarrow> ByteStream \<Rightarrow>
    ((nat, bytes) omap \<times> nat \<times> nat \<times> ByteStream) result" where
  "sr_assemble [] next num output = Inr ([], next, num, output)"
| "sr_assemble ((idx, str) # rest) next num output =
     (if \<not> next \<le> idx then Inl Assert_Failed
      else if idx = next then
        let (write_num, output') = ByteStream_write output str;
            next' = u64_add next write_num
        in if write_num < length str then
             let num1 = u64_add num (u64_sub (length str) write_num);
                 strs1 = om_insert next' (drop write_num str) ((idx, str) # rest)
             in Inr (om_erase idx strs1, next', u64_sub num1 (length str), output')
           else sr_assemble rest next' (u64_sub num (length str)) output'
      else Inr ((idx, str) # rest, next, num, output))"

text \<open>The loop and the end of the stream.\<close>

definition sr_finish :: "StreamReassembler \<Rightarrow> nat \<Rightarrow> StreamReassembler result" where
  "sr_finish r eof_idx =
     bind_result
       (sr_assemble (sr_unassemble_strs r) (sr_next_assembled_idx r)
          (sr_unassembled_bytes_num r) (sr_output r))
       (\<lambda>(strs, next, num, output).
          Inr (r\<lparr>sr_unassemble_strs := strs, sr_next_assembled_idx := next,
                sr_unassembled_bytes_num := num, sr_eof_idx := eof_idx,
                sr_output := (if eof_idx \<le> next then ByteStream_end_input output else output)\<rparr>))"

definition push_substring :: "StreamReassembler \<Rightarrow> bytes \<Rightarrow> nat \<Rightarrow> bool \<Rightarrow> StreamReassembler result" where
  "push_substring r data index eof =
     (let new_idx = sr_new_idx r index;
          data_start_pos = u64_sub new_idx index;
          (prev, from) = lower_bound new_idx (sr_unassemble_strs r);
          (num, data_size, from') =
            sr_trim new_idx (sr_unassembled_bytes_num r)
              (to_ssize (u64_sub (length data) data_start_pos)) from;
          r1 = r\<lparr>sr_unassemble_strs := prev @ from', sr_unassembled_bytes_num := num\<rparr>;
          first_unacceptable_idx =
            u64_sub (u64_add (sr_next_assembled_idx r) (sr_capacity r))
              (ByteStream_buffer_size (sr_output r))
      in if first_unacceptable_idx \<le> new_idx then Inr r1
         else if data_size > 0 \<and> length data < data_start_pos then Inl Out_Of_Range
         else sr_finish
                (if data_size > 0
                 then sr_accept r1 new_idx (take (nat data_size) (drop data_start_pos data)) else r1)
                (if eof then u64_add index (length data) else sr_eof_idx r))"

definition unassembled_bytes :: "StreamReassembler \<Rightarrow> nat" where
  "unassembled_bytes r = sr_unassembled_bytes_num r"

definition sr_empty :: "StreamReassembler \<Rightarrow> bool" where
  "sr_empty r = (sr_unassembled_bytes_num r = 0)"

section \<open>Specification\<close>

text \<open>A part of the ghost stream \<open>S\<close>; the positions a map of substrings covers; disjointness.\<close>

definition part_of :: "bytes \<Rightarrow> nat \<Rightarrow> bytes \<Rightarrow> bool" where
  "part_of S k str \<longleftrightarrow> k + length str \<le> length S \<and> take (length str) (drop k S) = str"

definition covers :: "(nat, bytes) omap \<Rightarrow> nat \<Rightarrow> bool" where
  "covers m i \<longleftrightarrow> (\<exists>(k, str) \<in> set m. k \<le> i \<and> i < k + length str)"

definition disjoint_segs :: "(nat, bytes) omap \<Rightarrow> bool" where
  "disjoint_segs m = sorted_wrt (\<lambda>a b. fst a + length (snd a) \<le> fst b) m"

text \<open>Non-empty disjoint parts of \<open>S\<close> that all start at \<open>lo\<close> or behind it.\<close>

definition segs_ok :: "bytes \<Rightarrow> nat \<Rightarrow> (nat, bytes) omap \<Rightarrow> bool" where
  "segs_ok S lo m \<longleftrightarrow> disjoint_segs m \<and>
     (\<forall>(k, str) \<in> set m. lo \<le> k \<and> str \<noteq> [] \<and> part_of S k str)"

definition seg_bytes :: "(nat, bytes) omap \<Rightarrow> nat" where
  "seg_bytes m = (\<Sum>(k, str) \<leftarrow> m. length str)"

text \<open>The output has accepted the first \<open>next\<close> bytes of \<open>S\<close>, of which \<open>n\<close> were read.\<close>

definition out_ok :: "bytes \<Rightarrow> nat \<Rightarrow> nat \<Rightarrow> nat \<Rightarrow> ByteStream \<Rightarrow> bool" where
  "out_ok S cap n next output \<longleftrightarrow> bs_inv output \<and> bs_holds output (take next S) n \<and>
     next \<le> length S \<and> bs_capacity output = cap"

definition sr_inv :: "bytes \<Rightarrow> nat \<Rightarrow> StreamReassembler \<Rightarrow> bool" where
  "sr_inv S n r \<longleftrightarrow>
     length S + sr_capacity r < 2 ^ 62 \<and>
     segs_ok S (sr_next_assembled_idx r) (sr_unassemble_strs r) \<and>
     out_ok S (sr_capacity r) n (sr_next_assembled_idx r) (sr_output r) \<and>
     (sr_eof_idx r = W64 - 1 \<or> sr_eof_idx r = length S) \<and>
     (bs_input_ended (sr_output r) \<longrightarrow> sr_next_assembled_idx r = length S)"

text \<open>What the reassembler knows, and the first index outside its window.\<close>

definition sr_known :: "StreamReassembler \<Rightarrow> nat \<Rightarrow> bool" where
  "sr_known r i \<longleftrightarrow> i < sr_next_assembled_idx r \<or> covers (sr_unassemble_strs r) i"

definition sr_window_end :: "StreamReassembler \<Rightarrow> nat" where
  "sr_window_end r = sr_next_assembled_idx r + sr_capacity r - length (bs_buffer (sr_output r))"

section \<open>Sequences of pushes and reads\<close>

text \<open>The two sides of a reassembler: segments are pushed, and the application reads from
  \<open>stream_out()\<close>.  The run returns the bytes read.\<close>

datatype sr_call = Push bytes nat bool | Read_Out nat

definition sr_read :: "StreamReassembler \<Rightarrow> nat \<Rightarrow> bytes \<times> StreamReassembler" where
  "sr_read r len = (let (out, output) = ByteStream_read (sr_output r) len in (out, r\<lparr>sr_output := output\<rparr>))"

fun sr_calls :: "StreamReassembler \<Rightarrow> sr_call list \<Rightarrow> (bytes \<times> StreamReassembler) result" where
  "sr_calls r [] = Inr ([], r)"
| "sr_calls r (Push data index eof # cs) =
     bind_result (push_substring r data index eof) (\<lambda>r'. sr_calls r' cs)"
| "sr_calls r (Read_Out len # cs) =
     (let (out, r') = sr_read r len
      in bind_result (sr_calls r' cs) (\<lambda>(out', r''). Inr (out @ out', r'')))"

text \<open>A call that a correct peer makes: a pushed substring is a part of the stream, and its \<open>eof\<close>
  flag is set only at the end of the stream.\<close>

fun sr_call_ok :: "bytes \<Rightarrow> sr_call \<Rightarrow> bool" where
  "sr_call_ok S (Push data index eof) \<longleftrightarrow>
     part_of S index data \<and> (eof \<longrightarrow> index + length data = length S)"
| "sr_call_ok S (Read_Out len) \<longleftrightarrow> True"

text \<open>The positions some push of a run covers.\<close>

definition pushed :: "sr_call list \<Rightarrow> nat \<Rightarrow> bool" where
  "pushed cs i \<longleftrightarrow> (\<exists>data index eof. Push data index eof \<in> set cs \<and> index \<le> i \<and> i < index + length data)"

section \<open>Segments\<close>

lemma part_of_drop:
  assumes "part_of S k str" "j \<le> length str"
  shows "part_of S (k + j) (drop j str)"
proof -
  have "drop j (take (length str) (drop k S)) = drop j str"
    using assms(1) by (simp add: part_of_def)
  then have "take (length str - j) (drop (k + j) S) = drop j str"
    by (simp add: drop_take add.commute)
  then show ?thesis
    using assms by (simp add: part_of_def)
qed

lemma part_of_take: 
  assumes "part_of S k str"
  shows "part_of S k (take j str)"
proof -
  have "take j (take (length str) (drop k S)) = take j str"
    using assms by (simp add: part_of_def)
  then show ?thesis
    using assms by (auto simp: part_of_def min.commute)
qed

lemma part_of_take_append:
  assumes "part_of S k str" "j \<le> length str"
  shows "take k S @ take j str = take (k + j) S"
proof -
  have "take j (take (length str) (drop k S)) = take j str"
    using assms by (simp add: part_of_def)
  then show ?thesis
    using assms(2) by (simp add: take_add min_def)
qed

lemma covers_Nil [simp]: "\<not> covers [] i"
  by (simp add: covers_def)

lemma covers_Cons [simp]:
  "covers ((k, str) # m) i \<longleftrightarrow> (k \<le> i \<and> i < k + length str) \<or> covers m i"
  by (auto simp: covers_def)

lemma covers_append [simp]: "covers (a @ b) i \<longleftrightarrow> covers a i \<or> covers b i"
  by (auto simp: covers_def)

lemma segs_ok_Nil [simp]: "segs_ok S lo []"
  by (simp add: segs_ok_def disjoint_segs_def)

lemma segs_ok_Cons [simp]:
  "segs_ok S lo ((k, str) # m) \<longleftrightarrow>
     lo \<le> k \<and> str \<noteq> [] \<and> part_of S k str \<and> segs_ok S (k + length str) m"
  by (fastforce simp: segs_ok_def disjoint_segs_def)

lemma segs_ok_mono: "segs_ok S lo m \<Longrightarrow> lo' \<le> lo \<Longrightarrow> segs_ok S lo' m"
  by (fastforce simp: segs_ok_def)

lemma segs_ok_join:
  assumes "segs_ok S lo a" "\<And>k str. (k, str) \<in> set a \<Longrightarrow> k + length str \<le> x" "lo \<le> x" "segs_ok S x b"
  shows "segs_ok S lo (a @ b)"
  using assms
proof (induction a arbitrary: lo)
  case Nil
  then show ?case by (auto intro: segs_ok_mono)
next
  case (Cons e a)
  then show ?case by (cases e) auto
qed

lemma segs_ok_appendD: "segs_ok S lo (a @ b) \<Longrightarrow> segs_ok S lo a \<and> segs_ok S lo b"
  by (auto simp: segs_ok_def disjoint_segs_def sorted_wrt_append)

lemma segs_ok_tail:
  assumes "segs_ok S lo (a @ b)" "(k, str) \<in> set a"
  shows "segs_ok S (k + length str) b"
  using assms by (fastforce simp: segs_ok_def disjoint_segs_def sorted_wrt_append)

lemma segs_ok_key: "segs_ok S lo m \<Longrightarrow> (k, str) \<in> set m \<Longrightarrow> lo \<le> k \<and> k < k + length str \<and> k + length str \<le> length S"
  by (fastforce simp: segs_ok_def part_of_def)

lemma segs_ok_starts:
  assumes "segs_ok S lo m" "set a \<subseteq> set m" "\<And>k str. (k, str) \<in> set a \<Longrightarrow> k + length str \<le> x"
  shows "\<forall>e\<in>set a. fst e < x"
proof clarify
  fix k str
  assume e: "(k, str) \<in> set a"
  then have "k < k + length str"
    using segs_ok_key [OF assms(1), of k str] assms(2) by blast
  then show "fst (k, str) < x"
    using assms(3) [OF e] by (metis fst_conv less_le_trans)
qed

lemma segs_ok_lower: "segs_ok S lo m \<Longrightarrow> e \<in> set m \<Longrightarrow> lo \<le> fst e"
  using segs_ok_key by (cases e) fastforce

lemma segs_ok_om_wf: "segs_ok S lo m \<Longrightarrow> om_wf m"
proof (induction m arbitrary: lo)
  case (Cons e m)
  obtain k str where e: "e = (k, str)" by (cases e)
  then have "\<forall>e\<in>set m. k < fst e"
    using Cons.prems by (auto dest!: segs_ok_lower simp flip: length_greater_0_conv)
  then show ?case using Cons e by auto
qed simp

lemma covers_below: "segs_ok S lo m \<Longrightarrow> covers m i \<Longrightarrow> lo \<le> i"
  using segs_ok_key by (fastforce simp: covers_def)

lemma covers_length: "segs_ok S lo m \<Longrightarrow> covers m i \<Longrightarrow> i < length S"
  using segs_ok_key by (fastforce simp: covers_def)

lemma seg_bytes_simps [simp]:
  "seg_bytes [] = 0" "seg_bytes ((k, str) # m) = length str + seg_bytes m"
  "seg_bytes (a @ b) = seg_bytes a + seg_bytes b"
  by (simp_all add: seg_bytes_def)

lemma seg_bytes_bound: "segs_ok S lo m \<Longrightarrow> lo \<le> length S \<Longrightarrow> lo + seg_bytes m \<le> length S"
proof (induction m arbitrary: lo)
  case (Cons e m)
  obtain k str where e: "e = (k, str)" by (cases e)
  have "k + length str + seg_bytes m \<le> length S"
    using Cons.IH [of "k + length str"] Cons.prems e by (simp add: part_of_def)
  then show ?case using Cons.prems e by simp
qed simp

section \<open>The output\<close>

lemma out_write:
  assumes "out_ok S cap n next output" "part_of S next str" "length S + cap < 2 ^ 62"
    "ByteStream_write output str = (w, output')"
  shows "w = min (length str) (n + cap - next)" "out_ok S cap n (next + w) output'"
    "u64_add next w = next + w" "bs_input_ended output' = bs_input_ended output"
proof -
  have out: "bs_inv output" "bs_holds output (take next S) n" "next \<le> length S"
    "bs_capacity output = cap"
    using assms(1) by (auto simp: out_ok_def)
  have room: "ByteStream_remaining_capacity output = n + cap - next"
    using bs.room_eq [OF out(1,2)] bs.holds_bound [OF out(1,2)] out(3,4) by simp
  show w: "w = min (length str) (n + cap - next)"
    using bs.write_count [OF out(1), of str] assms(4) room by simp
  then have le: "w \<le> length str" by simp
  have "bs_holds output' (take next S @ take w str) n"
    using bs.write_holds [OF out(1,2), of str] assms(4) by simp
  then have "bs_holds output' (take (next + w) S) n"
    using part_of_take_append [OF assms(2) le] by simp
  then show "out_ok S cap n (next + w) output'"
    using bs.write_inv [OF out(1), of str] bs.write_capacity [where s = "output" and d = str]
      assms(2,4) out(4) le
    by (simp add: out_ok_def part_of_def)
  show "u64_add next w = next + w"
    using assms(2,3) le by (simp add: part_of_def u64_simps W64_def)
  show "bs_input_ended output' = bs_input_ended output"
    using assms(4) by (auto simp: ByteStream_write_def Let_def)
qed

lemma out_next_bound: "out_ok S cap n next output \<Longrightarrow> n \<le> next \<and> next \<le> n + cap \<and> length (bs_buffer output) = next - n"
  by (auto simp: out_ok_def bs_inv_def bs_holds_def)

section \<open>The new start index\<close>

lemma lower_bound_eqI:
  assumes "\<forall>e\<in>set a. fst e < k" "\<forall>e\<in>set b. k \<le> fst e"
  shows "lower_bound k (a @ b) = (a, b)"
proof -
  have "takeWhile (\<lambda>e. fst e < k) b = []" "dropWhile (\<lambda>e. fst e < k) b = b"
    using assms(2) by (cases b; force)+
  then show ?thesis
    using assms(1) by (simp add: lower_bound_def)
qed

lemma sr_new_idx_spec:
  assumes "segs_ok S (sr_next_assembled_idx r) (sr_unassemble_strs r)" "length S < 2 ^ 62"
  obtains a b where "lower_bound (sr_new_idx r index) (sr_unassemble_strs r) = (a, b)"
    "sr_unassemble_strs r = a @ b"
    "\<And>k str. (k, str) \<in> set a \<Longrightarrow> k + length str \<le> sr_new_idx r index"
    "segs_ok S (sr_new_idx r index) b"
    "index \<le> sr_new_idx r index" "sr_next_assembled_idx r \<le> sr_new_idx r index"
    "\<And>i. index \<le> i \<Longrightarrow> i < sr_new_idx r index \<Longrightarrow> i < sr_next_assembled_idx r \<or> covers a i"
    "sr_new_idx r index \<le> max index (max (sr_next_assembled_idx r) (length S))"
proof -
  let ?m = "sr_unassemble_strs r" and ?next = "sr_next_assembled_idx r"
  obtain a b where ub: "upper_bound index ?m = (a, b)" by (cases "upper_bound index ?m")
  have m: "?m = a @ b" using ub by (rule upper_bound_split)
  have keys: "\<forall>e\<in>set a. fst e \<le> index" "\<forall>e\<in>set b. index < fst e"
    using upper_bound_keys [OF segs_ok_om_wf [OF assms(1)] ub] by auto
  show ?thesis
  proof (cases a rule: rev_cases)
    case Nil
    then have new: "sr_new_idx r index = max index ?next"
      using ub keys(2) by (auto simp: sr_new_idx_def split: list.splits)
    have b: "\<forall>e\<in>set b. sr_new_idx r index \<le> fst e"
      using keys(2) segs_ok_lower [OF assms(1)] m Nil new by (simp add: less_imp_le)
    then have "segs_ok S (sr_new_idx r index) b"
      using assms(1) m Nil by (auto simp: segs_ok_def)
    moreover have "lower_bound (sr_new_idx r index) ?m = ([], b)"
      using lower_bound_eqI [of "[]" _ b] b m Nil by simp
    ultimately show ?thesis
      using m Nil new by (intro that [of "[]" b]) auto
  next
    case (snoc a' e)
    obtain k str where e: "e = (k, str)" by (cases e)
    have seg: "?next \<le> k" "k < k + length str" "k + length str \<le> length S"
      using segs_ok_key [OF assms(1), of k str] m snoc e by auto
    have wrap: "u64_add k (length str) = k + length str"
      using seg assms(2) by (simp add: u64_simps W64_def)
    have new: "sr_new_idx r index = max index (k + length str)"
      using ub keys(1) snoc e by (auto simp: sr_new_idx_def wrap)
    have tail: "segs_ok S (k + length str) b"
      using segs_ok_tail [of S _ a b k str] assms(1) m snoc e by auto
    have b: "\<forall>e\<in>set b. sr_new_idx r index \<le> fst e"
      using keys(2) segs_ok_lower [OF tail] new by (simp add: less_imp_le)
    have okb: "segs_ok S (sr_new_idx r index) b"
      using tail b by (auto simp: segs_ok_def)
    have ends: "k' + length str' \<le> k + length str" if "(k', str') \<in> set a" for k' str'
    proof (cases "(k', str') = e")
      case True
      then show ?thesis using e by simp
    next
      case False
      then have "segs_ok S (k' + length str') [e]"
        using segs_ok_tail [of S ?next a' "[e]" k' str'] segs_ok_appendD [of S ?next "a' @ [e]" b]
          that assms(1) m snoc by auto
      then show ?thesis using e by simp
    qed
    then have "(k', str') \<in> set a \<Longrightarrow> k' + length str' \<le> sr_new_idx r index" for k' str'
      using new by fastforce
    then have a: "\<forall>e\<in>set a. fst e < sr_new_idx r index"
      using assms(1) m by (intro segs_ok_starts [of S ?next "a @ b"]) auto
    have lb: "lower_bound (sr_new_idx r index) ?m = (a, b)"
      unfolding m using a b by (rule lower_bound_eqI)
    show ?thesis
    proof (rule that [OF lb m _ okb])
      show "k' + length str' \<le> sr_new_idx r index" if "(k', str') \<in> set a" for k' str'
        using ends [OF that] new by simp
      show "i < ?next \<or> covers a i" if "index \<le> i" "i < sr_new_idx r index" for i
        using that new keys(1) snoc e by (auto simp: max_def split: if_splits)
    qed (use new seg keys(1) snoc e in auto)
  qed
qed

section \<open>Trimming against the substrings behind\<close>

lemma sr_trim_spec:
  assumes "segs_ok S new m" "sr_trim new num (int E - int new) m = (num', ds', m')"
    "new < 2 ^ 62" "E < 2 ^ 62" "length S < 2 ^ 62"
  shows "\<exists>dropped. m = dropped @ m' \<and>
      (\<forall>(k, str) \<in> set dropped. k + length str \<le> E) \<and>
      ds' \<le> int E - int new \<and> (0 < ds' \<longrightarrow> new < E) \<and>
      segs_ok S (new + nat ds') m' \<and>
      (\<forall>i. new + nat ds' \<le> i \<and> i < E \<longrightarrow> covers m' i) \<and>
      (seg_bytes m \<le> num \<and> num < W64 \<longrightarrow> num' = num - seg_bytes dropped)"
  using assms(1,2)
proof (induction m arbitrary: num)
  case Nil
  then show ?case by (auto simp: nat_diff_distrib)
next
  case (Cons e rest)
  obtain k str where e: "e = (k, str)" by (cases e)
  have seg: "new \<le> k" "str \<noteq> []" "part_of S k str" "segs_ok S (k + length str) rest"
    using Cons.prems(1) e by auto
  have le: "k + length str \<le> length S" using seg(3) by (simp add: part_of_def)
  have dend: "of_ssize (int new + (int E - int new)) = E"
    using assms(4) by (simp add: u64_simps W64_def)
  have kend: "u64_add k (length str) = k + length str"
    using le assms(5) by (simp add: u64_simps W64_def)
  have cut: "to_ssize (u64_sub k new) = int (k - new)"
    using le seg(1) assms(5) by (simp add: u64_simps W64_def)
  consider (none) "E \<le> k" | (part) "k < E" "E < k + length str" | (whole) "k < E" "k + length str \<le> E"
    by linarith
  then show ?case
  proof cases
    case none
    then have res: "num' = num" "ds' = int E - int new" "m' = e # rest"
      using Cons.prems(2) e seg(1) dend by (auto simp: Let_def)
    have "new + nat ds' \<le> k" using none res seg(1) by simp
    then have "segs_ok S (new + nat ds') (e # rest)" using Cons.prems(1) e by simp
    then show ?thesis using res by (intro exI [of _ "[]"]) auto
  next
    case part
    then have res: "num' = num" "ds' = int (k - new)" "m' = e # rest"
      using Cons.prems(2) e seg(1) dend kend cut by (auto simp: Let_def)
    then show ?thesis
      using Cons.prems(1) e part seg(1) by (intro exI [of _ "[]"]) auto
  next
    case whole
    have rest: "segs_ok S new rest"
      using seg(1,4) by (auto intro: segs_ok_mono)
    have trim: "sr_trim new (u64_sub num (length str)) (int E - int new) rest = (num', ds', m')"
      using Cons.prems(2) e whole seg(1) dend kend by (simp add: Let_def)
    obtain d where d: "rest = d @ m'" "\<forall>(k, str) \<in> set d. k + length str \<le> E"
      "ds' \<le> int E - int new" "0 < ds' \<longrightarrow> new < E" "segs_ok S (new + nat ds') m'"
      "\<forall>i. new + nat ds' \<le> i \<and> i < E \<longrightarrow> covers m' i"
      "seg_bytes rest \<le> u64_sub num (length str) \<and> u64_sub num (length str) < W64 \<longrightarrow>
         num' = u64_sub num (length str) - seg_bytes d"
      using Cons.IH [OF rest trim] by blast
    show ?thesis
      using d whole e by (intro exI [of _ "e # d"]) (auto simp: u64_simps)
  qed
qed

section \<open>Moving stored substrings to the output\<close>

lemma sr_assemble_spec:
  assumes "segs_ok S next m" "out_ok S cap n next out" "length S + cap < 2 ^ 62"
  shows "\<exists>m' next' num' out'. sr_assemble m next num out = Inr (m', next', num', out') \<and>
    segs_ok S next' m' \<and> out_ok S cap n next' out' \<and> next \<le> next' \<and>
    bs_input_ended out' = bs_input_ended out \<and>
    (\<forall>i. i < next' \<or> covers m' i \<longrightarrow> i < next \<or> covers m i) \<and>
    (\<forall>i < n + cap. i < next \<or> covers m i \<longrightarrow> i < next' \<or> covers m' i) \<and>
    (covers m' next' \<longrightarrow> next' = n + cap) \<and>
    (num = seg_bytes m \<and> next' < n + cap \<longrightarrow> num' = seg_bytes m')"
  using assms(1,2)
proof (induction m arbitrary: "next" num out)
  case Nil
  then show ?case by auto
next
  case (Cons e rest)
  obtain k str where e: "e = (k, str)" by (cases e)
  have seg: "next \<le> k" "str \<noteq> []" "part_of S k str" "segs_ok S (k + length str) rest"
    using Cons.prems(1) e by auto
  show ?case
  proof (cases "k = next")
    case False
    have "\<not> covers (e # rest) next"
      using False seg(1) e covers_below [OF seg(4), of "next"] by auto
    then show ?thesis
      using False seg(1) e Cons.prems by auto
  next
    case True
    obtain w out1 where w: "ByteStream_write out str = (w, out1)"
      by (cases "ByteStream_write out str")
    have part: "part_of S next str" using seg(3) True by simp
    note wr = out_write [OF Cons.prems(2) part assms(3) w]
    have bounds: "n \<le> next" "next \<le> n + cap"
      using out_next_bound [OF Cons.prems(2)] by auto
    show ?thesis
    proof (cases "w < length str")
      case False
      then have len: "w = length str" using wr(1) by simp
      have count: "u64_sub num (length str) = seg_bytes rest" if "num = seg_bytes (e # rest)"
        using that e seg_bytes_bound [OF Cons.prems(1)] Cons.prems(2) assms(3)
        by (simp add: out_ok_def u64_simps W64_def)
      have eq: "sr_assemble (e # rest) next num out =
          sr_assemble rest (next + length str) (u64_sub num (length str)) out1"
        using e True w False wr(3) len by simp
      obtain m' next' num' out' where IH:
        "sr_assemble rest (next + length str) (u64_sub num (length str)) out1 = Inr (m', next', num', out')"
        "segs_ok S next' m'" "out_ok S cap n next' out'" "next + length str \<le> next'"
        "bs_input_ended out' = bs_input_ended out1"
        "\<forall>i. i < next' \<or> covers m' i \<longrightarrow> i < next + length str \<or> covers rest i"
        "\<forall>i < n + cap. i < next + length str \<or> covers rest i \<longrightarrow> i < next' \<or> covers m' i"
        "covers m' next' \<longrightarrow> next' = n + cap"
        "u64_sub num (length str) = seg_bytes rest \<and> next' < n + cap \<longrightarrow> num' = seg_bytes m'"
        using Cons.IH [of "next + length str" out1 "u64_sub num (length str)"] seg(4) True wr(2) len
        by blast
      show ?thesis
        unfolding eq
      proof (rule exI [of _ m'], rule exI [of _ next'], rule exI [of _ num'], rule exI [of _ out'], intro conjI)
        show "\<forall>i. i < next' \<or> covers m' i \<longrightarrow> i < next \<or> covers (e # rest) i"
          using IH(6) e True by auto
        show "\<forall>i<n + cap. i < next \<or> covers (e # rest) i \<longrightarrow> i < next' \<or> covers m' i"
          using IH(7) e True by auto
        show "num = seg_bytes (e # rest) \<and> next' < n + cap \<longrightarrow> num' = seg_bytes m'"
          using IH(9) count by blast
      qed (use IH(1-5,8) wr(4) in simp_all)
    next
      case short: True
      then have full: "w = n + cap - next" "next + w = n + cap"
        using wr(1) bounds by auto
      let ?m = "if w = 0 then rest else (next + w, drop w str) # rest"
      have above: "\<forall>e\<in>set rest. next + w < fst e"
        using segs_ok_lower [OF seg(4)] short True by force
      have ins: "om_erase k (om_insert (next + w) (drop w str) (e # rest)) = ?m"
      proof (cases "w = 0")
        case False
        then have "om_insert (next + w) (drop w str) ([e] @ rest) = [e] @ (next + w, drop w str) # rest"
          using above e True by (intro om_insert_between) auto
        then show ?thesis using e False True by simp
      qed (use e True in simp)
      obtain num' where eq: "sr_assemble (e # rest) next num out = Inr (?m, next + w, num', out1)"
        using e True w short wr(3) ins by (simp add: Let_def)
      have ok: "segs_ok S (next + w) ?m"
        using seg(4) True short part_of_drop [OF part, of w] by (auto intro: segs_ok_mono)
      show ?thesis
        unfolding eq
      proof (rule exI [of _ ?m], rule exI [of _ "next + w"], rule exI [of _ num'], rule exI [of _ out1], intro conjI)
        show "\<forall>i. i < next + w \<or> covers ?m i \<longrightarrow> i < next \<or> covers (e # rest) i"
          using e True short by auto
      qed (use ok wr(2,4) full(2) in simp_all)
    qed
  qed
qed

section \<open>Accepting new data\<close>

lemma sr_accept_spec:
  assumes inv: "segs_ok S (sr_next_assembled_idx r) (a @ b)"
      "out_ok S cap n (sr_next_assembled_idx r) (sr_output r)" "length S + cap < 2 ^ 62"
    and strs: "sr_unassemble_strs r = a @ b" "\<And>k str. (k, str) \<in> set a \<Longrightarrow> k + length str \<le> new_idx"
      "segs_ok S (new_idx + length d) b"
    and d: "d \<noteq> []" "part_of S new_idx d" "sr_next_assembled_idx r \<le> new_idx"
    and r': "r' = sr_accept r new_idx d"
  shows "segs_ok S (sr_next_assembled_idx r') (sr_unassemble_strs r')"
    "out_ok S cap n (sr_next_assembled_idx r') (sr_output r')"
    "sr_known r' i \<longleftrightarrow> sr_known r i \<or> (new_idx \<le> i \<and> i < new_idx + length d)"
    "sr_eof_idx r' = sr_eof_idx r" "sr_capacity r' = sr_capacity r"
    "bs_input_ended (sr_output r') = bs_input_ended (sr_output r)"
    "sr_unassembled_bytes_num r = seg_bytes (a @ b) \<Longrightarrow>
       sr_unassembled_bytes_num r' = seg_bytes (sr_unassemble_strs r')"
    "sr_next_assembled_idx r \<le> sr_next_assembled_idx r'"
proof -
  let ?next = "sr_next_assembled_idx r"
  have count: "u64_add (seg_bytes (a @ b)) k = seg_bytes (a @ b) + k" if "k \<le> length S" for k
    using seg_bytes_bound [OF inv(1)] inv(2,3) that by (simp add: out_ok_def u64_simps W64_def)
  have dlen: "length d \<le> length S"
    using d(2) by (simp add: part_of_def)
  have above: "\<forall>e\<in>set b. new_idx + length d \<le> fst e"
    using segs_ok_lower [OF strs(3)] by simp
  have okd: "segs_ok S new_idx ((new_idx, d) # b)"
    using d strs(3) by simp
  have "segs_ok S (sr_next_assembled_idx r') (sr_unassemble_strs r') \<and>
    out_ok S cap n (sr_next_assembled_idx r') (sr_output r') \<and>
    (sr_known r' i \<longleftrightarrow> sr_known r i \<or> (new_idx \<le> i \<and> i < new_idx + length d)) \<and>
    sr_eof_idx r' = sr_eof_idx r \<and> sr_capacity r' = sr_capacity r \<and>
    bs_input_ended (sr_output r') = bs_input_ended (sr_output r) \<and>
    (sr_unassembled_bytes_num r = seg_bytes (a @ b) \<longrightarrow>
       sr_unassembled_bytes_num r' = seg_bytes (sr_unassemble_strs r')) \<and>
    sr_next_assembled_idx r \<le> sr_next_assembled_idx r'"
  proof (cases "new_idx = ?next")
    case True
    have "\<forall>e\<in>set a. fst e < new_idx"
      using inv(1) strs(2) by (intro segs_ok_starts [of S ?next "a @ b"]) auto
    then have "a = []"
      using segs_ok_lower [OF inv(1), of "hd a"] True by (cases a) auto
    obtain w out where w: "ByteStream_write (sr_output r) d = (w, out)"
      by (cases "ByteStream_write (sr_output r) d")
    have part: "part_of S ?next d" using d(2) True by simp
    note wr = out_write [OF inv(2) part inv(3) w]
    show ?thesis
    proof (cases "w < length d")
      case False
      then have "w = length d" using wr(1) by simp
      then show ?thesis
        using r' True w wr strs \<open>a = []\<close> d
        by (auto simp: sr_accept_def sr_known_def)
    next
      case short: True
      have ins: "om_insert (?next + w) (drop w d) ([] @ b) = [] @ (?next + w, drop w d) # b"
        using above True short by (intro om_insert_between) fastforce+
      show ?thesis
        using r' True w wr strs \<open>a = []\<close> d short ins part_of_drop [OF part, of w] dlen
          count [of "length d - w"]
        by (auto simp: sr_accept_def sr_known_def Let_def)
    qed
  next
    case False
    have "\<forall>e\<in>set a. fst e < new_idx"
      using inv(1) strs(2) by (intro segs_ok_starts [of S ?next "a @ b"]) auto
    then have ins: "om_insert new_idx d (a @ b) = a @ (new_idx, d) # b"
      using above d(1) by (intro om_insert_between) (auto simp flip: length_greater_0_conv)
    have "segs_ok S ?next (a @ (new_idx, d) # b)"
      using segs_ok_appendD [OF inv(1)] strs(2) d(3) okd by (intro segs_ok_join [where x = new_idx]) auto
    then show ?thesis
      using r' False ins strs(1) inv(2) count [OF dlen]
      by (auto simp: sr_accept_def sr_known_def)
  qed
  then show "segs_ok S (sr_next_assembled_idx r') (sr_unassemble_strs r')"
    "out_ok S cap n (sr_next_assembled_idx r') (sr_output r')"
    "sr_known r' i \<longleftrightarrow> sr_known r i \<or> (new_idx \<le> i \<and> i < new_idx + length d)"
    "sr_eof_idx r' = sr_eof_idx r" "sr_capacity r' = sr_capacity r"
    "bs_input_ended (sr_output r') = bs_input_ended (sr_output r)"
    "sr_unassembled_bytes_num r = seg_bytes (a @ b) \<Longrightarrow>
       sr_unassembled_bytes_num r' = seg_bytes (sr_unassemble_strs r')"
    "sr_next_assembled_idx r \<le> sr_next_assembled_idx r'"
    by blast+
qed

section \<open>Pushing a substring\<close>

lemma to_ssize_diff:
  assumes "a < 2 ^ 62" "b < 2 ^ 62"
  shows "to_ssize (u64_sub a b) = int a - int b"
proof (cases "b \<le> a")
  case True
  then show ?thesis
    using assms by (simp add: u64_simps W64_def)
next
  case False
  then have "u64_sub a b = a + W64 - b"
    using assms by (intro u64_sub_wrap) (auto simp: W64_def)
  then show ?thesis
    using False assms by (simp add: to_ssize_def W64_def)
qed

lemma sr_inv_window:
  assumes "sr_inv S n r"
  shows "sr_window_end r = n + sr_capacity r"
    "u64_sub (u64_add (sr_next_assembled_idx r) (sr_capacity r)) (ByteStream_buffer_size (sr_output r))
      = sr_window_end r"
proof -
  have out: "out_ok S (sr_capacity r) n (sr_next_assembled_idx r) (sr_output r)"
    and len: "length S + sr_capacity r < 2 ^ 62"
    using assms by (auto simp: sr_inv_def)
  have next_le: "sr_next_assembled_idx r \<le> length S"
    using out by (simp add: out_ok_def)
  have buf: "n \<le> sr_next_assembled_idx r" "sr_next_assembled_idx r \<le> n + sr_capacity r"
    "length (bs_buffer (sr_output r)) = sr_next_assembled_idx r - n"
    using out_next_bound [OF out] by auto
  show w: "sr_window_end r = n + sr_capacity r"
    using buf by (simp add: sr_window_end_def)
  have "u64_add (sr_next_assembled_idx r) (sr_capacity r) = sr_next_assembled_idx r + sr_capacity r"
    using next_le len by (simp add: u64_simps W64_def)
  moreover have "sr_next_assembled_idx r + sr_capacity r < W64"
    using next_le len by (simp add: W64_def)
  ultimately show "u64_sub (u64_add (sr_next_assembled_idx r) (sr_capacity r))
      (ByteStream_buffer_size (sr_output r)) = sr_window_end r"
    using buf by (simp add: ByteStream_buffer_size_def u64_simps sr_window_end_def)
qed

text \<open>What is known once the new data has been cut and the covered substrings are gone.\<close>

lemma sr_trim_known:
  assumes "segs_ok S new (dropped @ m')" "\<forall>(k, str) \<in> set dropped. k + length str \<le> E"
    "ds' \<le> int E - int new" "0 < ds' \<longrightarrow> new < E"
    "\<forall>i. new + nat ds' \<le> i \<and> i < E \<longrightarrow> covers m' i"
    "\<And>i. index \<le> i \<Longrightarrow> i < new \<Longrightarrow> i < next \<or> covers a i" "index \<le> new"
  shows "i < next \<or> covers (a @ m') i \<or> (new \<le> i \<and> i < new + nat ds') \<longleftrightarrow>
    i < next \<or> covers (a @ dropped @ m') i \<or> (index \<le> i \<and> i < E)"
proof -
  have "new \<le> i \<and> i < E" if "covers dropped i"
    using that assms(2) covers_below [of S new dropped i] segs_ok_appendD [OF assms(1)]
    by (fastforce simp: covers_def)
  moreover have "new + nat ds' \<le> E \<or> nat ds' = 0"
    using assms(3,4) by linarith
  ultimately show ?thesis
    using assms(5,6,7) by (cases "i < new") (auto simp: not_less)
qed

lemma sr_finish_spec:
  assumes inv: "sr_inv S n r" and eof: "eof_idx = W64 - 1 \<or> eof_idx = length S"
  shows "\<exists>r'. sr_finish r eof_idx = Inr r' \<and> sr_inv S n r' \<and>
    sr_capacity r' = sr_capacity r \<and> sr_next_assembled_idx r \<le> sr_next_assembled_idx r' \<and>
    (\<forall>i. sr_known r' i \<longrightarrow> sr_known r i) \<and>
    (\<forall>i < sr_window_end r. sr_known r i \<longrightarrow> sr_known r' i) \<and>
    (sr_known r' (sr_next_assembled_idx r') \<longrightarrow> sr_next_assembled_idx r' = sr_window_end r) \<and>
    sr_eof_idx r' = eof_idx \<and>
    (eof_idx = sr_next_assembled_idx r' \<longrightarrow> bs_input_ended (sr_output r')) \<and>
    (sr_unassembled_bytes_num r = seg_bytes (sr_unassemble_strs r) \<and>
     sr_next_assembled_idx r' < sr_window_end r \<longrightarrow>
       sr_unassembled_bytes_num r' = seg_bytes (sr_unassemble_strs r'))"
proof -
  let ?cap = "sr_capacity r"
  have len: "length S + ?cap < 2 ^ 62"
    and segs: "segs_ok S (sr_next_assembled_idx r) (sr_unassemble_strs r)"
    and out: "out_ok S ?cap n (sr_next_assembled_idx r) (sr_output r)"
    and ended: "bs_input_ended (sr_output r) \<longrightarrow> sr_next_assembled_idx r = length S"
    using inv by (auto simp: sr_inv_def)
  obtain m' next' num' out' where asm:
    "sr_assemble (sr_unassemble_strs r) (sr_next_assembled_idx r) (sr_unassembled_bytes_num r)
       (sr_output r) = Inr (m', next', num', out')"
    and post: "segs_ok S next' m'" "out_ok S ?cap n next' out'" "sr_next_assembled_idx r \<le> next'"
    "bs_input_ended out' = bs_input_ended (sr_output r)"
    "\<forall>i. i < next' \<or> covers m' i \<longrightarrow> sr_known r i"
    "\<forall>i < n + ?cap. sr_known r i \<longrightarrow> i < next' \<or> covers m' i"
    "covers m' next' \<longrightarrow> next' = n + ?cap"
    "sr_unassembled_bytes_num r = seg_bytes (sr_unassemble_strs r) \<and> next' < n + ?cap \<longrightarrow>
       num' = seg_bytes m'"
    using sr_assemble_spec [OF segs out len, of "sr_unassembled_bytes_num r"]
    unfolding sr_known_def by blast
  define r' where "r' = r\<lparr>sr_unassemble_strs := m', sr_next_assembled_idx := next',
      sr_unassembled_bytes_num := num', sr_eof_idx := eof_idx,
      sr_output := (if eof_idx \<le> next' then ByteStream_end_input out' else out')\<rparr>"
  have eq: "sr_finish r eof_idx = Inr r'"
    by (simp add: sr_finish_def asm r'_def)
  have next_le: "next' \<le> length S" using post(2) by (simp add: out_ok_def)
  have out_end: "out_ok S ?cap n next' (ByteStream_end_input out')"
    using post(2) bs_inv_end_input [of out'] by (auto simp: out_ok_def ByteStream_end_input_def bs_holds_def)
  have "eof_idx \<le> next' \<Longrightarrow> next' = length S"
    using eof next_le len by (auto simp: W64_def)
  then have "sr_inv S n r'"
    using post(1,2,3,4) ended eof len out_end next_le by (auto simp: sr_inv_def r'_def)
  then show ?thesis
    using eq post(3,5-8) sr_inv_window(1) [OF inv]
    by (intro exI [of _ r'] conjI) (auto simp: r'_def sr_known_def ByteStream_end_input_def)
qed

lemma push_substring_cut:
  assumes inv: "sr_inv S n r" and data: "part_of S index data"
  obtains a m' num ds r1 where
    "r1 = r\<lparr>sr_unassemble_strs := a @ m', sr_unassembled_bytes_num := num\<rparr>"
    "push_substring r data index eof =
       (if sr_window_end r \<le> sr_new_idx r index then Inr r1
        else sr_finish
          (if 0 < ds then sr_accept r1 (sr_new_idx r index)
             (take (nat ds) (drop (sr_new_idx r index - index) data)) else r1)
          (if eof then index + length data else sr_eof_idx r))"
    "segs_ok S (sr_next_assembled_idx r) (a @ m')"
    "\<And>k str. (k, str) \<in> set a \<Longrightarrow> k + length str \<le> sr_new_idx r index"
    "segs_ok S (sr_new_idx r index + nat ds) m'"
    "index \<le> sr_new_idx r index" "sr_next_assembled_idx r \<le> sr_new_idx r index"
    "ds \<le> int (index + length data) - int (sr_new_idx r index)"
    "\<And>i. sr_known r1 i \<or> (sr_new_idx r index \<le> i \<and> i < sr_new_idx r index + nat ds) \<longleftrightarrow>
       sr_known r i \<or> (index \<le> i \<and> i < index + length data)"
    "sr_unassembled_bytes_num r = seg_bytes (sr_unassemble_strs r) \<Longrightarrow> num = seg_bytes (a @ m')"
    "set (a @ m') \<subseteq> set (sr_unassemble_strs r)"
proof -
  let ?next = "sr_next_assembled_idx r" and ?E = "index + length data"
  define new where "new = sr_new_idx r index"
  have lenS: "length S < 2 ^ 62" and segs: "segs_ok S ?next (sr_unassemble_strs r)"
    and next_le: "?next \<le> length S" and E: "?E \<le> length S"
    using inv data by (auto simp: sr_inv_def out_ok_def part_of_def)
  obtain a b where lb: "lower_bound new (sr_unassemble_strs r) = (a, b)"
    and strs: "sr_unassemble_strs r = a @ b"
    and ends: "\<And>k str. (k, str) \<in> set a \<Longrightarrow> k + length str \<le> new"
    and okb: "segs_ok S new b" and ge: "index \<le> new" "?next \<le> new"
    and gap: "\<And>i. index \<le> i \<Longrightarrow> i < new \<Longrightarrow> i < ?next \<or> covers a i"
    and le: "new \<le> max index (max ?next (length S))"
    using sr_new_idx_spec [OF segs lenS, of index] unfolding new_def by metis
  have bnd: "new < 2 ^ 62" "?E < 2 ^ 62" using le next_le E lenS by simp_all
  have start: "u64_sub new index = new - index"
    using ge(1) bnd by (simp add: u64_simps W64_def)
  have size: "to_ssize (u64_sub (length data) (new - index)) = int ?E - int new"
    using bnd ge(1) by (simp add: to_ssize_diff)
  have wrap: "u64_add index (length data) = ?E"
    using bnd(2) by (simp add: u64_simps W64_def)
  obtain num ds m' where trim:
    "sr_trim new (sr_unassembled_bytes_num r) (int ?E - int new) b = (num, ds, m')"
    by (cases "sr_trim new (sr_unassembled_bytes_num r) (int ?E - int new) b") auto
  obtain d where d: "b = d @ m'" "\<forall>(k, str) \<in> set d. k + length str \<le> ?E" "ds \<le> int ?E - int new"
    "0 < ds \<longrightarrow> new < ?E" "segs_ok S (new + nat ds) m'"
    "\<forall>i. new + nat ds \<le> i \<and> i < ?E \<longrightarrow> covers m' i"
    "seg_bytes b \<le> sr_unassembled_bytes_num r \<and> sr_unassembled_bytes_num r < W64 \<longrightarrow>
       num = sr_unassembled_bytes_num r - seg_bytes d"
    using sr_trim_spec [OF okb trim bnd lenS] by blast
  define r1 where "r1 = r\<lparr>sr_unassemble_strs := a @ m', sr_unassembled_bytes_num := num\<rparr>"
  show ?thesis
  proof (rule that [where ?r1.0 = r1 and a = a and m' = m' and num = num and ds = ds, folded new_def, OF r1_def])
    show "push_substring r data index eof =
       (if sr_window_end r \<le> new then Inr r1
        else sr_finish (if 0 < ds then sr_accept r1 new (take (nat ds) (drop (new - index) data)) else r1)
          (if eof then ?E else sr_eof_idx r))"
      unfolding push_substring_def Let_def new_def [symmetric] lb prod.case start size trim wrap
        sr_inv_window(2) [OF inv] r1_def
      using d(3) by auto
    show "segs_ok S ?next (a @ m')"
      using segs_ok_appendD [of S ?next a b] segs strs ends ge(2) d(1) okb segs_ok_appendD [of S new d m']
      by (intro segs_ok_join [where x = new]) auto
    show "sr_known r1 i \<or> (new \<le> i \<and> i < new + nat ds) \<longleftrightarrow> sr_known r i \<or> (index \<le> i \<and> i < ?E)" for i
      using sr_trim_known [OF okb [unfolded d(1)] d(2,3,4,6) gap ge(1)] d(1) strs
      by (simp add: sr_known_def r1_def)
    show "num = seg_bytes (a @ m')" if "sr_unassembled_bytes_num r = seg_bytes (sr_unassemble_strs r)"
      using that d(1,7) strs seg_bytes_bound [OF segs next_le] lenS by (auto simp: W64_def)
  qed (use ends d ge strs in auto)
qed

text \<open>A push whose new part starts behind the window changes neither the output nor the end, and learns nothing.\<close>

lemma push_substring_outside:
  assumes inv: "sr_inv S n r" and data: "part_of S index data" and out: "sr_window_end r \<le> sr_new_idx r index"
  shows "\<exists>r'. push_substring r data index eof = Inr r' \<and> sr_output r' = sr_output r \<and> sr_eof_idx r' = sr_eof_idx r \<and>
    sr_next_assembled_idx r' = sr_next_assembled_idx r \<and> (\<forall>i. sr_known r' i \<longrightarrow> sr_known r i)"
proof (rule push_substring_cut [OF inv data, where eof = eof])
  fix a m' num ds r1
  assume r1: "r1 = r\<lparr>sr_unassemble_strs := a @ m', sr_unassembled_bytes_num := num\<rparr>" "set (a @ m') \<subseteq> set (sr_unassemble_strs r)"
    and push: "push_substring r data index eof =
       (if sr_window_end r \<le> sr_new_idx r index then Inr r1
        else sr_finish
          (if 0 < ds then sr_accept r1 (sr_new_idx r index)
             (take (nat ds) (drop (sr_new_idx r index - index) data)) else r1)
          (if eof then index + length data else sr_eof_idx r))"
  have "sr_known r1 i \<Longrightarrow> sr_known r i" for i using r1 by (auto simp: sr_known_def covers_def)
  then show ?thesis using push out r1(1) by auto
qed

lemma sr_accept_inv:
  assumes inv: "sr_inv S n r" and strs: "sr_unassemble_strs r = a @ b"
    and ends: "\<And>k str. (k, str) \<in> set a \<Longrightarrow> k + length str \<le> new"
    and b: "segs_ok S (new + nat ds) b" and data: "part_of S index data"
    and ge: "index \<le> new" "sr_next_assembled_idx r \<le> new"
    and ds: "0 < ds" "ds \<le> int (index + length data) - int new"
    and r': "r' = sr_accept r new (take (nat ds) (drop (new - index) data))"
  shows "sr_inv S n r'" "sr_capacity r' = sr_capacity r"
    "sr_next_assembled_idx r \<le> sr_next_assembled_idx r'"
    "sr_known r' i \<longleftrightarrow> sr_known r i \<or> (new \<le> i \<and> i < new + nat ds)"
    "sr_unassembled_bytes_num r = seg_bytes (sr_unassemble_strs r) \<Longrightarrow>
       sr_unassembled_bytes_num r' = seg_bytes (sr_unassemble_strs r')"
proof -
  let ?d = "take (nat ds) (drop (new - index) data)"
  have "nat ds \<le> length data - (new - index)" using ds ge(1) by linarith
  then have len: "length ?d = nat ds" by simp
  then have ne: "?d \<noteq> []" using ds(1) by (metis length_greater_0_conv zero_less_nat_eq)
  have part: "part_of S new ?d"
    using part_of_take [OF part_of_drop [OF data, of "new - index"]] ge(1) ds by simp
  have i: "segs_ok S (sr_next_assembled_idx r) (a @ b)"
      "out_ok S (sr_capacity r) n (sr_next_assembled_idx r) (sr_output r)"
      "length S + sr_capacity r < 2 ^ 62"
    using inv strs by (auto simp: sr_inv_def)
  note acc = sr_accept_spec [OF i strs ends _ ne part ge(2) r', unfolded len, OF _ b]
  show known: "sr_known r' i \<longleftrightarrow> sr_known r i \<or> (new \<le> i \<and> i < new + nat ds)"
    using acc(3) by blast
  show next_le: "sr_next_assembled_idx r \<le> sr_next_assembled_idx r'"
    using acc(8) by blast
  show "sr_capacity r' = sr_capacity r" using acc(5) by blast
  show "sr_inv S n r'"
    using inv acc(1,2,4,5,6) next_le
    by (auto simp: sr_inv_def out_ok_def)
  show "sr_unassembled_bytes_num r = seg_bytes (sr_unassemble_strs r) \<Longrightarrow>
       sr_unassembled_bytes_num r' = seg_bytes (sr_unassemble_strs r')"
    using acc(7) strs by simp
qed

lemma sr_accept_if:
  assumes inv: "sr_inv S n r" and strs: "sr_unassemble_strs r = a @ b"
    and ends: "\<And>k str. (k, str) \<in> set a \<Longrightarrow> k + length str \<le> new"
    and b: "segs_ok S (new + nat ds) b" and data: "part_of S index data"
    and ge: "index \<le> new" "sr_next_assembled_idx r \<le> new"
    and ds: "ds \<le> int (index + length data) - int new"
    and r': "r' = (if 0 < ds then sr_accept r new (take (nat ds) (drop (new - index) data)) else r)"
  shows "sr_inv S n r' \<and> sr_capacity r' = sr_capacity r \<and>
    sr_next_assembled_idx r \<le> sr_next_assembled_idx r' \<and>
    (\<forall>i. sr_known r' i \<longleftrightarrow> sr_known r i \<or> (new \<le> i \<and> i < new + nat ds)) \<and>
    (sr_unassembled_bytes_num r = seg_bytes (sr_unassemble_strs r) \<longrightarrow>
       sr_unassembled_bytes_num r' = seg_bytes (sr_unassemble_strs r'))"
proof (cases "0 < ds")
  case True
  then have "r' = sr_accept r new (take (nat ds) (drop (new - index) data))" using r' by simp
  note acc = sr_accept_inv [OF inv strs _ b data ge True ds this]
  show ?thesis using acc [OF ends] by blast
next
  case False
  then show ?thesis using inv r' by auto
qed

lemma push_substring_spec:
  assumes inv: "sr_inv S n r"
    and data: "part_of S index data" and eof: "eof \<Longrightarrow> index + length data = length S"
  shows "\<exists>r'. push_substring r data index eof = Inr r' \<and> sr_inv S n r' \<and>
    sr_capacity r' = sr_capacity r \<and> sr_next_assembled_idx r \<le> sr_next_assembled_idx r' \<and>
    (\<forall>i. sr_known r' i \<longrightarrow> sr_known r i \<or> (index \<le> i \<and> i < index + length data)) \<and>
    (\<forall>i < sr_window_end r. sr_known r i \<or> (index \<le> i \<and> i < index + length data) \<longrightarrow> sr_known r' i) \<and>
    (sr_new_idx r index < sr_window_end r \<longrightarrow>
       (sr_known r' (sr_next_assembled_idx r') \<longrightarrow> sr_next_assembled_idx r' = sr_window_end r) \<and>
       sr_eof_idx r' = (if eof then length S else sr_eof_idx r) \<and>
       (sr_eof_idx r' = sr_next_assembled_idx r' \<longrightarrow> bs_input_ended (sr_output r'))) \<and>
    (sr_unassembled_bytes_num r = seg_bytes (sr_unassemble_strs r) \<and>
     sr_next_assembled_idx r' < sr_window_end r \<longrightarrow>
       sr_unassembled_bytes_num r' = seg_bytes (sr_unassemble_strs r'))"
proof -
  let ?new = "sr_new_idx r index" and ?E = "index + length data" and ?next = "sr_next_assembled_idx r"
  obtain a m' num ds r1 where r1: "r1 = r\<lparr>sr_unassemble_strs := a @ m', sr_unassembled_bytes_num := num\<rparr>"
    and push: "push_substring r data index eof =
       (if sr_window_end r \<le> ?new then Inr r1
        else sr_finish (if 0 < ds then sr_accept r1 ?new (take (nat ds) (drop (?new - index) data)) else r1)
          (if eof then ?E else sr_eof_idx r))"
    and segs: "segs_ok S ?next (a @ m')" "\<And>k str. (k, str) \<in> set a \<Longrightarrow> k + length str \<le> ?new"
      "segs_ok S (?new + nat ds) m'"
    and ge: "index \<le> ?new" "?next \<le> ?new" and ds: "ds \<le> int ?E - int ?new"
    and known: "\<And>i. sr_known r1 i \<or> (?new \<le> i \<and> i < ?new + nat ds) \<longleftrightarrow>
       sr_known r i \<or> (index \<le> i \<and> i < ?E)"
    and count: "sr_unassembled_bytes_num r = seg_bytes (sr_unassemble_strs r) \<Longrightarrow> num = seg_bytes (a @ m')"
    by (rule push_substring_cut [OF inv data, where eof = eof]) (rule that)
  have inv1: "sr_inv S n r1"
    using inv segs(1) by (simp add: sr_inv_def r1)
  show ?thesis
  proof (cases "sr_window_end r \<le> ?new")
    case True
    then have "push_substring r data index eof = Inr r1" using push by simp
    moreover have "sr_known r1 i" if "i < sr_window_end r" "sr_known r i \<or> (index \<le> i \<and> i < ?E)" for i
      using known [of i] that True by linarith
    moreover have "sr_known r i \<or> (index \<le> i \<and> i < ?E)" if "sr_known r1 i" for i
      using known [of i] that by blast
    moreover have "sr_capacity r1 = sr_capacity r" "sr_next_assembled_idx r1 = ?next"
      "sr_unassembled_bytes_num r1 = num" "sr_unassemble_strs r1 = a @ m'"
      by (simp_all add: r1)
    ultimately show ?thesis
      using inv1 True count by (intro exI [of _ r1] conjI allI impI) simp_all
  next
    case False
    define r2 where "r2 = (if 0 < ds then sr_accept r1 ?new (take (nat ds) (drop (?new - index) data)) else r1)"
    have r1_fields: "sr_unassemble_strs r1 = a @ m'" "?next \<le> ?new" "sr_next_assembled_idx r1 \<le> ?new"
      using r1 ge by simp_all
    have fields: "sr_capacity r1 = sr_capacity r" "sr_next_assembled_idx r1 = ?next"
      "sr_unassembled_bytes_num r1 = num"
      by (simp_all add: r1)
    note acc = sr_accept_if [OF inv1 r1_fields(1) segs(2) segs(3) data ge(1) r1_fields(3) ds r2_def]
    have r2: "sr_inv S n r2" "sr_capacity r2 = sr_capacity r" "?next \<le> sr_next_assembled_idx r2"
      "\<And>i. sr_known r2 i \<longleftrightarrow> sr_known r i \<or> (index \<le> i \<and> i < ?E)"
      "sr_unassembled_bytes_num r = seg_bytes (sr_unassemble_strs r) \<Longrightarrow>
         sr_unassembled_bytes_num r2 = seg_bytes (sr_unassemble_strs r2)"
      using acc [unfolded fields r1_fields(1)] count known by blast+
    have win: "sr_window_end r2 = sr_window_end r"
      using r2 sr_inv_window(1) [OF inv] sr_inv_window(1) [of S n r2] by simp
    define eof_idx where "eof_idx = (if eof then length S else sr_eof_idx r)"
    have "eof_idx = W64 - 1 \<or> eof_idx = length S"
      using inv by (auto simp: sr_inv_def eof_idx_def)
    then obtain r' where fin: "sr_finish r2 eof_idx = Inr r'" "sr_inv S n r'"
      "sr_capacity r' = sr_capacity r2" "sr_next_assembled_idx r2 \<le> sr_next_assembled_idx r'"
      "\<forall>i. sr_known r' i \<longrightarrow> sr_known r2 i" "\<forall>i < sr_window_end r2. sr_known r2 i \<longrightarrow> sr_known r' i"
      "sr_known r' (sr_next_assembled_idx r') \<longrightarrow> sr_next_assembled_idx r' = sr_window_end r2"
      "sr_eof_idx r' = eof_idx" "eof_idx = sr_next_assembled_idx r' \<longrightarrow> bs_input_ended (sr_output r')"
      "sr_unassembled_bytes_num r2 = seg_bytes (sr_unassemble_strs r2) \<and>
       sr_next_assembled_idx r' < sr_window_end r2 \<longrightarrow>
         sr_unassembled_bytes_num r' = seg_bytes (sr_unassemble_strs r')"
      using sr_finish_spec [OF r2(1)] by blast
    have "(if eof then ?E else sr_eof_idx r) = eof_idx" using eof by (simp add: eof_idx_def)
    then have "push_substring r data index eof = Inr r'"
      using push [folded r2_def] False fin(1) by simp
    moreover have "sr_next_assembled_idx r \<le> sr_next_assembled_idx r'" using r2(3) fin(4) by linarith
    moreover have "sr_known r i \<or> (index \<le> i \<and> i < ?E)" if "sr_known r' i" for i
      using fin(5) that r2(4) by blast
    moreover have "sr_known r' i" if "i < sr_window_end r" "sr_known r i \<or> (index \<le> i \<and> i < ?E)" for i
      using fin(6) [unfolded win] that r2(4) by blast
    ultimately show ?thesis
      using fin(2,3,7-10) [unfolded win eof_idx_def r2(2)] r2(5)
      by (intro exI [of _ r']) presburger
  qed
qed

section \<open>Runs\<close>

lemma sr_inv_new [inv_intros]:
  "length S + capacity < 2 ^ 62 \<Longrightarrow> sr_inv S 0 (StreamReassembler_new capacity)"
  by (simp add: sr_inv_def StreamReassembler_new_def out_ok_def bs_inv_new bs_holds_new W64_def)
    (simp add: ByteStream_new_def)

lemma sr_known_new [simp]: "\<not> sr_known (StreamReassembler_new capacity) i"
  by (simp add: sr_known_def StreamReassembler_new_def)

lemma sr_read_inv:
  assumes "sr_inv S n r" "sr_read r len = (out, r')"
  shows "sr_inv S (n + length out) r'" "out = take len (drop n (take (sr_next_assembled_idx r) S))"
    "sr_capacity r' = sr_capacity r" "\<And>i. sr_known r' i = sr_known r i"
proof -
  have r': "r' = r\<lparr>sr_output := snd (ByteStream_read (sr_output r) len)\<rparr>"
    and out: "out = fst (ByteStream_read (sr_output r) len)"
    using assms(2) by (simp_all add: sr_read_def split_beta Let_def)
  have inv: "bs_inv (sr_output r)" and holds: "bs_holds (sr_output r) (take (sr_next_assembled_idx r) S) n"
    using assms(1) by (simp_all add: sr_inv_def out_ok_def)
  have flags: "bs_input_ended (snd (ByteStream_read s len)) = bs_input_ended s" for s
    by (simp add: ByteStream_read_def ByteStream_pop_output_def Let_def)
  show "sr_inv S (n + length out) r'"
    using assms(1) bs.read_inv [OF inv, of len] bs.read_holds [OF inv holds, of len]
    by (simp add: sr_inv_def out_ok_def r' out bs.read_capacity flags)
  show "out = take len (drop n (take (sr_next_assembled_idx r) S))"
    unfolding out using inv holds by (rule bs.read_bytes)
  show "sr_capacity r' = sr_capacity r" "\<And>i. sr_known r' i = sr_known r i"
    by (simp_all add: r' sr_known_def)
qed

lemma sr_inv_next_le: "sr_inv S n r \<Longrightarrow> n \<le> sr_next_assembled_idx r \<and> sr_next_assembled_idx r \<le> length S"
  by (auto simp: sr_inv_def out_ok_def bs_holds_def)

lemma sr_calls_run:
  assumes "sr_inv S n r" "\<forall>c \<in> set cs. sr_call_ok S c"
  shows "\<exists>out r'. sr_calls r cs = Inr (out, r') \<and> sr_inv S (n + length out) r' \<and>
    take (n + length out) S = take n S @ out"
  using assms
proof (induction cs arbitrary: n r)
  case Nil
  then show ?case by simp
next
  case (Cons c cs)
  show ?case
  proof (cases c)
    case (Push data index eof)
    then obtain r1 where r1: "push_substring r data index eof = Inr r1" "sr_inv S n r1"
      using push_substring_spec [OF Cons.prems(1), of index data eof] Cons.prems(2) by auto
    then show ?thesis using Cons.IH [OF r1(2)] Cons.prems(2) Push by simp
  next
    case (Read_Out len)
    obtain o1 r1 where rd: "sr_read r len = (o1, r1)" by (cases "sr_read r len")
    note rd' = sr_read_inv [OF Cons.prems(1) rd]
    obtain o2 r2 where IH: "sr_calls r1 cs = Inr (o2, r2)" "sr_inv S (n + length o1 + length o2) r2"
        "take (n + length o1 + length o2) S = take (n + length o1) S @ o2"
      using Cons.IH [OF rd'(1)] Cons.prems(2) by auto
    have "take (length o1) (drop n S) = o1"
      using rd'(2) sr_inv_next_le [OF Cons.prems(1)] by (simp add: drop_take min_def)
    then have "take (n + length o1) S = take n S @ o1" by (simp add: take_add)
    then show ?thesis using IH rd Read_Out by (simp add: add.assoc)
  qed
qed

lemma push_substring_capacity:
  assumes "push_substring r data index eof = Inr r'"
  shows "sr_capacity r' = sr_capacity r"
  using assms
  by (auto simp: push_substring_def Let_def sr_finish_def sr_accept_def bind_result_Inr_iff
      split: prod.splits if_splits)

lemma sr_calls_capacity: "sr_calls r cs = Inr (out, r') \<Longrightarrow> sr_capacity r' = sr_capacity r"
proof (induction r cs arbitrary: out r' rule: sr_calls.induct)
  case (2 r data index eof cs)
  then show ?case by (auto simp: bind_result_Inr_iff dest: push_substring_capacity)
next
  case (3 r len cs)
  then show ?case by (auto simp: bind_result_Inr_iff sr_read_def Let_def split: prod.splits)
qed simp

text \<open>A push when every byte of the stream fits into the window.\<close>

lemma push_substring_all_fits:
  assumes inv: "sr_inv S 0 r" and fits: "length S \<le> sr_capacity r" and ok: "sr_call_ok S (Push data index eof)"
    and next_new: "\<not> sr_known r (sr_next_assembled_idx r)"
  shows "\<exists>r'. push_substring r data index eof = Inr r' \<and> sr_inv S 0 r' \<and> sr_capacity r' = sr_capacity r \<and>
    (\<forall>i. sr_known r' i \<longleftrightarrow> sr_known r i \<or> (index \<le> i \<and> i < index + length data)) \<and>
    \<not> sr_known r' (sr_next_assembled_idx r') \<and>
    (length S < sr_capacity r \<longrightarrow> sr_eof_idx r' = (if eof then length S else sr_eof_idx r) \<and>
      (sr_eof_idx r' = sr_next_assembled_idx r' \<longrightarrow> bs_input_ended (sr_output r')))"
proof -
  have win: "sr_window_end r = sr_capacity r" using sr_inv_window(1) [OF inv] by simp
  have data: "part_of S index data" "eof \<Longrightarrow> index + length data = length S" using ok by simp_all
  have i: "segs_ok S (sr_next_assembled_idx r) (sr_unassemble_strs r)" "length S < 2 ^ 62"
    using inv by (simp_all add: sr_inv_def)
  have "sr_new_idx r index \<le> max index (max (sr_next_assembled_idx r) (length S))"
    by (rule sr_new_idx_spec [OF i])
  then have new: "sr_new_idx r index < sr_window_end r" if "length S < sr_capacity r"
    using sr_inv_next_le [OF inv] data(1) that by (simp add: win part_of_def)
  obtain r' where r': "push_substring r data index eof = Inr r'" "sr_inv S 0 r'" "sr_capacity r' = sr_capacity r"
    "\<forall>i. sr_known r' i \<longrightarrow> sr_known r i \<or> (index \<le> i \<and> i < index + length data)"
    "\<forall>i < sr_window_end r. sr_known r i \<or> (index \<le> i \<and> i < index + length data) \<longrightarrow> sr_known r' i"
    "sr_new_idx r index < sr_window_end r \<longrightarrow>
       (sr_known r' (sr_next_assembled_idx r') \<longrightarrow> sr_next_assembled_idx r' = sr_window_end r) \<and>
       sr_eof_idx r' = (if eof then length S else sr_eof_idx r) \<and>
       (sr_eof_idx r' = sr_next_assembled_idx r' \<longrightarrow> bs_input_ended (sr_output r'))"
    using push_substring_spec [OF inv data] by blast
  have below: "i < length S" if "sr_known r i \<or> (index \<le> i \<and> i < index + length data)" for i
    using that data(1) covers_length [OF i(1)] sr_inv_next_le [OF inv]
    by (auto simp: sr_known_def part_of_def)
  have known: "sr_known r' i \<longleftrightarrow> sr_known r i \<or> (index \<le> i \<and> i < index + length data)" for i
    using r'(4) r'(5) [unfolded win] less_le_trans [OF below fits] by blast
  have "\<not> sr_known r' (sr_next_assembled_idx r')"
  proof (cases "sr_new_idx r index < sr_window_end r")
    case True
    then show ?thesis using r'(6) known below fits win by (metis not_less)
  next
    case False
    then show ?thesis using push_substring_outside [OF inv data(1), of eof] r'(1) next_new by auto
  qed
  then show ?thesis using r' known new by blast
qed

lemma pushed_simps [simp]:
  "\<not> pushed [] i"
  "pushed (Push data index eof # cs) i \<longleftrightarrow> (index \<le> i \<and> i < index + length data) \<or> pushed cs i"
  "pushed (Read_Out len # cs) i \<longleftrightarrow> pushed cs i"
  by (auto simp: pushed_def)

lemma sr_pushes_run:
  assumes "sr_inv S 0 r" "length S \<le> sr_capacity r"
    and "\<forall>c \<in> set cs. sr_call_ok S c \<and> (\<exists>data index eof. c = Push data index eof)"
    and "\<not> sr_known r (sr_next_assembled_idx r)"
    "length S < sr_capacity r \<longrightarrow> sr_eof_idx r = sr_next_assembled_idx r \<longrightarrow> bs_input_ended (sr_output r)"
  shows "\<exists>r'. sr_calls r cs = Inr ([], r') \<and> sr_inv S 0 r' \<and>
    (\<forall>i. sr_known r' i \<longleftrightarrow> sr_known r i \<or> pushed cs i) \<and> \<not> sr_known r' (sr_next_assembled_idx r') \<and>
    (length S < sr_capacity r \<longrightarrow>
      sr_eof_idx r' = (if \<exists>data index. Push data index True \<in> set cs then length S else sr_eof_idx r) \<and>
      (sr_eof_idx r' = sr_next_assembled_idx r' \<longrightarrow> bs_input_ended (sr_output r')))"
  using assms
proof (induction cs arbitrary: r)
  case Nil
  then show ?case by simp
next
  case (Cons c cs)
  obtain data index eof where c: "c = Push data index eof" using Cons.prems(3) by auto
  have ok: "sr_call_ok S (Push data index eof)" using Cons.prems(3) c by simp
  obtain r1 where r1: "push_substring r data index eof = Inr r1" "sr_inv S 0 r1" "sr_capacity r1 = sr_capacity r"
    "\<And>i. sr_known r1 i \<longleftrightarrow> sr_known r i \<or> (index \<le> i \<and> i < index + length data)"
    "\<not> sr_known r1 (sr_next_assembled_idx r1)"
    "length S < sr_capacity r \<longrightarrow> sr_eof_idx r1 = (if eof then length S else sr_eof_idx r) \<and>
      (sr_eof_idx r1 = sr_next_assembled_idx r1 \<longrightarrow> bs_input_ended (sr_output r1))"
    using push_substring_all_fits [OF Cons.prems(1,2) ok Cons.prems(4)] by blast
  have "length S \<le> sr_capacity r1"
    "length S < sr_capacity r1 \<longrightarrow> sr_eof_idx r1 = sr_next_assembled_idx r1 \<longrightarrow> bs_input_ended (sr_output r1)"
    using Cons.prems(2) r1(3,6) by simp_all
  from Cons.IH [OF r1(2) this(1) _ r1(5) this(2)] Cons.prems(3)
  obtain r' where "sr_calls r1 cs = Inr ([], r')" "sr_inv S 0 r'"
    "\<And>i. sr_known r' i \<longleftrightarrow> sr_known r1 i \<or> pushed cs i" "\<not> sr_known r' (sr_next_assembled_idx r')"
    "length S < sr_capacity r1 \<longrightarrow>
      sr_eof_idx r' = (if \<exists>data index. Push data index True \<in> set cs then length S else sr_eof_idx r1) \<and>
      (sr_eof_idx r' = sr_next_assembled_idx r' \<longrightarrow> bs_input_ended (sr_output r'))"
    by auto
  then show ?case using c r1(1,3,4,6) by (intro exI [of _ r']) auto
qed


section \<open>Properties\<close>

lemmas sr_eval = push_substring_def sr_new_idx_def upper_bound_def lower_bound_def sr_accept_def
  sr_finish_def StreamReassembler_new_def sr_read_def ByteStream_defs to_ssize_def of_ssize_def

text \<open>C3: whatever substrings of a stream \<open>S\<close> arrive at a fresh reassembler, in any order, with any
  overlap and interleaved with any reads, no assertion fails and no exception is thrown; the bytes
  read followed by the bytes still buffered are a prefix of \<open>S\<close>, the buffer stays within the
  capacity, and once the output says the input ended they are all of \<open>S\<close>.\<close>

theorem reassembler_prefix:
  assumes "length S + capacity < 2 ^ 62" "\<forall>c \<in> set cs. sr_call_ok S c"
  shows "\<exists>out r. sr_calls (StreamReassembler_new capacity) cs = Inr (out, r) \<and>
    prefix (out @ bs_buffer (sr_output r)) S \<and>
    length (bs_buffer (sr_output r)) \<le> capacity \<and>
    (bs_input_ended (sr_output r) \<longrightarrow> out @ bs_buffer (sr_output r) = S)"
proof -
  let ?r0 = "StreamReassembler_new capacity"
  obtain out r where run: "sr_calls ?r0 cs = Inr (out, r)" and inv: "sr_inv S (length out) r"
    and out: "take (length out) S = out"
    using sr_calls_run [OF sr_inv_new [OF assms(1)] assms(2)] by auto
  have cap: "sr_capacity r = capacity"
    using sr_calls_capacity [OF run] by (simp add: StreamReassembler_new_def)
  let ?buf = "bs_buffer (sr_output r)" and ?next = "sr_next_assembled_idx r"
  have holds: "?buf = drop (length out) (take ?next S)" and le: "length out \<le> ?next" "?next \<le> length S"
    using inv sr_inv_next_le [OF inv] by (simp_all add: sr_inv_def out_ok_def bs_holds_def)
  then have all: "out @ ?buf = take ?next S"
    using out by (metis append_take_drop_id min.absorb1 take_take)
  moreover have "length ?buf \<le> capacity"
    using inv cap by (auto simp: sr_inv_def out_ok_def bs_inv_def)
  moreover have "bs_input_ended (sr_output r) \<longrightarrow> ?next = length S"
    using inv by (simp add: sr_inv_def)
  ultimately show ?thesis
    using run by (intro exI [of _ out] exI [of _ r]) (auto simp: prefix_take)
qed

theorem reassembler_prefix_witness:
  "\<exists>out r. sr_calls (StreamReassembler_new 4)
       [Push [30] 2 True, Push [10, 20] 0 False, Read_Out 1] = Inr (out, r) \<and>
     prefix (out @ bs_buffer (sr_output r)) [10, 20, 30 :: byte]"
  using reassembler_prefix [of "[10, 20, 30]" 4 "[Push [30] 2 True, Push [10, 20] 0 False, Read_Out 1]"]
  by (fastforce simp: part_of_def)

text \<open>C4: when the stream is no longer than the capacity, any set of substrings that covers it, pushed in
  any order with any overlap and duplication, reassembles to exactly the stream.  When it is shorter than the
  capacity and at least one of the substrings was flagged with \<open>eof\<close>, the output is ended too; a stream that
  fills the capacity may leave it open, since an \<open>eof\<close> that arrives at a full output is lost.\<close>

theorem reassembler_complete:
  assumes "length S \<le> capacity" "length S + capacity < 2 ^ 62"
    and "\<forall>c \<in> set cs. sr_call_ok S c \<and> (\<exists>data index eof. c = Push data index eof)"
    and "\<And>i. i < length S \<Longrightarrow> pushed cs i"
  shows "\<exists>r. sr_calls (StreamReassembler_new capacity) cs = Inr ([], r) \<and> bs_buffer (sr_output r) = S \<and>
    (length S < capacity \<and> (\<exists>data index. Push data index True \<in> set cs) \<longrightarrow> bs_input_ended (sr_output r))"
proof -
  let ?r0 = "StreamReassembler_new capacity"
  have r0: "length S \<le> sr_capacity ?r0" "\<not> sr_known ?r0 (sr_next_assembled_idx ?r0)"
    "length S < sr_capacity ?r0 \<longrightarrow> sr_eof_idx ?r0 = sr_next_assembled_idx ?r0 \<longrightarrow> bs_input_ended (sr_output ?r0)"
    "sr_capacity ?r0 = capacity"
    using assms(1) by (simp_all add: StreamReassembler_new_def sr_known_def W64_def)
  obtain r where r: "sr_calls ?r0 cs = Inr ([], r)" "sr_inv S 0 r" "\<forall>i. sr_known r i \<longleftrightarrow> pushed cs i"
    "\<not> sr_known r (sr_next_assembled_idx r)"
    "length S < capacity \<longrightarrow>
      sr_eof_idx r = (if \<exists>data index. Push data index True \<in> set cs then length S else sr_eof_idx ?r0) \<and>
      (sr_eof_idx r = sr_next_assembled_idx r \<longrightarrow> bs_input_ended (sr_output r))"
    using sr_pushes_run [OF sr_inv_new [OF assms(2)] r0(1) assms(3) r0(2,3), unfolded r0(4)] by auto
  have "sr_next_assembled_idx r = length S"
    using r(3,4) assms(4) sr_inv_next_le [OF r(2)] by (meson order.not_eq_order_implies_strict)
  moreover from this have "bs_buffer (sr_output r) = S"
    using r(2) by (simp add: sr_inv_def out_ok_def bs_holds_def)
  ultimately show ?thesis using r(1,5) by auto
qed

theorem reassembler_complete_witness:
  "\<exists>r. sr_calls (StreamReassembler_new 4)
       [Push [20, 30] 1 True, Push [10, 20] 0 False] = Inr ([], r) \<and>
     bs_buffer (sr_output r) = [10, 20, 30 :: byte] \<and> bs_input_ended (sr_output r)"
  using reassembler_complete [of "[10, 20, 30]" 4 "[Push [20, 30] 1 True, Push [10, 20] 0 False]"]
  by (auto simp: part_of_def less_Suc_eq)

text \<open>C16: one push.  It never fails and keeps the invariant; afterwards the reassembler knows nothing
  but what it knew and the pushed bytes, and below the window's end it knows all of both.  When the
  new data starts inside the window, no stored byte that is next in line is left behind unless the
  output is full, an \<open>eof\<close> is recorded and the output is ended once the end is assembled.  When it starts
  behind the window, the output and the recorded end stay as they were, an \<open>eof\<close> included, and nothing
  new is known.\<close>

theorem push_substring_correct:
  assumes "sr_inv S n r" "part_of S index data" "eof \<Longrightarrow> index + length data = length S"
  shows "\<exists>r'. push_substring r data index eof = Inr r' \<and> sr_inv S n r' \<and>
    (\<forall>i. sr_known r' i \<longrightarrow> sr_known r i \<or> (index \<le> i \<and> i < index + length data)) \<and>
    (\<forall>i < n + sr_capacity r. sr_known r i \<or> (index \<le> i \<and> i < index + length data) \<longrightarrow> sr_known r' i) \<and>
    (if sr_new_idx r index < n + sr_capacity r
     then (sr_known r' (sr_next_assembled_idx r') \<longrightarrow> ByteStream_remaining_capacity (sr_output r') = 0) \<and>
       sr_eof_idx r' = (if eof then length S else sr_eof_idx r) \<and>
       (sr_eof_idx r' = sr_next_assembled_idx r' \<longrightarrow> bs_input_ended (sr_output r'))
     else sr_output r' = sr_output r \<and> sr_eof_idx r' = sr_eof_idx r \<and> (\<forall>i. sr_known r' i \<longrightarrow> sr_known r i))"
proof -
  note win = sr_inv_window(1) [OF assms(1)]
  obtain r' where r': "push_substring r data index eof = Inr r'" "sr_inv S n r'" "sr_capacity r' = sr_capacity r"
    "\<forall>i. sr_known r' i \<longrightarrow> sr_known r i \<or> (index \<le> i \<and> i < index + length data)"
    "\<forall>i < n + sr_capacity r. sr_known r i \<or> (index \<le> i \<and> i < index + length data) \<longrightarrow> sr_known r' i"
    "sr_new_idx r index < n + sr_capacity r \<longrightarrow>
       (sr_known r' (sr_next_assembled_idx r') \<longrightarrow> sr_next_assembled_idx r' = n + sr_capacity r) \<and>
       sr_eof_idx r' = (if eof then length S else sr_eof_idx r) \<and>
       (sr_eof_idx r' = sr_next_assembled_idx r' \<longrightarrow> bs_input_ended (sr_output r'))"
    using push_substring_spec [OF assms] unfolding win by blast
  have "ByteStream_remaining_capacity (sr_output r') = 0" if "sr_next_assembled_idx r' = n + sr_capacity r"
    using r'(2,3) that by (auto simp: sr_inv_def out_ok_def bs_holds_def)
  moreover have "sr_output r' = sr_output r \<and> sr_eof_idx r' = sr_eof_idx r \<and> (\<forall>i. sr_known r' i \<longrightarrow> sr_known r i)"
    if "\<not> sr_new_idx r index < n + sr_capacity r"
    using push_substring_outside [OF assms(1,2), of eof] that r'(1) unfolding win by auto
  ultimately show ?thesis using r' by auto
qed

theorem push_substring_correct_witness:
  "\<exists>r'. push_substring (StreamReassembler_new 4) [20, 30] 1 True = Inr r' \<and> sr_inv [10, 20, 30] 0 r'"
  using push_substring_correct [of "[10, 20, 30]" 0 "StreamReassembler_new 4" 1 "[20, 30]" True]
    sr_inv_new [of "[10, 20, 30]" 4] by (auto simp: part_of_def)

text \<open>An \<open>eof\<close> that arrives when the output is full is lost: it is neither recorded nor acted on.\<close>

lemma full_output_loses_eof:
  "map_sum id (\<lambda>(out, r). (out, bs_buffer (sr_output r), sr_eof_idx r, bs_input_ended (sr_output r)))
     (sr_calls (StreamReassembler_new 1) [Push [7] 0 False, Push [7] 0 True]) = Inr ([], [7], W64 - 1, False)"
  by (simp add: sr_eval Let_def eval_simps del: eval_del)

text \<open>When the output fills up in the loop, the substring left over is dropped but stays counted:
  three bytes pushed into a capacity of two leave an empty map and a count of one, also after
  everything was read.\<close>

lemma unassembled_bytes_drift:
  "map_sum id (\<lambda>(out, r). (out, sr_unassemble_strs r, unassembled_bytes r))
     (sr_calls (StreamReassembler_new 2) [Push [1, 2, 3] 0 False, Read_Out 2]) = Inr ([1, 2], [], 1)"
  by (simp add: sr_eval unassembled_bytes_def Let_def eval_simps del: eval_del)

end
