(* ===== verification/TCP_Receivers.thy ===== *)
theory TCP_Receivers
  imports Stream_Reassembler TCP_Segments
begin

text \<open>
  \<open>libsponge/tcp_receiver.hh\<close> and \<open>.cc\<close>: the receiver feeds the payloads of the segments to the
  reassembler at the index their sequence number unwraps to, and advertises the acknowledgment
  number and the window.  The lemmas relate the receiver to the stream \<open>S\<close> the peer sends with
  initial sequence number \<open>isn\<close>: \<open>seg_ok S isn a seg\<close> says that \<open>seg\<close> is a segment of that stream
  with absolute sequence number \<open>a\<close>.
\<close>

section \<open>The class\<close>

record TCPReceiver =
  rv_isn :: WrappingInt32
  rv_syn_flag :: bool
  rv_reassembler :: StreamReassembler
  rv_capacity :: nat

definition TCPReceiver_new :: "nat \<Rightarrow> TCPReceiver" where
  "TCPReceiver_new capacity =
     \<lparr>rv_isn = 0, rv_syn_flag = False, rv_reassembler = StreamReassembler_new capacity, rv_capacity = capacity\<rparr>"

abbreviation TCPReceiver_stream_out :: "TCPReceiver \<Rightarrow> ByteStream" where
  "TCPReceiver_stream_out r \<equiv> sr_output (rv_reassembler r)"

definition TCPReceiver_unassembled_bytes :: "TCPReceiver \<Rightarrow> nat" where
  "TCPReceiver_unassembled_bytes r = unassembled_bytes (rv_reassembler r)"

definition TCPReceiver_segment_received :: "TCPReceiver \<Rightarrow> TCPSegment \<Rightarrow> TCPReceiver result" where
  "TCPReceiver_segment_received r seg =
     (let header = seg_header seg
      in if \<not> rv_syn_flag r \<and> \<not> th_syn header then Inr r
         else let r1 = (if \<not> rv_syn_flag r then r\<lparr>rv_isn := th_seqno header, rv_syn_flag := True\<rparr> else r);
                  seqno = unwrap (th_seqno header) (rv_isn r1) (bs_bytes_written (TCPReceiver_stream_out r1));
                  index = u64_add (u64_sub seqno 1) (if th_syn header then 1 else 0)
              in bind_result
                   (push_substring (rv_reassembler r1) (Buffer_copy (seg_payload seg)) index (th_fin header))
                   (\<lambda>reassembler. Inr (r1\<lparr>rv_reassembler := reassembler\<rparr>)))"

definition TCPReceiver_ackno :: "TCPReceiver \<Rightarrow> WrappingInt32 option" where
  "TCPReceiver_ackno r =
     (if \<not> rv_syn_flag r then None
      else let ack_abs = u64_add (bs_bytes_written (TCPReceiver_stream_out r)) 1;
               ack_abs = (if bs_input_ended (TCPReceiver_stream_out r) then u64_add ack_abs 1 else ack_abs)
           in Some (wrap ack_abs (rv_isn r)))"

definition TCPReceiver_window_size :: "TCPReceiver \<Rightarrow> nat" where
  "TCPReceiver_window_size r = u64_sub (rv_capacity r) (ByteStream_buffer_size (TCPReceiver_stream_out r))"

section \<open>Specification\<close>

text \<open>A segment of the stream \<open>S\<close> at absolute sequence number \<open>a\<close>.  A segment without payload, SYN and
  FIN (a pure acknowledgment) may carry any number up to the one behind the FIN.\<close>

definition seg_ok :: "bytes \<Rightarrow> WrappingInt32 \<Rightarrow> nat \<Rightarrow> TCPSegment \<Rightarrow> bool" where
  "seg_ok S isn a seg \<longleftrightarrow>
     (let header = seg_header seg; payload = Buffer_str (seg_payload seg)
      in th_seqno header = wrap a isn \<and>
         (if th_syn header then a = 0 \<and> part_of S 0 payload \<and> (th_fin header \<longrightarrow> length payload = length S)
          else if payload = [] \<and> \<not> th_fin header then a \<le> length S + 2
          else a \<noteq> 0 \<and> part_of S (a - 1) payload \<and> (th_fin header \<longrightarrow> a - 1 + length payload = length S)))"

text \<open>The receiver has heard the SYN and \<open>n\<close> bytes were read from its stream, or it has not and
  has assembled nothing.\<close>

definition rv_inv :: "bytes \<Rightarrow> WrappingInt32 \<Rightarrow> nat \<Rightarrow> TCPReceiver \<Rightarrow> bool" where
  "rv_inv S isn n r \<longleftrightarrow>
     rv_capacity r = sr_capacity (rv_reassembler r) \<and> sr_inv S n (rv_reassembler r) \<and>
     (if rv_syn_flag r then rv_isn r = isn
      else sr_next_assembled_idx (rv_reassembler r) = 0 \<and> \<not> bs_input_ended (TCPReceiver_stream_out r))"

text \<open>The absolute sequence number the receiver expects next.\<close>

definition rv_next :: "TCPReceiver \<Rightarrow> nat" where
  "rv_next r = sr_next_assembled_idx (rv_reassembler r)"

section \<open>Pushing nothing\<close>

lemma push_empty:
  assumes inv: "sr_inv S n r" and idx: "length S \<le> index" "index < W64"
  shows "push_substring r [] index False =
    (if sr_window_end r \<le> index then Inr r else sr_finish r (sr_eof_idx r))"
proof -
  have segs: "segs_ok S (sr_next_assembled_idx r) (sr_unassemble_strs r)" "length S < 2 ^ 62"
    and next_le: "sr_next_assembled_idx r \<le> length S"
    using inv by (simp_all add: sr_inv_def out_ok_def)
  obtain a b where ab: "lower_bound (sr_new_idx r index) (sr_unassemble_strs r) = (a, b)"
      "sr_unassemble_strs r = a @ b" "segs_ok S (sr_new_idx r index) b" "index \<le> sr_new_idx r index"
      "sr_new_idx r index \<le> max index (max (sr_next_assembled_idx r) (length S))"
    by (rule sr_new_idx_spec [OF segs])
  have new: "sr_new_idx r index = index" using ab(4,5) idx(1) next_le by simp
  have "b = []"
  proof (cases b)
    case (Cons e b')
    obtain k str where "e = (k, str)" by (cases e)
    then show ?thesis using segs_ok_key [OF ab(3) [unfolded new], of k str] Cons idx(1) by (cases str) auto
  qed
  then have lb: "lower_bound index (sr_unassemble_strs r) = (a, [])" "sr_unassemble_strs r = a"
    using ab(1,2) by (simp_all add: new)
  have zero: "u64_sub index index = 0" "to_ssize (u64_sub (length []) 0) = 0"
    using idx(2) by (simp_all add: u64_simps to_ssize_def)
  have r: "r\<lparr>sr_unassemble_strs := a @ [], sr_unassembled_bytes_num := sr_unassembled_bytes_num r\<rparr> = r"
    using lb(2) by simp
  show ?thesis
    unfolding push_substring_def new Let_def lb(1) prod.case zero sr_trim.simps sr_inv_window(2) [OF inv] r
    by simp
qed

lemma push_empty_spec:
  assumes inv: "sr_inv S n r" and idx: "index < W64"
  shows "\<exists>r'. push_substring r [] index False = Inr r' \<and> sr_inv S n r' \<and> sr_capacity r' = sr_capacity r \<and>
    sr_next_assembled_idx r \<le> sr_next_assembled_idx r' \<and>
    (\<forall>i. sr_known r' i \<longrightarrow> sr_known r i) \<and> (\<forall>i < n + sr_capacity r. sr_known r i \<longrightarrow> sr_known r' i)"
proof (cases "length S \<le> index")
  case True
  have "sr_eof_idx r = W64 - 1 \<or> sr_eof_idx r = length S" using inv by (simp add: sr_inv_def)
  from sr_finish_spec [OF inv this] obtain r' where "sr_finish r (sr_eof_idx r) = Inr r'" "sr_inv S n r'"
      "sr_capacity r' = sr_capacity r" "sr_next_assembled_idx r \<le> sr_next_assembled_idx r'"
      "\<forall>i. sr_known r' i \<longrightarrow> sr_known r i" "\<forall>i < n + sr_capacity r. sr_known r i \<longrightarrow> sr_known r' i"
    unfolding sr_inv_window(1) [OF inv] by blast
  then show ?thesis
    unfolding push_empty [OF inv True idx] using inv by (cases "sr_window_end r \<le> index") simp_all
next
  case False
  then have "part_of S index []" by (simp add: part_of_def)
  then obtain r' where "push_substring r [] index False = Inr r'" "sr_inv S n r'"
      "sr_capacity r' = sr_capacity r" "sr_next_assembled_idx r \<le> sr_next_assembled_idx r'"
      "\<forall>i. sr_known r' i \<longrightarrow> sr_known r i \<or> (index \<le> i \<and> i < index + length ([] :: bytes))"
      "\<forall>i < n + sr_capacity r. sr_known r i \<or> (index \<le> i \<and> i < index + length ([] :: bytes)) \<longrightarrow> sr_known r' i"
    using push_substring_spec [OF inv, of index "[]" False] unfolding sr_inv_window(1) [OF inv] by blast
  then show ?thesis by auto
qed

lemma sr_inv_written: "sr_inv S n r \<Longrightarrow> bs_bytes_written (sr_output r) = sr_next_assembled_idx r"
  by (auto simp: sr_inv_def out_ok_def bs_holds_def u64_def W64_def)


section \<open>One segment\<close>

lemma wrap_0 [simp]: "wrap 0 isn = isn"
  by (simp add: wrap_def wi_plus_u32_def)

text \<open>The index at which the payload of a segment is pushed.\<close>

definition seg_index :: "nat \<Rightarrow> TCPSegment \<Rightarrow> nat" where
  "seg_index a seg = (if th_syn (seg_header seg) then 0 else a - 1)"

lemma segment_index:
  assumes "seg_ok S isn a seg" "c + 2 ^ 31 < W64" "c < a + 2 ^ 31" "a \<le> c + 2 ^ 31"
  shows "u64_add (u64_sub (unwrap (th_seqno (seg_header seg)) isn c) 1) (if th_syn (seg_header seg) then 1 else 0) =
    (if a = 0 \<and> \<not> th_syn (seg_header seg) then W64 - 1 else seg_index a seg)"
proof -
  have a: "unwrap (th_seqno (seg_header seg)) isn c = a"
    using assms by (simp add: seg_ok_def Let_def unwrap_wrap_near)
  have "a < W64" using assms(2,4) by simp
  moreover have "u64_add (W64 - Suc 0) (Suc 0) = 0" by (simp add: u64_add_def)
  moreover have "u64_sub 0 (Suc 0) = W64 - Suc 0" by (simp add: u64_sub_wrap Suc_leI)
  ultimately show ?thesis
    using assms(1) unfolding a
    by (cases "a = 0") (auto simp: seg_ok_def seg_index_def Let_def u64_sub_wrap u64_simps)
qed

lemma sr_inv_bounds:
  assumes "sr_inv S n r"
  shows "sr_next_assembled_idx r + 2 ^ 31 < W64" "length S \<le> W64 - 1" "sr_window_end r \<le> W64 - 1"
proof -
  have "length S + sr_capacity r < 2 ^ 62" "n \<le> length S" "sr_next_assembled_idx r \<le> length S"
    using assms sr_inv_next_le [OF assms] by (auto simp: sr_inv_def)
  then show "sr_next_assembled_idx r + 2 ^ 31 < W64" "length S \<le> W64 - 1" "sr_window_end r \<le> W64 - 1"
    by (simp_all add: sr_inv_window(1) [OF assms] W64_def)
qed

lemma TCPReceiver_push:
  assumes inv: "sr_inv S n re" and ok: "seg_ok S isn a seg"
    and near: "sr_next_assembled_idx re < a + 2 ^ 31" "a \<le> sr_next_assembled_idx re + 2 ^ 31"
  shows "\<exists>re'. push_substring re (Buffer_copy (seg_payload seg))
      (u64_add (u64_sub (unwrap (th_seqno (seg_header seg)) isn (bs_bytes_written (sr_output re))) 1)
        (if th_syn (seg_header seg) then 1 else 0)) (th_fin (seg_header seg)) = Inr re' \<and>
    sr_inv S n re' \<and> sr_capacity re' = sr_capacity re \<and>
    sr_next_assembled_idx re \<le> sr_next_assembled_idx re' \<and>
    (\<forall>i. sr_known re' i \<longrightarrow> sr_known re i \<or>
       (seg_index a seg \<le> i \<and> i < seg_index a seg + length (Buffer_str (seg_payload seg)))) \<and>
    (\<forall>i < n + sr_capacity re. sr_known re i \<or>
       (seg_index a seg \<le> i \<and> i < seg_index a seg + length (Buffer_str (seg_payload seg))) \<longrightarrow> sr_known re' i)"
proof (cases "\<not> th_syn (seg_header seg) \<and> Buffer_str (seg_payload seg) = [] \<and> \<not> th_fin (seg_header seg)")
  case True
  let ?i = "if a = 0 \<and> \<not> th_syn (seg_header seg) then W64 - 1 else seg_index a seg"
  have "a \<le> length S + 2" using ok True by (simp add: seg_ok_def Let_def)
  moreover have "length S + 2 < W64"
    using inv by (auto simp: sr_inv_def W64_def)
  ultimately have i: "?i < W64" by (auto simp: seg_index_def)
  have fin: "th_fin (seg_header seg) = False" and str: "Buffer_str (seg_payload seg) = []" using True by blast+
  show ?thesis
    using push_empty_spec [OF inv i]
    unfolding sr_inv_written [OF inv] segment_index [OF ok sr_inv_bounds(1) [OF inv] near] Buffer_copy_def fin str
    by (elim exE) (rule exI, auto)
next
  case False
  let ?data = "Buffer_str (seg_payload seg)" and ?idx = "seg_index a seg"
  have data: "part_of S ?idx ?data" "th_fin (seg_header seg) \<Longrightarrow> ?idx + length ?data = length S"
    and a: "\<not> (a = 0 \<and> \<not> th_syn (seg_header seg))"
    using ok False by (auto simp: seg_ok_def seg_index_def Let_def split: if_splits)
  show ?thesis
    using push_substring_spec [OF inv data(1), of "th_fin (seg_header seg)", OF data(2)]
    unfolding sr_inv_written [OF inv] segment_index [OF ok sr_inv_bounds(1) [OF inv] near] Buffer_copy_def
      sr_inv_window(1) [OF inv] if_not_P [OF a] by blast
qed

lemma TCPReceiver_step:
  assumes inv: "rv_inv S isn n r" and ok: "seg_ok S isn a seg"
    and near: "rv_next r < a + 2 ^ 31" "a \<le> rv_next r + 2 ^ 31"
  shows "\<exists>r'. TCPReceiver_segment_received r seg = Inr r' \<and> rv_inv S isn n r' \<and>
    rv_capacity r' = rv_capacity r \<and> rv_syn_flag r' = (rv_syn_flag r \<or> th_syn (seg_header seg)) \<and>
    rv_next r \<le> rv_next r' \<and>
    (\<forall>i. sr_known (rv_reassembler r') i \<longrightarrow> sr_known (rv_reassembler r) i \<or>
       (seg_index a seg \<le> i \<and> i < seg_index a seg + length (Buffer_str (seg_payload seg)))) \<and>
    (rv_syn_flag r' \<longrightarrow> (\<forall>i < n + rv_capacity r. sr_known (rv_reassembler r) i \<or>
       (seg_index a seg \<le> i \<and> i < seg_index a seg + length (Buffer_str (seg_payload seg))) \<longrightarrow>
       sr_known (rv_reassembler r') i))"
proof (cases "rv_syn_flag r \<or> th_syn (seg_header seg)")
  case False
  then show ?thesis using inv by (simp add: TCPReceiver_segment_received_def)
next
  case True
  let ?r1 = "if \<not> rv_syn_flag r then r\<lparr>rv_isn := th_seqno (seg_header seg), rv_syn_flag := True\<rparr> else r"
  have re: "sr_inv S n (rv_reassembler r)" and cap: "rv_capacity r = sr_capacity (rv_reassembler r)"
    using inv by (simp_all add: rv_inv_def)
  have syn: "th_seqno (seg_header seg) = isn" if "\<not> rv_syn_flag r"
    using ok True that by (simp add: seg_ok_def Let_def)
  have isn: "rv_isn ?r1 = isn" "rv_syn_flag ?r1" "rv_reassembler ?r1 = rv_reassembler r" "rv_capacity ?r1 = rv_capacity r"
    using inv syn by (cases "rv_syn_flag r"; simp add: rv_inv_def)+
  obtain re' where push: "push_substring (rv_reassembler r) (Buffer_copy (seg_payload seg))
      (u64_add (u64_sub (unwrap (th_seqno (seg_header seg)) isn (bs_bytes_written (TCPReceiver_stream_out r))) 1)
        (if th_syn (seg_header seg) then 1 else 0)) (th_fin (seg_header seg)) = Inr re'"
    and re': "sr_inv S n re'" "sr_capacity re' = sr_capacity (rv_reassembler r)"
      "sr_next_assembled_idx (rv_reassembler r) \<le> sr_next_assembled_idx re'"
    and known: "\<forall>i. sr_known re' i \<longrightarrow> sr_known (rv_reassembler r) i \<or>
        (seg_index a seg \<le> i \<and> i < seg_index a seg + length (Buffer_str (seg_payload seg)))"
      "\<forall>i < n + sr_capacity (rv_reassembler r). sr_known (rv_reassembler r) i \<or>
        (seg_index a seg \<le> i \<and> i < seg_index a seg + length (Buffer_str (seg_payload seg))) \<longrightarrow> sr_known re' i"
    using TCPReceiver_push [OF re ok near [unfolded rv_next_def]] by blast
  define r' where "r' = ?r1\<lparr>rv_reassembler := re'\<rparr>"
  have r': "rv_reassembler r' = re'" "rv_isn r' = isn" "rv_syn_flag r'" "rv_capacity r' = rv_capacity r"
    using isn by (simp_all add: r'_def)
  have "\<not> (\<not> rv_syn_flag r \<and> \<not> th_syn (seg_header seg))" using True by blast
  then have "TCPReceiver_segment_received r seg = Inr r'"
    unfolding TCPReceiver_segment_received_def Let_def isn push bind_result.simps r'_def [symmetric] by (rule if_not_P)
  moreover have "rv_inv S isn n r'"
    unfolding rv_inv_def r' using re' cap r'(3) by simp
  ultimately show ?thesis
    using r'(3) True re'(3) known by (intro exI [of _ r']) (simp only: rv_next_def r' cap simp_thms)
qed

section \<open>The application reads\<close>

definition TCPReceiver_read :: "TCPReceiver \<Rightarrow> nat \<Rightarrow> bytes \<times> TCPReceiver" where
  "TCPReceiver_read r len =
     (let (out, reassembler) = sr_read (rv_reassembler r) len in (out, r\<lparr>rv_reassembler := reassembler\<rparr>))"

lemma TCPReceiver_new_inv [inv_intros]:
  "length S + capacity < 2 ^ 62 \<Longrightarrow> rv_inv S isn 0 (TCPReceiver_new capacity)"
  using sr_inv_new [of S capacity]
  by (simp add: rv_inv_def TCPReceiver_new_def) (simp add: StreamReassembler_new_def ByteStream_new_def)

lemma TCPReceiver_read_inv:
  assumes "rv_inv S isn n r" "TCPReceiver_read r len = (out, r')"
  shows "rv_inv S isn (n + length out) r'" "take (n + length out) S = take n S @ out"
    "rv_next r' = rv_next r" "rv_syn_flag r' = rv_syn_flag r" "rv_capacity r' = rv_capacity r"
    "bs_input_ended (TCPReceiver_stream_out r') = bs_input_ended (TCPReceiver_stream_out r)"
    "bs_error (TCPReceiver_stream_out r') = bs_error (TCPReceiver_stream_out r)"
proof -
  obtain re where rd: "sr_read (rv_reassembler r) len = (out, re)" and r': "r' = r\<lparr>rv_reassembler := re\<rparr>"
    using assms(2) by (auto simp: TCPReceiver_read_def split: prod.splits)
  have inv: "sr_inv S n (rv_reassembler r)" using assms(1) by (simp add: rv_inv_def)
  note rd' = sr_read_inv [OF inv rd]
  have flags: "bs_input_ended (snd (ByteStream_read s len)) = bs_input_ended s"
    "bs_error (snd (ByteStream_read s len)) = bs_error s" for s
    by (simp_all add: ByteStream_read_def ByteStream_pop_output_def Let_def)
  have re: "re = rv_reassembler r\<lparr>sr_output := snd (ByteStream_read (TCPReceiver_stream_out r) len)\<rparr>"
    using rd by (simp add: sr_read_def split_beta Let_def)
  show ended: "bs_input_ended (TCPReceiver_stream_out r') = bs_input_ended (TCPReceiver_stream_out r)"
    "bs_error (TCPReceiver_stream_out r') = bs_error (TCPReceiver_stream_out r)"
    by (simp_all add: r' re flags)
  show "rv_next r' = rv_next r" "rv_syn_flag r' = rv_syn_flag r" "rv_capacity r' = rv_capacity r"
    by (simp_all add: rv_next_def r' re)
  then show "rv_inv S isn (n + length out) r'"
    using assms(1) rd'(1,3) ended unfolding rv_inv_def rv_next_def by (simp add: r')
  have "take (length out) (drop n S) = out"
    using rd'(2) sr_inv_next_le [OF inv] by (simp add: drop_take min_def)
  then show "take (n + length out) S = take n S @ out" by (simp add: take_add)
qed

section \<open>What the receiver advertises\<close>

lemma TCPReceiver_ackno_eq:
  assumes "rv_inv S isn n r" "rv_syn_flag r"
  shows "TCPReceiver_ackno r =
    Some (wrap (rv_next r + 1 + (if bs_input_ended (TCPReceiver_stream_out r) then 1 else 0)) isn)"
proof -
  have inv: "sr_inv S n (rv_reassembler r)" and isn: "rv_isn r = isn" using assms by (simp_all add: rv_inv_def)
  have "rv_next r + 2 < W64" using sr_inv_bounds(1) [OF inv] by (simp add: rv_next_def)
  then show ?thesis
    using assms(2) by (simp add: TCPReceiver_ackno_def sr_inv_written [OF inv] isn rv_next_def Let_def u64_simps)
qed

lemma TCPReceiver_window_eq:
  assumes "rv_inv S isn n r"
  shows "rv_next r + TCPReceiver_window_size r = n + rv_capacity r"
proof -
  have inv: "sr_inv S n (rv_reassembler r)" and cap: "rv_capacity r = sr_capacity (rv_reassembler r)"
    using assms by (simp_all add: rv_inv_def)
  have "out_ok S (rv_capacity r) n (rv_next r) (TCPReceiver_stream_out r)" "rv_capacity r < W64"
    using inv cap by (auto simp: sr_inv_def rv_next_def W64_def)
  then have b: "n \<le> rv_next r" "rv_next r \<le> n + rv_capacity r"
      "length (bs_buffer (TCPReceiver_stream_out r)) = rv_next r - n"
    using out_next_bound by blast+
  then show ?thesis
    using \<open>rv_capacity r < W64\<close>
    by (simp add: TCPReceiver_window_size_def ByteStream_buffer_size_def u64_simps)
qed

section \<open>The flags of the stream\<close>

lemma ByteStream_write_flags:
  "ByteStream_write out str = (k, out') \<Longrightarrow> bs_error out' = bs_error out \<and> bs_input_ended out' = bs_input_ended out"
  by (auto simp: ByteStream_write_def Let_def)

lemma sr_assemble_flags:
  "sr_assemble m nx num out = Inr (m', nx', num', out') \<Longrightarrow>
   bs_error out' = bs_error out \<and> bs_input_ended out' = bs_input_ended out"
proof (induction m arbitrary: nx num out)
  case Nil
  then show ?case by simp
next
  case (Cons e rest)
  obtain idx str k out1 where e: "e = (idx, str)" and w: "ByteStream_write out str = (k, out1)"
    by (cases e, cases "ByteStream_write out (snd e)") auto
  show ?case
    using Cons.prems Cons.IH [of _ _ out1] ByteStream_write_flags [OF w] w by (auto simp: e Let_def split: if_splits)
qed

lemma sr_finish_flags:
  assumes "sr_finish r eof_idx = Inr r'"
  shows "bs_error (sr_output r') = bs_error (sr_output r)" "bs_input_ended (sr_output r) \<Longrightarrow> bs_input_ended (sr_output r')"
  using assms sr_assemble_flags
  by (fastforce simp: sr_finish_def bind_result_Inr_iff ByteStream_end_input_def split: prod.splits if_splits)+

lemma push_substring_flags:
  assumes "push_substring r data index eof = Inr r'"
  shows "bs_error (sr_output r') = bs_error (sr_output r)" "bs_input_ended (sr_output r) \<Longrightarrow> bs_input_ended (sr_output r')"
proof -
  have acc: "bs_error (sr_output (sr_accept r1 i d)) = bs_error (sr_output r1)"
    "bs_input_ended (sr_output (sr_accept r1 i d)) = bs_input_ended (sr_output r1)" for r1 i d
    by (simp_all add: sr_accept_def ByteStream_write_def Let_def)
  obtain bf fr num size fr' where
    st: "lower_bound (sr_new_idx r index) (sr_unassemble_strs r) = (bf, fr)"
      "sr_trim (sr_new_idx r index) (sr_unassembled_bytes_num r)
         (to_ssize (u64_sub (length data) (u64_sub (sr_new_idx r index) index))) fr = (num, size, fr')"
    by (metis prod_cases3 surj_pair)
  define r1 where "r1 = r\<lparr>sr_unassemble_strs := bf @ fr', sr_unassembled_bytes_num := num\<rparr>"
  have r1: "sr_output r1 = sr_output r" by (simp add: r1_def)
  have "r' = r1 \<or> (\<exists>e. sr_finish r1 e = Inr r') \<or> (\<exists>e i d. sr_finish (sr_accept r1 i d) e = Inr r')"
    using assms unfolding push_substring_def Let_def st prod.case r1_def [symmetric]
    by (auto split: if_splits)
  then show "bs_error (sr_output r') = bs_error (sr_output r)" "bs_input_ended (sr_output r) \<Longrightarrow> bs_input_ended (sr_output r')"
    using sr_finish_flags acc r1 by metis+
qed

lemma TCPReceiver_flags:
  assumes "TCPReceiver_segment_received r seg = Inr r'"
  shows "bs_error (TCPReceiver_stream_out r') = bs_error (TCPReceiver_stream_out r)"
    "bs_input_ended (TCPReceiver_stream_out r) \<Longrightarrow> bs_input_ended (TCPReceiver_stream_out r')"
    "rv_syn_flag r' = (rv_syn_flag r \<or> th_syn (seg_header seg))"
proof -
  have "r' = r \<or> (\<exists>i e. push_substring (rv_reassembler r) (Buffer_copy (seg_payload seg)) i e = Inr (rv_reassembler r'))"
    using assms by (auto simp: TCPReceiver_segment_received_def Let_def bind_result_Inr_iff split: if_splits)
  then show "bs_error (TCPReceiver_stream_out r') = bs_error (TCPReceiver_stream_out r)"
    "bs_input_ended (TCPReceiver_stream_out r) \<Longrightarrow> bs_input_ended (TCPReceiver_stream_out r')"
    using push_substring_flags by metis+
  show "rv_syn_flag r' = (rv_syn_flag r \<or> th_syn (seg_header seg))"
    using assms by (auto simp: TCPReceiver_segment_received_def Let_def bind_result_Inr_iff split: if_splits)
qed

text \<open>A segment with neither data nor SYN and FIN, at any sequence number, as a reset may be.\<close>

lemma TCPReceiver_empty_segment:
  assumes inv: "rv_inv S isn n r"
    and seg: "Buffer_str (seg_payload seg) = []" "\<not> th_syn (seg_header seg)" "\<not> th_fin (seg_header seg)"
  shows "\<exists>r'. TCPReceiver_segment_received r seg = Inr r' \<and> rv_inv S isn n r' \<and> rv_next r \<le> rv_next r'"
proof (cases "rv_syn_flag r")
  case False
  then show ?thesis using inv seg by (simp add: TCPReceiver_segment_received_def)
next
  case True
  have re: "sr_inv S n (rv_reassembler r)" "rv_isn r = isn" "rv_capacity r = sr_capacity (rv_reassembler r)"
    using inv True by (simp_all add: rv_inv_def)
  let ?i = "u64_add (u64_sub (unwrap (th_seqno (seg_header seg)) isn (bs_bytes_written (TCPReceiver_stream_out r))) 1) 0"
  obtain re' where push: "push_substring (rv_reassembler r) [] ?i False = Inr re'" "sr_inv S n re'"
      "sr_capacity re' = sr_capacity (rv_reassembler r)"
      "sr_next_assembled_idx (rv_reassembler r) \<le> sr_next_assembled_idx re'"
    using push_empty_spec [OF re(1), of ?i] u64_add_less by blast
  have "Buffer_copy (seg_payload seg) = []" using seg(1) by (simp add: Buffer_copy_def)
  then have "TCPReceiver_segment_received r seg = Inr (r\<lparr>rv_reassembler := re'\<rparr>)"
    using True seg(2,3) push(1) re(2) by (simp add: TCPReceiver_segment_received_def Let_def)
  then show ?thesis
    using inv True push(2-4) by (auto simp: rv_inv_def rv_next_def)
qed

lemma rv_inv_set_error:
  assumes "rv_inv S isn n r"
  shows "rv_inv S isn n (r\<lparr>rv_reassembler := (rv_reassembler r)\<lparr>sr_output := ByteStream_set_error (TCPReceiver_stream_out r)\<rparr>\<rparr>)"
  using assms bs_inv_set_error [of "TCPReceiver_stream_out r"] bs_holds_flags(2) [of "TCPReceiver_stream_out r"]
  by (simp add: rv_inv_def sr_inv_def out_ok_def ByteStream_set_error_def)

text \<open>The absolute number the receiver acknowledges.\<close>

definition rv_ack :: "TCPReceiver \<Rightarrow> nat" where
  "rv_ack r = (if rv_syn_flag r then rv_next r + 1 + (if bs_input_ended (TCPReceiver_stream_out r) then 1 else 0) else 0)"

lemma rv_ack_eq:
  "rv_inv S isn n r \<Longrightarrow> TCPReceiver_ackno r = (if rv_syn_flag r then Some (wrap (rv_ack r) isn) else None)"
  using TCPReceiver_ackno_eq [of S isn n r] by (simp add: rv_ack_def TCPReceiver_ackno_def)

lemma rv_ack_le: "rv_inv S isn n r \<Longrightarrow> rv_ack r \<le> length S + 2"
  using sr_inv_next_le [of S n "rv_reassembler r"] by (auto simp: rv_ack_def rv_inv_def rv_next_def)

lemma rv_ack_mono:
  assumes "TCPReceiver_segment_received r seg = Inr r'" "rv_next r \<le> rv_next r'"
  shows "rv_ack r \<le> rv_ack r'"
  using TCPReceiver_flags [OF assms(1)] assms(2) by (simp add: rv_ack_def)

section \<open>Properties\<close>

text \<open>C13: a segment of the peer's stream, at any absolute sequence number within \<open>2 ^ 31\<close> of the one
  expected next, is handled without failure: the SYN is recorded, the invariant with the stream is
  kept (what is assembled is a prefix of the stream, and the end is only signalled at its end), and
  after the SYN every payload byte inside the window becomes known.  \<open>ackno\<close> is before and after the segment the
  32-bit form of an absolute number that does not decrease, and an ended stream stays ended.\<close>

theorem TCPReceiver_segment_correct:
  assumes "rv_inv S isn n r" "seg_ok S isn a seg" "rv_next r < a + 2 ^ 31" "a \<le> rv_next r + 2 ^ 31"
  shows "\<exists>r'. TCPReceiver_segment_received r seg = Inr r' \<and> rv_inv S isn n r' \<and>
    rv_syn_flag r' = (rv_syn_flag r \<or> th_syn (seg_header seg)) \<and>
    TCPReceiver_ackno r = (if rv_syn_flag r then Some (wrap (rv_ack r) isn) else None) \<and>
    TCPReceiver_ackno r' = (if rv_syn_flag r' then Some (wrap (rv_ack r') isn) else None) \<and>
    rv_ack r \<le> rv_ack r' \<and> rv_ack r' \<le> length S + 2 \<and>
    (bs_input_ended (TCPReceiver_stream_out r) \<longrightarrow> bs_input_ended (TCPReceiver_stream_out r')) \<and>
    (rv_syn_flag r' \<longrightarrow> (\<forall>i < n + rv_capacity r. sr_known (rv_reassembler r) i \<or>
       (seg_index a seg \<le> i \<and> i < seg_index a seg + length (Buffer_str (seg_payload seg))) \<longrightarrow>
       sr_known (rv_reassembler r') i))"
proof -
  obtain r' where r': "TCPReceiver_segment_received r seg = Inr r'" "rv_inv S isn n r'" "rv_next r \<le> rv_next r'"
    "rv_syn_flag r' = (rv_syn_flag r \<or> th_syn (seg_header seg))"
    "rv_syn_flag r' \<longrightarrow> (\<forall>i < n + rv_capacity r. sr_known (rv_reassembler r) i \<or>
       (seg_index a seg \<le> i \<and> i < seg_index a seg + length (Buffer_str (seg_payload seg))) \<longrightarrow>
       sr_known (rv_reassembler r') i)"
    using TCPReceiver_step [OF assms] by blast
  show ?thesis
    using r'(1,2,4,5) rv_ack_eq [OF assms(1)] rv_ack_eq [OF r'(2)] rv_ack_mono [OF r'(1,3)] rv_ack_le [OF r'(2)] TCPReceiver_flags [OF r'(1)]
    by (intro exI [of _ r'] conjI) blast+
qed

theorem TCPReceiver_segment_correct_witness:
  "\<exists>r'. TCPReceiver_segment_received (TCPReceiver_new 10)
      \<lparr>seg_header = TCPHeader_default\<lparr>th_seqno := 100, th_syn := True\<rparr>, seg_payload = Buffer_new [7, 8]\<rparr> = Inr r' \<and>
     rv_inv [7, 8, 9] 100 0 r' \<and> TCPReceiver_ackno r' = Some (wrap (rv_ack r') 100)"
proof -
  let ?seg = "\<lparr>seg_header = TCPHeader_default\<lparr>th_seqno := 100, th_syn := True\<rparr>, seg_payload = Buffer_new [7, 8]\<rparr>"
  have inv: "rv_inv [7, 8, 9] 100 0 (TCPReceiver_new 10)" by (intro inv_intros) simp
  have ok: "seg_ok [7, 8, 9] 100 0 ?seg" by (simp add: seg_ok_def part_of_def TCPHeader_default_def)
  have "rv_next (TCPReceiver_new 10) = 0" by (simp add: rv_next_def TCPReceiver_new_def StreamReassembler_new_def)
  then show ?thesis using TCPReceiver_segment_correct [OF inv ok] by auto
qed

text \<open>C17: before the SYN there is no acknowledgment number.  After it, the receiver acknowledges the first
  byte it has not assembled (counting the SYN, and the FIN once the stream has ended), and the window
  it advertises always ends at the number of bytes read plus the capacity, so its right edge
  never moves to the left.\<close>

theorem TCPReceiver_advertises:
  assumes "rv_inv S isn n r"
  shows "TCPReceiver_ackno r =
      (if rv_syn_flag r
       then Some (wrap (rv_next r + 1 + (if bs_input_ended (TCPReceiver_stream_out r) then 1 else 0)) isn) else None) \<and>
    rv_next r + TCPReceiver_window_size r = n + rv_capacity r"
  using TCPReceiver_ackno_eq [OF assms] TCPReceiver_window_eq [OF assms] by (simp add: TCPReceiver_ackno_def)

theorem TCPReceiver_advertises_witness:
  "TCPReceiver_ackno (TCPReceiver_new 10) = None \<and> TCPReceiver_window_size (TCPReceiver_new 10) = 10"
  using TCPReceiver_advertises [OF TCPReceiver_new_inv [of "[]" 10 0]]
  by (simp add: TCPReceiver_new_def rv_next_def StreamReassembler_new_def)

end
