(* ===== verification/TCP_Senders.thy ===== *)
theory TCP_Senders
  imports TCP_Receivers
begin

text \<open>
  \<open>libsponge/tcp_sender.hh\<close> and \<open>.cc\<close>: the sender divides its outgoing stream into segments, keeps
  the outstanding ones and retransmits the oldest when the timer expires.  The queue
  \<open>segments_out\<close> is a list, the map of outstanding segments an ordered association list.  The
  timer fields are C++ \<open>int\<close>s: adding the elapsed time converts modulo \<open>2 ^ 32\<close>, doubling the
  timeout past the range of \<open>int\<close> is \<open>Signed_Overflow\<close>.

  The invariant \<open>ts_inv S W s\<close> relates the sender to the bytes \<open>W\<close> written so far, a prefix of the
  whole stream \<open>S\<close>: the outstanding segments are contiguous, non-empty and carry the right slice of
  \<open>S\<close>, and every queued segment is one the receiver's specification \<open>seg_ok\<close> describes.
\<close>

section \<open>TCPConfig\<close>

definition DEFAULT_CAPACITY :: nat where
  "DEFAULT_CAPACITY = 64000"

definition MAX_PAYLOAD_SIZE :: nat where
  "MAX_PAYLOAD_SIZE = 1000"

definition TIMEOUT_DFLT :: "16 word" where
  "TIMEOUT_DFLT = 1000"

definition MAX_RETX_ATTEMPTS :: nat where
  "MAX_RETX_ATTEMPTS = 8"

section \<open>The class\<close>

record TCPSender =
  ts_timeout :: int
  ts_timecount :: int
  ts_outgoing_map :: "(nat, TCPSegment) omap"
  ts_outgoing_bytes :: nat
  ts_last_window_size :: nat
  ts_consecutive_retransmissions_count :: nat
  ts_syn_flag :: bool
  ts_fin_flag :: bool
  ts_isn :: WrappingInt32
  ts_segments_out :: "TCPSegment list"
  ts_initial_retransmission_timeout :: nat
  ts_stream :: ByteStream
  ts_next_seqno :: nat

text \<open>\<open>random\<close> is the value \<open>random_device\<close> returns.\<close>

definition TCPSender_new :: "nat \<Rightarrow> 16 word \<Rightarrow> WrappingInt32 option \<Rightarrow> 32 word \<Rightarrow> TCPSender" where
  "TCPSender_new capacity retx_timeout fixed_isn random =
     \<lparr>ts_timeout = -1, ts_timecount = 0, ts_outgoing_map = [], ts_outgoing_bytes = 0, ts_last_window_size = 1,
      ts_consecutive_retransmissions_count = 0, ts_syn_flag = False, ts_fin_flag = False,
      ts_isn = (case fixed_isn of Some isn \<Rightarrow> isn | None \<Rightarrow> random), ts_segments_out = [],
      ts_initial_retransmission_timeout = unat retx_timeout, ts_stream = ByteStream_new capacity, ts_next_seqno = 0\<rparr>"

definition TCPSender_bytes_in_flight :: "TCPSender \<Rightarrow> nat" where
  "TCPSender_bytes_in_flight s = ts_outgoing_bytes s"

definition TCPSender_consecutive_retransmissions :: "TCPSender \<Rightarrow> nat" where
  "TCPSender_consecutive_retransmissions s = ts_consecutive_retransmissions_count s mod 2 ^ 32"

definition TCPSender_next_seqno :: "TCPSender \<Rightarrow> WrappingInt32" where
  "TCPSender_next_seqno s = wrap (ts_next_seqno s) (ts_isn s)"

text \<open>The body of the loop of \<open>fill_window\<close> up to the segment, and its sending.\<close>

definition fill_window_segment :: "nat \<Rightarrow> TCPSender \<Rightarrow> TCPSegment \<times> TCPSender" where
  "fill_window_segment curr_window_size s =
     (let syn = (\<not> ts_syn_flag s);
          seqno = TCPSender_next_seqno s;
          remaining_capacity =
            u64_sub (u64_sub curr_window_size (ts_outgoing_bytes s)) (if syn then 1 else 0);
          max_payload_size = min MAX_PAYLOAD_SIZE remaining_capacity;
          (str, stream) = ByteStream_read (ts_stream s) max_payload_size;
          payload = Buffer_new str;
          fin = (ByteStream_eof stream \<and> \<not> ts_fin_flag s \<and>
                 u64_add (Buffer_size payload) (ts_outgoing_bytes s) < curr_window_size)
      in (\<lparr>seg_header = TCPHeader_default\<lparr>th_syn := syn, th_seqno := seqno, th_fin := fin\<rparr>, seg_payload = payload\<rparr>,
          s\<lparr>ts_syn_flag := True, ts_stream := stream, ts_fin_flag := (ts_fin_flag s \<or> fin)\<rparr>))"

definition fill_window_send :: "TCPSender \<Rightarrow> TCPSegment \<Rightarrow> TCPSender" where
  "fill_window_send s segment =
     (let s1 = (if ts_outgoing_map s = []
                then s\<lparr>ts_timeout := int (ts_initial_retransmission_timeout s), ts_timecount := 0\<rparr> else s)
      in s1\<lparr>ts_segments_out := ts_segments_out s1 @ [segment],
            ts_outgoing_map := om_insert (ts_next_seqno s1) segment (ts_outgoing_map s1),
            ts_outgoing_bytes := u64_add (ts_outgoing_bytes s1) (length_in_sequence_space segment),
            ts_next_seqno := u64_add (ts_next_seqno s1) (length_in_sequence_space segment)\<rparr>)"

lemma fill_window_measure:
  assumes "fill_window_segment w s = (segment, s1)" "length_in_sequence_space segment \<noteq> 0" "\<not> th_fin (seg_header segment)"
  shows "length (bs_buffer (ts_stream s1)) + (if ts_syn_flag s1 then 0 else 1) <
    length (bs_buffer (ts_stream s)) + (if ts_syn_flag s then 0 else 1)"
  using assms
  by (auto simp: fill_window_segment_def length_in_sequence_space_def ByteStream_read_def Let_def
      ByteStream_peek_output_def ByteStream_pop_output_def split: if_splits prod.splits)

lemma fill_window_send_frame [simp]:
  "ts_stream (fill_window_send s segment) = ts_stream s" "ts_syn_flag (fill_window_send s segment) = ts_syn_flag s"
  "ts_fin_flag (fill_window_send s segment) = ts_fin_flag s" "ts_isn (fill_window_send s segment) = ts_isn s"
  "ts_last_window_size (fill_window_send s segment) = ts_last_window_size s"
  "ts_initial_retransmission_timeout (fill_window_send s segment) = ts_initial_retransmission_timeout s"
  "ts_consecutive_retransmissions_count (fill_window_send s segment) = ts_consecutive_retransmissions_count s"
  by (simp_all add: fill_window_send_def Let_def)

function fill_window_loop :: "nat \<Rightarrow> TCPSender \<Rightarrow> TCPSender" where
  "fill_window_loop curr_window_size s =
     (if ts_outgoing_bytes s < curr_window_size then
        let (segment, s1) = fill_window_segment curr_window_size s
        in if length_in_sequence_space segment = 0 then s1
           else let s2 = fill_window_send s1 segment
                in if th_fin (seg_header segment) then s2 else fill_window_loop curr_window_size s2
      else s)"
  by auto
termination
proof (relation "measure (\<lambda>(w, s). length (bs_buffer (ts_stream s)) + (if ts_syn_flag s then 0 else 1))")
  fix w s x segment s1 s2
  assume "x = fill_window_segment w s" "(segment, s1) = x" "length_in_sequence_space segment \<noteq> 0"
    "s2 = fill_window_send s1 segment" "\<not> th_fin (seg_header segment)"
  then show "((w, s2), (w, s)) \<in> measure (\<lambda>(w, s). length (bs_buffer (ts_stream s)) + (if ts_syn_flag s then 0 else 1))"
    using fill_window_measure [of w s segment s1] by simp
qed simp

declare fill_window_loop.simps [simp del]

definition TCPSender_fill_window :: "TCPSender \<Rightarrow> TCPSender" where
  "TCPSender_fill_window s =
     (let curr_window_size = (if ts_last_window_size s \<noteq> 0 then ts_last_window_size s else 1)
      in fill_window_loop curr_window_size s)"

text \<open>The loop of \<open>ack_received\<close>: it returns the segments left, the bytes in flight, and whether a
  segment was removed (which resets the timer).\<close>

fun ack_erase :: "nat \<Rightarrow> (nat, TCPSegment) omap \<Rightarrow> nat \<Rightarrow> (nat, TCPSegment) omap \<times> nat \<times> bool" where
  "ack_erase abs_seqno [] bytes = ([], bytes, False)"
| "ack_erase abs_seqno ((k, seg) # m) bytes =
     (if u64_add k (length_in_sequence_space seg) \<le> abs_seqno
      then let (m', bytes', _) = ack_erase abs_seqno m (u64_sub bytes (length_in_sequence_space seg))
           in (m', bytes', True)
      else ((k, seg) # m, bytes, False))"

definition TCPSender_ack_received :: "TCPSender \<Rightarrow> WrappingInt32 \<Rightarrow> 16 word \<Rightarrow> TCPSender" where
  "TCPSender_ack_received s ackno window_size =
     (let abs_seqno = unwrap ackno (ts_isn s) (ts_next_seqno s)
      in if abs_seqno > ts_next_seqno s then s
         else let (m, bytes, erased) = ack_erase abs_seqno (ts_outgoing_map s) (ts_outgoing_bytes s);
                  s1 = s\<lparr>ts_outgoing_map := m, ts_outgoing_bytes := bytes\<rparr>;
                  s2 = (if erased
                        then s1\<lparr>ts_timeout := int (ts_initial_retransmission_timeout s), ts_timecount := 0\<rparr> else s1)
              in TCPSender_fill_window
                   (s2\<lparr>ts_consecutive_retransmissions_count := 0, ts_last_window_size := unat window_size\<rparr>))"

definition int32 :: "int \<Rightarrow> int" where
  "int32 k = sint (word_of_int k :: 32 word)"

definition TCPSender_tick :: "TCPSender \<Rightarrow> nat \<Rightarrow> TCPSender result" where
  "TCPSender_tick s ms_since_last_tick =
     (let s1 = s\<lparr>ts_timecount := int32 (ts_timecount s + int ms_since_last_tick)\<rparr>
      in case ts_outgoing_map s1 of
           [] \<Rightarrow> Inr s1
         | (_, seg) # _ \<Rightarrow>
             if ts_timecount s1 \<ge> ts_timeout s1 then
               if ts_last_window_size s1 \<noteq> 0 \<and> \<not> (- (2 ^ 31) \<le> ts_timeout s1 * 2 \<and> ts_timeout s1 * 2 < 2 ^ 31)
               then Inl Signed_Overflow
               else Inr (s1\<lparr>ts_timecount := 0,
                      ts_timeout := (if ts_last_window_size s1 \<noteq> 0 then ts_timeout s1 * 2
                                     else int (ts_initial_retransmission_timeout s1)),
                      ts_segments_out := ts_segments_out s1 @ [seg],
                      ts_consecutive_retransmissions_count :=
                        u64_add (ts_consecutive_retransmissions_count s1) 1\<rparr>)
             else Inr s1)"

definition TCPSender_send_empty_segment :: "TCPSender \<Rightarrow> TCPSender" where
  "TCPSender_send_empty_segment s =
     s\<lparr>ts_segments_out := ts_segments_out s @
         [\<lparr>seg_header = TCPHeader_default\<lparr>th_seqno := TCPSender_next_seqno s\<rparr>, seg_payload = Buffer_empty\<rparr>]\<rparr>"

section \<open>Specification\<close>

text \<open>The outstanding segments cover the absolute sequence numbers from \<open>a\<close> to \<open>b\<close> without gaps.\<close>

fun in_flight :: "bytes \<Rightarrow> WrappingInt32 \<Rightarrow> nat \<Rightarrow> (nat, TCPSegment) omap \<Rightarrow> nat \<Rightarrow> bool" where
  "in_flight S isn a [] b \<longleftrightarrow> a = b"
| "in_flight S isn a ((k, seg) # m) b \<longleftrightarrow>
     k = a \<and> seg_ok S isn a seg \<and> 0 < length_in_sequence_space seg \<and>
     in_flight S isn (a + length_in_sequence_space seg) m b"

definition ts_una :: "TCPSender \<Rightarrow> nat" where
  "ts_una s = ts_next_seqno s - ts_outgoing_bytes s"

definition ts_inv :: "bytes \<Rightarrow> bytes \<Rightarrow> TCPSender \<Rightarrow> bool" where
  "ts_inv S W s \<longleftrightarrow>
     length S + 2 < 2 ^ 62 \<and> prefix W S \<and> (bs_input_ended (ts_stream s) \<longrightarrow> W = S) \<and>
     bs_inv (ts_stream s) \<and> bs_holds (ts_stream s) W (bs_bytes_read (ts_stream s)) \<and>
     ts_next_seqno s = (if ts_syn_flag s then 1 else 0) + bs_bytes_read (ts_stream s) + (if ts_fin_flag s then 1 else 0) \<and>
     (\<not> ts_syn_flag s \<longrightarrow> bs_bytes_read (ts_stream s) = 0 \<and> \<not> ts_fin_flag s) \<and>
     (ts_fin_flag s \<longrightarrow> bs_input_ended (ts_stream s) \<and> bs_bytes_read (ts_stream s) = length W) \<and>
     ts_outgoing_bytes s \<le> ts_next_seqno s \<and>
     in_flight S (ts_isn s) (ts_una s) (ts_outgoing_map s) (ts_next_seqno s) \<and>
     ts_last_window_size s < 2 ^ 16 \<and>
     (\<forall>seg \<in> set (ts_segments_out s). \<exists>a \<le> ts_next_seqno s. seg_ok S (ts_isn s) a seg)"

lemma part_of_prefix: "prefix W S \<Longrightarrow> part_of W k str \<Longrightarrow> part_of S k str"
  by (auto simp: part_of_def prefix_def)

lemma in_flight_append:
  "in_flight S isn a (m @ m') c \<longleftrightarrow> (\<exists>b. in_flight S isn a m b \<and> in_flight S isn b m' c)"
  by (induction S isn a m c rule: in_flight.induct) auto

lemma in_flight_le: "in_flight S isn a m b \<Longrightarrow> a \<le> b"
  by (induction S isn a m b rule: in_flight.induct) auto

lemma in_flight_keys: "in_flight S isn a m b \<Longrightarrow> (k, seg) \<in> set m \<Longrightarrow> k < b"
proof (induction S isn a m b rule: in_flight.induct)
  case (2 S isn a k' seg' m b)
  then show ?case using in_flight_le [of S isn "a + length_in_sequence_space seg'" m b] by auto
qed simp

lemma in_flight_insert:
  assumes "in_flight S isn a m b" "seg_ok S isn b seg" "0 < length_in_sequence_space seg"
  shows "in_flight S isn a (om_insert b seg m) (b + length_in_sequence_space seg)"
proof -
  have "om_insert b seg m = m @ [(b, seg)]"
    using in_flight_keys [OF assms(1)] by (intro om_insert_last) auto
  then show ?thesis using assms by (simp add: in_flight_append)
qed

section \<open>One turn of the loop of fill_window\<close>

lemma ts_inv_stream:
  assumes "ts_inv S W s"
  shows "bs_bytes_read (ts_stream s) \<le> length W" "length W \<le> length S" "ts_next_seqno s < 2 ^ 62"
    "bs_buffer (ts_stream s) = drop (bs_bytes_read (ts_stream s)) W"
proof -
  have *: "bs_holds (ts_stream s) W (bs_bytes_read (ts_stream s))" "prefix W S" "length S + 2 < 2 ^ 62"
    "ts_next_seqno s = (if ts_syn_flag s then 1 else 0) + bs_bytes_read (ts_stream s) + (if ts_fin_flag s then 1 else 0)"
    using assms by (simp_all add: ts_inv_def)
  show le: "bs_bytes_read (ts_stream s) \<le> length W" "bs_buffer (ts_stream s) = drop (bs_bytes_read (ts_stream s)) W"
    using *(1) by (simp_all add: bs_holds_def)
  show le': "length W \<le> length S" using *(2) by (rule prefix_length_le)
  have "ts_next_seqno s \<le> bs_bytes_read (ts_stream s) + 2" using *(4) by simp
  then show "ts_next_seqno s < 2 ^ 62" using le le' *(3) by linarith
qed

lemma two62: "(2 :: nat) ^ 62 + 2 ^ 62 < W64"
  by (simp add: W64_def)

lemma take_length_take: "take (length (take n xs)) xs = take n xs"
  by (simp add: min_def)

lemma fill_window_segment_spec:
  assumes inv: "ts_inv S W s" and w: "ts_outgoing_bytes s < w" "w < 2 ^ 62"
    and seg: "fill_window_segment w s = (seg, s1)"
  shows "th_syn (seg_header seg) = (\<not> ts_syn_flag s)" "th_seqno (seg_header seg) = wrap (ts_next_seqno s) (ts_isn s)"
    "Buffer_wf (seg_payload seg)" "length (Buffer_str (seg_payload seg)) \<le> MAX_PAYLOAD_SIZE"
    "ts_outgoing_bytes s + length (Buffer_str (seg_payload seg)) + (if ts_syn_flag s then 0 else 1) \<le> w"
    "part_of W (bs_bytes_read (ts_stream s)) (Buffer_str (seg_payload seg))"
    "s1 = s\<lparr>ts_syn_flag := True, ts_stream := ts_stream s1, ts_fin_flag := ts_fin_flag s \<or> th_fin (seg_header seg)\<rparr>"
    "bs_inv (ts_stream s1)" "bs_holds (ts_stream s1) W (bs_bytes_read (ts_stream s1))"
    "bs_input_ended (ts_stream s1) = bs_input_ended (ts_stream s)" "bs_capacity (ts_stream s1) = bs_capacity (ts_stream s)"
    "bs_bytes_read (ts_stream s1) = bs_bytes_read (ts_stream s) + length (Buffer_str (seg_payload seg))"
    "th_fin (seg_header seg) \<longleftrightarrow> bs_input_ended (ts_stream s) \<and> bs_bytes_read (ts_stream s1) = length W \<and>
       \<not> ts_fin_flag s \<and> length (Buffer_str (seg_payload seg)) + ts_outgoing_bytes s < w"
    "Buffer_str (seg_payload seg) = take (min MAX_PAYLOAD_SIZE (w - ts_outgoing_bytes s - (if ts_syn_flag s then 0 else 1)))
       (drop (bs_bytes_read (ts_stream s)) W)"
proof -
  let ?k = "bs_bytes_read (ts_stream s)" and ?o = "ts_outgoing_bytes s"
  let ?max = "min MAX_PAYLOAD_SIZE (w - ?o - (if ts_syn_flag s then 0 else 1))"
  have sinv: "bs_inv (ts_stream s)" "bs_holds (ts_stream s) W ?k" using inv by (simp_all add: ts_inv_def)
  note st = ts_inv_stream [OF inv]
  have lenS: "length S + 2 < 2 ^ 62" using inv by (simp add: ts_inv_def)
  have big: "(2 :: nat) ^ 62 < W64" by (simp add: W64_def)
  have sub: "u64_sub (u64_sub w ?o) (if \<not> ts_syn_flag s then 1 else 0) = w - ?o - (if ts_syn_flag s then 0 else 1)"
  proof -
    have "u64_sub w ?o = w - ?o" using w big by (intro u64_sub_exact) linarith+
    moreover have "u64_sub (w - ?o) (if \<not> ts_syn_flag s then 1 else 0) = w - ?o - (if \<not> ts_syn_flag s then 1 else 0)"
      using w big by (intro u64_sub_exact) (auto split: if_splits)
    ultimately show ?thesis by simp
  qed
  obtain str stream where rd: "ByteStream_read (ts_stream s) ?max = (str, stream)"
    by (cases "ByteStream_read (ts_stream s) ?max")
  have str: "str = take ?max (drop ?k W)"
    using bs.read_bytes [OF sinv, of ?max] rd by simp
  have "length str = min (length W - ?k) ?max" unfolding str by (simp only: length_take length_drop)
  then have lstr: "length str \<le> ?max" "?k + length str \<le> length W" using st(1) by linarith+
  have stream: "bs_inv stream" "bs_holds stream W (?k + length str)" "bs_capacity stream = bs_capacity (ts_stream s)"
    using bs.read_inv [OF sinv(1), of ?max] bs.read_holds [OF sinv, of ?max] bs.read_capacity [of "ts_stream s" ?max] rd
    by simp_all
  have rd_k: "bs_bytes_read stream = ?k + length str"
    using stream(2) lstr(2) st(2) lenS big by (simp add: bs_holds_def u64_simps)
  have ended: "bs_input_ended stream = bs_input_ended (ts_stream s)"
    using rd by (auto simp: ByteStream_read_def ByteStream_pop_output_def Let_def)
  have buf: "bs_buffer stream = drop (?k + length str) W" using stream(2) by (simp add: bs_holds_def)
  have add: "u64_add (Buffer_size (Buffer_new str)) ?o = length str + ?o"
  proof -
    have "length str + ?o < W64" using lstr(1) w big by linarith
    then show ?thesis unfolding Buffer_size_def Buffer_str_new by (rule u64_add_exact)
  qed
  define fin where "fin = (ByteStream_eof stream \<and> \<not> ts_fin_flag s \<and> length str + ?o < w)"
  have eof: "ByteStream_eof stream \<longleftrightarrow> bs_input_ended (ts_stream s) \<and> ?k + length str = length W"
    using buf ended lstr(2) by (auto simp: ByteStream_eof_def ByteStream_buffer_empty_def)
  have seg': "seg = \<lparr>seg_header = TCPHeader_default\<lparr>th_syn := \<not> ts_syn_flag s, th_seqno := TCPSender_next_seqno s, th_fin := fin\<rparr>,
      seg_payload = Buffer_new str\<rparr>"
    and s1: "s1 = s\<lparr>ts_syn_flag := True, ts_stream := stream, ts_fin_flag := (ts_fin_flag s \<or> fin)\<rparr>"
    using seg unfolding fill_window_segment_def Let_def sub rd prod.case add fin_def prod.inject
    by (elim conjE; simp only:)+
  have flds: "Buffer_str (seg_payload seg) = str" "th_fin (seg_header seg) = fin" "ts_stream s1 = stream"
    by (simp_all add: seg' s1)
  show "th_syn (seg_header seg) = (\<not> ts_syn_flag s)" "th_seqno (seg_header seg) = wrap (ts_next_seqno s) (ts_isn s)"
    "Buffer_wf (seg_payload seg)"
    by (simp_all add: seg' TCPSender_next_seqno_def)
  show "length (Buffer_str (seg_payload seg)) \<le> MAX_PAYLOAD_SIZE" unfolding flds using lstr(1) by linarith
  show "s1 = s\<lparr>ts_syn_flag := True, ts_stream := ts_stream s1, ts_fin_flag := ts_fin_flag s \<or> th_fin (seg_header seg)\<rparr>"
    unfolding flds by (rule s1)
  show "bs_inv (ts_stream s1)" "bs_capacity (ts_stream s1) = bs_capacity (ts_stream s)"
    "bs_input_ended (ts_stream s1) = bs_input_ended (ts_stream s)"
    "bs_bytes_read (ts_stream s1) = ?k + length (Buffer_str (seg_payload seg))"
    "Buffer_str (seg_payload seg) = take ?max (drop ?k W)"
    unfolding flds by (fact stream(1) stream(3) ended rd_k str)+
  show "bs_holds (ts_stream s1) W (bs_bytes_read (ts_stream s1))" unfolding flds rd_k by (fact stream(2))
  show "th_fin (seg_header seg) \<longleftrightarrow> bs_input_ended (ts_stream s) \<and> bs_bytes_read (ts_stream s1) = length W \<and>
       \<not> ts_fin_flag s \<and> length (Buffer_str (seg_payload seg)) + ?o < w"
    unfolding flds rd_k fin_def eof by blast
  show "?o + length (Buffer_str (seg_payload seg)) + (if ts_syn_flag s then 0 else 1) \<le> w"
    unfolding flds using lstr(1) w(1) by (cases "ts_syn_flag s") auto
  have "take (length str) (drop ?k W) = str"
    unfolding str by (rule take_length_take)
  then show "part_of W ?k (Buffer_str (seg_payload seg))" unfolding flds part_of_def using lstr(2) by blast
qed


lemma prefix_length_eq: "prefix W S \<Longrightarrow> length W = length S \<Longrightarrow> W = S"
  by (metis append_eq_conv_conj append_take_drop_id prefix_def take_all_iff order_refl)

lemma fill_window_seg_ok:
  assumes inv: "ts_inv S W s" and w: "ts_outgoing_bytes s < w" "w < 2 ^ 62"
    and seg: "fill_window_segment w s = (seg, s1)" and ne: "length_in_sequence_space seg \<noteq> 0"
  shows "seg_ok S (ts_isn s) (ts_next_seqno s) seg" "\<not> ts_fin_flag s"
proof -
  note sp = fill_window_segment_spec [OF inv w seg]
  let ?str = "Buffer_str (seg_payload seg)" and ?k = "bs_bytes_read (ts_stream s)"
  have W: "prefix W S" "bs_input_ended (ts_stream s) \<Longrightarrow> W = S"
    and next_eq: "ts_next_seqno s = (if ts_syn_flag s then 1 else 0) + ?k + (if ts_fin_flag s then 1 else 0)"
    and syn: "\<not> ts_syn_flag s \<Longrightarrow> ?k = 0 \<and> \<not> ts_fin_flag s"
    and fin: "ts_fin_flag s \<Longrightarrow> ?k = length W"
    using inv by (simp_all add: ts_inv_def)
  show nofin: "\<not> ts_fin_flag s"
  proof
    assume f: "ts_fin_flag s"
    then have "?str = []" using fin sp(6) by (auto simp: part_of_def)
    moreover have "ts_syn_flag s" "\<not> th_fin (seg_header seg)" using f syn sp(13) by blast+
    ultimately show False using ne sp(1) by (simp add: length_in_sequence_space_def)
  qed
  have part: "part_of S ?k ?str" using W(1) sp(6) by (rule part_of_prefix)
  have end_eq: "?k + length ?str = length S" if "th_fin (seg_header seg)"
    using that sp(12,13) W(2) by auto
  show "seg_ok S (ts_isn s) (ts_next_seqno s) seg"
    using part end_eq syn nofin sp(1,2) next_eq by (cases "ts_syn_flag s") (auto simp: seg_ok_def part_of_def Let_def)
qed

lemma fill_window_step:
  assumes inv: "ts_inv S W s" and w: "ts_outgoing_bytes s < w" "w < 2 ^ 62"
    and seg: "fill_window_segment w s = (seg, s1)" and ne: "length_in_sequence_space seg \<noteq> 0"
  shows "ts_inv S W (fill_window_send s1 seg)"
    "ts_next_seqno (fill_window_send s1 seg) = ts_next_seqno s + length_in_sequence_space seg"
    "ts_outgoing_bytes (fill_window_send s1 seg) = ts_outgoing_bytes s + length_in_sequence_space seg"
    "ts_segments_out (fill_window_send s1 seg) = ts_segments_out s @ [seg]"
proof -
  note sp = fill_window_segment_spec [OF inv w seg]
  note ok = fill_window_seg_ok [OF inv w seg ne]
  let ?len = "length_in_sequence_space seg" and ?s2 = "fill_window_send s1 seg" and ?next = "ts_next_seqno s"
  have s1: "ts_next_seqno s1 = ?next" "ts_outgoing_bytes s1 = ts_outgoing_bytes s" "ts_outgoing_map s1 = ts_outgoing_map s"
    "ts_segments_out s1 = ts_segments_out s" "ts_isn s1 = ts_isn s" "ts_syn_flag s1"
    "ts_last_window_size s1 = ts_last_window_size s" "ts_fin_flag s1 = th_fin (seg_header seg)"
    using ok(2) by (subst sp(7), simp)+
  have out: "ts_outgoing_bytes s \<le> ?next" and fl: "in_flight S (ts_isn s) (ts_una s) (ts_outgoing_map s) ?next"
    and segs: "\<forall>seg \<in> set (ts_segments_out s). \<exists>a \<le> ?next. seg_ok S (ts_isn s) a seg"
    and next_eq: "?next = (if ts_syn_flag s then 1 else 0) + bs_bytes_read (ts_stream s) + (if ts_fin_flag s then 1 else 0)"
    and W: "prefix W S" "bs_input_ended (ts_stream s) \<longrightarrow> W = S" "length S + 2 < 2 ^ 62" "ts_last_window_size s < 2 ^ 16"
    using inv unfolding ts_inv_def by blast+
  have len: "?len \<le> length W + 2"
    using sp(6) by (simp add: length_in_sequence_space_def part_of_def)
  have small: "?next + ?len < W64" "ts_outgoing_bytes s + ?len < W64"
    using ts_inv_stream [OF inv] len W(3) out two62 by linarith+
  show nx: "ts_next_seqno ?s2 = ?next + ?len" and ob: "ts_outgoing_bytes ?s2 = ts_outgoing_bytes s + ?len"
    and so: "ts_segments_out ?s2 = ts_segments_out s @ [seg]"
    using small s1 by (simp_all add: fill_window_send_def Let_def u64_simps)
  have om: "ts_outgoing_map ?s2 = om_insert ?next seg (ts_outgoing_map s)"
    using s1 by (simp add: fill_window_send_def Let_def)
  have una: "ts_una ?s2 = ts_una s" using out by (simp add: ts_una_def nx ob)
  have fl': "in_flight S (ts_isn s) (ts_una s) (ts_outgoing_map ?s2) (?next + ?len)"
    unfolding om using ne by (intro in_flight_insert fl ok(1)) simp
  have nx': "?next + ?len = 1 + bs_bytes_read (ts_stream s1) + (if th_fin (seg_header seg) then 1 else 0)"
    using ok(2) next_eq sp(1,12) by (simp add: length_in_sequence_space_def)
  have "\<exists>a \<le> ?next + ?len. seg_ok S (ts_isn s) a x" if "x \<in> set (ts_segments_out s @ [seg])" for x
    using that segs ok(1) by (auto intro: le_add1 trans_le_add1)
  then show "ts_inv S W ?s2"
    unfolding ts_inv_def nx ob so una using W out fl' nx' sp(8,9,10,13) s1 by simp
qed

lemma fill_window_stop:
  assumes inv: "ts_inv S W s" and w: "ts_outgoing_bytes s < w" "w < 2 ^ 62"
    and seg: "fill_window_segment w s = (seg, s1)" and len: "length_in_sequence_space seg = 0"
  shows "s1 = s" "ts_syn_flag s" "bs_bytes_read (ts_stream s) = length W"
    "bs_input_ended (ts_stream s) \<Longrightarrow> ts_fin_flag s"
proof -
  note sp = fill_window_segment_spec [OF inv w seg]
  have str: "Buffer_str (seg_payload seg) = []" and fin: "\<not> th_fin (seg_header seg)" and syn: "ts_syn_flag s"
    using len sp(1) by (auto simp: length_in_sequence_space_def split: if_splits)
  have rd: "bs_bytes_read (ts_stream s1) = bs_bytes_read (ts_stream s)" using sp(12) str by simp
  have st: "bs_inv (ts_stream s)" "bs_holds (ts_stream s) W (bs_bytes_read (ts_stream s))"
    using inv by (simp_all add: ts_inv_def)
  have "ts_stream s1 = ts_stream s"
  proof -
    have "\<exists>n. ts_stream s1 = ByteStream_pop_output (ts_stream s) n"
      using seg by (auto simp: fill_window_segment_def ByteStream_read_def Let_def)
    then have "\<exists>x y. ts_stream s1 = (ts_stream s)\<lparr>bs_buffer := x, bs_bytes_read := y\<rparr>"
      unfolding ByteStream_pop_output_def Let_def by blast
    then obtain x y where eq: "ts_stream s1 = (ts_stream s)\<lparr>bs_buffer := x, bs_bytes_read := y\<rparr>" by blast
    have "x = bs_buffer (ts_stream s)" "y = bs_bytes_read (ts_stream s)"
      using sp(9) st(2) rd unfolding eq by (simp_all add: bs_holds_def)
    then show ?thesis using eq by simp
  qed
  then show s1: "s1 = s" using sp(7) syn fin by simp
  show "ts_syn_flag s" by (rule syn)
  have "0 < min MAX_PAYLOAD_SIZE (w - ts_outgoing_bytes s - (if ts_syn_flag s then 0 else 1))"
    using w(1) syn by (simp add: MAX_PAYLOAD_SIZE_def)
  then have "drop (bs_bytes_read (ts_stream s)) W = []" using str sp(14) by (metis gr_implies_not0 take_eq_Nil)
  then show all: "bs_bytes_read (ts_stream s) = length W" using ts_inv_stream(1) [OF inv] by simp
  show "bs_input_ended (ts_stream s) \<Longrightarrow> ts_fin_flag s"
    using sp(13) fin str rd all w(1) by simp
qed

section \<open>fill_window\<close>

text \<open>Everything written has been sent, and the FIN when the stream has ended.\<close>

definition ts_all_sent :: "bytes \<Rightarrow> TCPSender \<Rightarrow> bool" where
  "ts_all_sent W s \<longleftrightarrow> ts_syn_flag s \<and> bs_bytes_read (ts_stream s) = length W \<and>
     (bs_input_ended (ts_stream s) \<longrightarrow> ts_fin_flag s)"

text \<open>What the calls that send segments leave as it is.\<close>

definition ts_same :: "TCPSender \<Rightarrow> TCPSender \<Rightarrow> bool" where
  "ts_same s s' \<longleftrightarrow> ts_isn s' = ts_isn s \<and> ts_last_window_size s' = ts_last_window_size s \<and>
     ts_initial_retransmission_timeout s' = ts_initial_retransmission_timeout s \<and>
     bs_input_ended (ts_stream s') = bs_input_ended (ts_stream s) \<and>
     bs_capacity (ts_stream s') = bs_capacity (ts_stream s) \<and> ts_next_seqno s \<le> ts_next_seqno s' \<and>
     ts_una s' = ts_una s \<and> ts_consecutive_retransmissions_count s' = ts_consecutive_retransmissions_count s \<and>
     (\<exists>segs. ts_segments_out s' = ts_segments_out s @ segs \<and>
        (\<forall>seg \<in> set segs. length (Buffer_str (seg_payload seg)) \<le> MAX_PAYLOAD_SIZE))"

lemma ts_same_refl: "ts_same s s"
  by (simp add: ts_same_def)

lemma ts_same_trans:
  assumes "ts_same s s'" "ts_same s' s''"
  shows "ts_same s s''"
proof -
  obtain segs segs' where "ts_segments_out s' = ts_segments_out s @ segs" "ts_segments_out s'' = ts_segments_out s' @ segs'"
    "\<forall>seg \<in> set (segs @ segs'). length (Buffer_str (seg_payload seg)) \<le> MAX_PAYLOAD_SIZE"
    using assms unfolding ts_same_def by (elim conjE exE) (simp add: ball_Un)
  then have "\<exists>segs. ts_segments_out s'' = ts_segments_out s @ segs \<and>
      (\<forall>seg \<in> set segs. length (Buffer_str (seg_payload seg)) \<le> MAX_PAYLOAD_SIZE)"
    by (intro exI [of _ "segs @ segs'"]) simp
  then show ?thesis using assms unfolding ts_same_def by simp
qed

lemma fill_window_loop_spec:
  assumes "ts_inv S W s" "w < 2 ^ 62"
  shows "ts_inv S W (fill_window_loop w s) \<and> ts_same s (fill_window_loop w s) \<and>
    ts_outgoing_bytes (fill_window_loop w s) \<le> max (ts_outgoing_bytes s) (w + (if ts_syn_flag s then 0 else 1)) \<and>
    (ts_outgoing_bytes (fill_window_loop w s) < w \<longrightarrow> ts_all_sent W (fill_window_loop w s))"
  using assms
proof (induction w s rule: fill_window_loop.induct)
  case (1 w s)
  show ?case
  proof (cases "ts_outgoing_bytes s < w")
    case False
    then show ?thesis using 1(2) by (simp add: fill_window_loop.simps [of w s] ts_same_refl)
  next
    case w: True
    obtain seg s1 where seg: "fill_window_segment w s = (seg, s1)" by (cases "fill_window_segment w s")
    note sp = fill_window_segment_spec [OF 1(2) w 1(3) seg]
    show ?thesis
    proof (cases "length_in_sequence_space seg = 0")
      case True
      then have "fill_window_loop w s = s"
        using fill_window_stop(1) [OF 1(2) w 1(3) seg True] w seg by (simp add: fill_window_loop.simps [of w s])
      then show ?thesis
        using 1(2) w fill_window_stop [OF 1(2) w 1(3) seg True] by (simp add: ts_same_refl ts_all_sent_def)
    next
      case ne: False
      let ?s2 = "fill_window_send s1 seg"
      note st = fill_window_step [OF 1(2) w 1(3) seg ne]
      have frame: "ts_isn s1 = ts_isn s" "ts_last_window_size s1 = ts_last_window_size s" "ts_syn_flag s1"
          "ts_initial_retransmission_timeout s1 = ts_initial_retransmission_timeout s"
          "ts_fin_flag s1 = (ts_fin_flag s \<or> th_fin (seg_header seg))"
          "ts_consecutive_retransmissions_count s1 = ts_consecutive_retransmissions_count s"
        by (subst sp(7), simp)+
      have "ts_outgoing_bytes s \<le> ts_next_seqno s" using 1(2) unfolding ts_inv_def by blast
      then have una: "ts_una ?s2 = ts_una s" using st(2,3) by (simp add: ts_una_def)
      have same: "ts_same s ?s2"
        unfolding ts_same_def using frame sp(4,10,11) st una by simp
      have out: "ts_outgoing_bytes ?s2 \<le> w + (if ts_syn_flag s then 0 else 1)"
        "\<not> th_fin (seg_header seg) \<Longrightarrow> ts_outgoing_bytes ?s2 \<le> w"
        using st(3) sp(1,5,13) by (auto simp: length_in_sequence_space_def)
      show ?thesis
      proof (cases "th_fin (seg_header seg)")
        case True
        then have loop: "fill_window_loop w s = ?s2" using w seg ne by (simp add: fill_window_loop.simps [of w s])
        have "ts_all_sent W ?s2" using True frame sp(10,13) by (simp add: ts_all_sent_def)
        then show ?thesis unfolding loop using st(1) same out(1) by simp
      next
        case nofin: False
        then have loop: "fill_window_loop w s = fill_window_loop w ?s2"
          using w seg ne by (simp add: fill_window_loop.simps [of w s])
        have IH: "ts_inv S W (fill_window_loop w ?s2) \<and> ts_same ?s2 (fill_window_loop w ?s2) \<and>
            ts_outgoing_bytes (fill_window_loop w ?s2) \<le> max (ts_outgoing_bytes ?s2) w \<and>
            (ts_outgoing_bytes (fill_window_loop w ?s2) < w \<longrightarrow> ts_all_sent W (fill_window_loop w ?s2))"
          using 1(1) [OF w seg [symmetric] refl ne refl nofin st(1) 1(3)] frame(3) by simp
        have "ts_outgoing_bytes (fill_window_loop w ?s2) \<le> w" using IH out(2) [OF nofin] by simp
        then show ?thesis unfolding loop using IH ts_same_trans [OF same] by auto
      qed
    qed
  qed
qed

definition effective_window :: "TCPSender \<Rightarrow> nat" where
  "effective_window s = (if ts_last_window_size s \<noteq> 0 then ts_last_window_size s else 1)"

lemma TCPSender_fill_window_eq: "TCPSender_fill_window s = fill_window_loop (effective_window s) s"
  by (simp add: TCPSender_fill_window_def effective_window_def)

lemma TCPSender_fill_window_spec:
  assumes "ts_inv S W s"
  shows "ts_inv S W (TCPSender_fill_window s)" "ts_same s (TCPSender_fill_window s)"
    "ts_outgoing_bytes (TCPSender_fill_window s) \<le>
       max (ts_outgoing_bytes s) (effective_window s + (if ts_syn_flag s then 0 else 1))"
    "ts_outgoing_bytes (TCPSender_fill_window s) < effective_window s \<Longrightarrow> ts_all_sent W (TCPSender_fill_window s)"
proof -
  have "ts_last_window_size s < 2 ^ 16" using assms by (simp add: ts_inv_def)
  then have "effective_window s < 2 ^ 62" by (simp add: effective_window_def)
  from fill_window_loop_spec [OF assms this] show "ts_inv S W (TCPSender_fill_window s)" "ts_same s (TCPSender_fill_window s)"
    "ts_outgoing_bytes (TCPSender_fill_window s) \<le>
       max (ts_outgoing_bytes s) (effective_window s + (if ts_syn_flag s then 0 else 1))"
    "ts_outgoing_bytes (TCPSender_fill_window s) < effective_window s \<Longrightarrow> ts_all_sent W (TCPSender_fill_window s)"
    unfolding TCPSender_fill_window_eq by blast+
qed


section \<open>ack_received\<close>

lemma in_flight_lower: "in_flight S isn a m b \<Longrightarrow> (k, seg) \<in> set m \<Longrightarrow> a \<le> k"
proof (induction S isn a m b rule: in_flight.induct)
  case (2 S isn a k' seg' m b)
  then show ?case by auto
qed simp

lemma ack_erase_spec:
  assumes "in_flight S isn a m b" "bytes = b - a" "b < 2 ^ 62" "ack_erase ack m bytes = (m', bytes', erased)" "ack \<le> b"
  shows "\<exists>a' d. m = d @ m' \<and> a \<le> a' \<and> a' \<le> max a ack \<and> in_flight S isn a' m' b \<and> bytes' = b - a' \<and>
    (erased \<longleftrightarrow> a < a') \<and> (\<forall>(k, seg) \<in> set m'. ack < k + length_in_sequence_space seg)"
  using assms
proof (induction S isn a m b arbitrary: bytes erased rule: in_flight.induct)
  case (1 S isn a b)
  then show ?case by auto
next
  case (2 S isn a k seg m b)
  let ?len = "length_in_sequence_space seg"
  have fl: "k = a" "0 < ?len" "in_flight S isn (a + ?len) m b" using 2(2) by simp_all
  have le: "a + ?len \<le> b" using in_flight_le [OF fl(3)] .
  have add: "u64_add k ?len = a + ?len" using le 2(4) two62 fl(1) by (intro trans [OF u64_add_exact]) simp_all
  show ?case
  proof (cases "a + ?len \<le> ack")
    case True
    have sub: "u64_sub bytes ?len = b - (a + ?len)" using le 2(3,4) two62 by (simp add: u64_sub_exact)
    obtain e where "ack_erase ack m (u64_sub bytes ?len) = (m', bytes', e)" "erased"
      using 2(5) True add by (auto split: prod.splits)
    from 2(1) [OF fl(3) sub 2(4) this(1) 2(6)] obtain a' d where "m = d @ m'" "a + ?len \<le> a'" "a' \<le> max (a + ?len) ack"
        "in_flight S isn a' m' b" "bytes' = b - a'" "\<forall>(k, seg) \<in> set m'. ack < k + length_in_sequence_space seg"
      by blast
    then show ?thesis using True \<open>erased\<close> fl(2) by (intro exI [of _ a'] exI [of _ "(k, seg) # d"]) auto
  next
    case False
    then have res: "m' = (k, seg) # m" "bytes' = bytes" "\<not> erased" using 2(5) add by auto
    have "ack < k' + length_in_sequence_space seg'" if "(k', seg') \<in> set m'" for k' seg'
      using that res(1) False fl(1) in_flight_lower [OF fl(3)] by fastforce
    then show ?thesis using res 2(2,3) by (intro exI [of _ a] exI [of _ "[]"]) auto
  qed
qed

text \<open>The state in which \<open>ack_received\<close> calls \<open>fill_window\<close>.\<close>

definition ack_applied :: "TCPSender \<Rightarrow> nat \<Rightarrow> 16 word \<Rightarrow> TCPSender" where
  "ack_applied s abs_seqno window_size =
     (let (m, bytes, erased) = ack_erase abs_seqno (ts_outgoing_map s) (ts_outgoing_bytes s);
          s1 = s\<lparr>ts_outgoing_map := m, ts_outgoing_bytes := bytes\<rparr>;
          s2 = (if erased then s1\<lparr>ts_timeout := int (ts_initial_retransmission_timeout s), ts_timecount := 0\<rparr> else s1)
      in s2\<lparr>ts_consecutive_retransmissions_count := 0, ts_last_window_size := unat window_size\<rparr>)"

lemma TCPSender_ack_received_eq:
  "TCPSender_ack_received s ackno window_size =
     (let abs_seqno = unwrap ackno (ts_isn s) (ts_next_seqno s)
      in if abs_seqno > ts_next_seqno s then s else TCPSender_fill_window (ack_applied s abs_seqno window_size))"
  by (simp add: TCPSender_ack_received_def ack_applied_def Let_def split_beta)

lemma ack_applied_spec:
  assumes inv: "ts_inv S W s" and ack: "ack \<le> ts_next_seqno s"
  shows "ts_inv S W (ack_applied s ack win)" "ts_una s \<le> ts_una (ack_applied s ack win)"
    "ts_una (ack_applied s ack win) \<le> max (ts_una s) ack"
    "\<forall>(k, seg) \<in> set (ts_outgoing_map (ack_applied s ack win)). ack < k + length_in_sequence_space seg"
    "\<exists>d. ts_outgoing_map s = d @ ts_outgoing_map (ack_applied s ack win)"
    "ts_consecutive_retransmissions_count (ack_applied s ack win) = 0"
    "ts_last_window_size (ack_applied s ack win) = unat win" "ts_isn (ack_applied s ack win) = ts_isn s"
    "ts_stream (ack_applied s ack win) = ts_stream s" "ts_segments_out (ack_applied s ack win) = ts_segments_out s"
    "ts_next_seqno (ack_applied s ack win) = ts_next_seqno s" "ts_syn_flag (ack_applied s ack win) = ts_syn_flag s"
    "ts_una (ack_applied s ack win) = ts_una s \<Longrightarrow> ts_timeout (ack_applied s ack win) = ts_timeout s \<and>
       ts_timecount (ack_applied s ack win) = ts_timecount s"
    "ts_una s < ts_una (ack_applied s ack win) \<Longrightarrow>
       ts_timeout (ack_applied s ack win) = int (ts_initial_retransmission_timeout s) \<and> ts_timecount (ack_applied s ack win) = 0"
proof -
  let ?a = "ack_applied s ack win"
  obtain m bytes erased where er: "ack_erase ack (ts_outgoing_map s) (ts_outgoing_bytes s) = (m, bytes, erased)"
    by (cases "ack_erase ack (ts_outgoing_map s) (ts_outgoing_bytes s)")
  have fl: "in_flight S (ts_isn s) (ts_una s) (ts_outgoing_map s) (ts_next_seqno s)" "ts_outgoing_bytes s \<le> ts_next_seqno s"
    using inv unfolding ts_inv_def by blast+
  have "ts_outgoing_bytes s = ts_next_seqno s - ts_una s" using fl(2) by (simp add: ts_una_def)
  from ack_erase_spec [OF fl(1) this ts_inv_stream(3) [OF inv] er ack] obtain a' d where
    m: "ts_outgoing_map s = d @ m" "ts_una s \<le> a'" "a' \<le> max (ts_una s) ack" "in_flight S (ts_isn s) a' m (ts_next_seqno s)"
    "bytes = ts_next_seqno s - a'" "erased \<longleftrightarrow> ts_una s < a'" "\<forall>(k, seg) \<in> set m. ack < k + length_in_sequence_space seg"
    by blast
  have a'_le: "a' \<le> ts_next_seqno s" using in_flight_le [OF m(4)] .
  have flds: "ts_outgoing_map ?a = m" "ts_outgoing_bytes ?a = bytes"
    by (simp_all add: ack_applied_def er Let_def)
  show frame: "ts_consecutive_retransmissions_count ?a = 0"
    "ts_last_window_size ?a = unat win" "ts_isn ?a = ts_isn s"
    "ts_stream ?a = ts_stream s" "ts_segments_out ?a = ts_segments_out s"
    "ts_next_seqno ?a = ts_next_seqno s" "ts_syn_flag ?a = ts_syn_flag s"
    by (simp_all add: ack_applied_def er Let_def)
  have fin: "ts_fin_flag ?a = ts_fin_flag s" by (simp add: ack_applied_def er Let_def)
  have una: "ts_una ?a = a'" unfolding ts_una_def frame flds m(5) using a'_le by simp
  show "ts_una s \<le> ts_una ?a" "ts_una ?a \<le> max (ts_una s) ack"
    "\<forall>(k, seg) \<in> set (ts_outgoing_map ?a). ack < k + length_in_sequence_space seg"
    "\<exists>d. ts_outgoing_map s = d @ ts_outgoing_map ?a"
    unfolding una flds using m by blast+
  show "ts_una ?a = ts_una s \<Longrightarrow> ts_timeout ?a = ts_timeout s \<and> ts_timecount ?a = ts_timecount s"
    "ts_una s < ts_una ?a \<Longrightarrow> ts_timeout ?a = int (ts_initial_retransmission_timeout s) \<and> ts_timecount ?a = 0"
    using m(6) unfolding una by (simp_all add: ack_applied_def er Let_def)
  have "unat win < 2 ^ 16" using unat_bounds(2) [of win] by simp
  moreover have "bytes \<le> ts_next_seqno s" using m(5) by simp
  ultimately show "ts_inv S W ?a"
    using inv m(4) unfolding ts_inv_def una frame flds fin by blast
qed

lemma TCPSender_ack_received_spec:
  assumes inv: "ts_inv S W s"
  shows "ts_inv S W (TCPSender_ack_received s ackno win)" "ts_una s \<le> ts_una (TCPSender_ack_received s ackno win)"
    "ts_isn (TCPSender_ack_received s ackno win) = ts_isn s"
    "ts_next_seqno s \<le> ts_next_seqno (TCPSender_ack_received s ackno win)"
    "bs_input_ended (ts_stream (TCPSender_ack_received s ackno win)) = bs_input_ended (ts_stream s)"
proof -
  let ?ack = "unwrap ackno (ts_isn s) (ts_next_seqno s)"
  have "ts_inv S W (TCPSender_ack_received s ackno win) \<and> ts_una s \<le> ts_una (TCPSender_ack_received s ackno win) \<and>
    ts_isn (TCPSender_ack_received s ackno win) = ts_isn s \<and>
    ts_next_seqno s \<le> ts_next_seqno (TCPSender_ack_received s ackno win) \<and>
    bs_input_ended (ts_stream (TCPSender_ack_received s ackno win)) = bs_input_ended (ts_stream s)"
  proof (cases "?ack > ts_next_seqno s")
    case True
    then show ?thesis using inv by (simp add: TCPSender_ack_received_eq)
  next
    case False
    then have le: "?ack \<le> ts_next_seqno s" by simp
    have eq: "TCPSender_ack_received s ackno win = TCPSender_fill_window (ack_applied s ?ack win)"
      using False by (simp add: TCPSender_ack_received_eq)
    note ap = ack_applied_spec [OF inv le, of win]
    show ?thesis
      unfolding eq using TCPSender_fill_window_spec(1,2) [OF ap(1)] ap(2,8,9,11) by (simp add: ts_same_def)
  qed
  then show "ts_inv S W (TCPSender_ack_received s ackno win)" "ts_una s \<le> ts_una (TCPSender_ack_received s ackno win)"
    "ts_isn (TCPSender_ack_received s ackno win) = ts_isn s"
    "ts_next_seqno s \<le> ts_next_seqno (TCPSender_ack_received s ackno win)"
    "bs_input_ended (ts_stream (TCPSender_ack_received s ackno win)) = bs_input_ended (ts_stream s)"
    by blast+
qed

section \<open>tick, empty segments and the writer\<close>

lemma TCPSender_tick_spec:
  assumes inv: "ts_inv S W s" and ok: "TCPSender_tick s ms = Inr s'"
  shows "ts_inv S W s'" "ts_una s' = ts_una s" "ts_isn s' = ts_isn s" "ts_next_seqno s' = ts_next_seqno s"
    "ts_stream s' = ts_stream s"
proof -
  have frame: "ts_outgoing_map s' = ts_outgoing_map s" "ts_outgoing_bytes s' = ts_outgoing_bytes s" "ts_isn s' = ts_isn s"
    "ts_next_seqno s' = ts_next_seqno s" "ts_stream s' = ts_stream s" "ts_syn_flag s' = ts_syn_flag s"
    "ts_fin_flag s' = ts_fin_flag s" "ts_last_window_size s' = ts_last_window_size s"
    using ok by (auto simp: TCPSender_tick_def Let_def split: list.splits if_splits)
  show "ts_una s' = ts_una s" by (simp add: ts_una_def frame)
  show "ts_isn s' = ts_isn s" "ts_next_seqno s' = ts_next_seqno s" "ts_stream s' = ts_stream s" by (fact frame)+
  have fl: "in_flight S (ts_isn s) (ts_una s) (ts_outgoing_map s) (ts_next_seqno s)"
    and segs: "\<forall>seg \<in> set (ts_segments_out s). \<exists>a \<le> ts_next_seqno s. seg_ok S (ts_isn s) a seg"
    using inv unfolding ts_inv_def by blast+
  have "\<exists>a \<le> ts_next_seqno s. seg_ok S (ts_isn s) a seg" if "(k, seg) # m = ts_outgoing_map s" for k seg m
    using fl in_flight_le unfolding that [symmetric] by fastforce
  moreover have "seg \<in> set (ts_segments_out s) \<or> (\<exists>k m. (k, seg) # m = ts_outgoing_map s)"
    if "seg \<in> set (ts_segments_out s')" for seg
    using ok that by (auto simp: TCPSender_tick_def Let_def split: list.splits if_splits)
  ultimately have "\<forall>seg \<in> set (ts_segments_out s'). \<exists>a \<le> ts_next_seqno s. seg_ok S (ts_isn s) a seg"
    using segs by blast
  then show "ts_inv S W s'"
    using inv unfolding ts_inv_def ts_una_def frame by blast
qed

lemma TCPSender_send_empty_segment_inv [inv_intros]:
  assumes "ts_inv S W s"
  shows "ts_inv S W (TCPSender_send_empty_segment s)"
proof -
  let ?seg = "\<lparr>seg_header = TCPHeader_default\<lparr>th_seqno := TCPSender_next_seqno s\<rparr>, seg_payload = Buffer_empty\<rparr>"
  have "ts_next_seqno s \<le> bs_bytes_read (ts_stream s) + 2" using assms unfolding ts_inv_def by simp
  then have "ts_next_seqno s \<le> length S + 2" using ts_inv_stream(1,2) [OF assms] by linarith
  then have "seg_ok S (ts_isn s) (ts_next_seqno s) ?seg"
    by (simp add: seg_ok_def TCPHeader_default_def TCPSender_next_seqno_def)
  moreover have "ts_segments_out (TCPSender_send_empty_segment s) = ts_segments_out s @ [?seg]"
    by (simp add: TCPSender_send_empty_segment_def)
  ultimately show ?thesis
    using assms unfolding ts_inv_def ts_una_def TCPSender_send_empty_segment_def by auto
qed

lemma TCPSender_new_inv [inv_intros]:
  "length S + 2 < 2 ^ 62 \<Longrightarrow> capacity < W64 \<Longrightarrow> ts_inv S [] (TCPSender_new capacity rt fixed_isn rnd)"
  using bs_inv_new [of capacity] bs_holds_new [of capacity]
  by (simp add: ts_inv_def TCPSender_new_def ts_una_def) (simp add: ByteStream_new_def)

text \<open>The application writes to \<open>stream_in()\<close> and ends it.\<close>

definition TCPSender_write :: "TCPSender \<Rightarrow> bytes \<Rightarrow> nat \<times> TCPSender" where
  "TCPSender_write s data = (let (n, stream) = ByteStream_write (ts_stream s) data in (n, s\<lparr>ts_stream := stream\<rparr>))"

definition TCPSender_end_input :: "TCPSender \<Rightarrow> TCPSender" where
  "TCPSender_end_input s = s\<lparr>ts_stream := ByteStream_end_input (ts_stream s)\<rparr>"

lemma TCPSender_write_inv:
  assumes inv: "ts_inv S W s" and wr: "TCPSender_write s data = (n, s')" and pre: "prefix (W @ take n data) S"
    and open_in: "\<not> bs_input_ended (ts_stream s)"
  shows "ts_inv S (W @ take n data) s'" "ts_isn s' = ts_isn s" "\<not> bs_input_ended (ts_stream s')" "n \<le> length data"
    "ts_segments_out s' = ts_segments_out s"
proof -
  have st: "bs_inv (ts_stream s)" "bs_holds (ts_stream s) W (bs_bytes_read (ts_stream s))"
    using inv unfolding ts_inv_def by blast+
  have w: "n = fst (ByteStream_write (ts_stream s) data)" "s' = s\<lparr>ts_stream := snd (ByteStream_write (ts_stream s) data)\<rparr>"
    using wr by (simp_all add: TCPSender_write_def split_beta Let_def)
  let ?st = "snd (ByteStream_write (ts_stream s) data)"
  have st': "bs_inv ?st" "bs_holds ?st (W @ take n data) (bs_bytes_read (ts_stream s))"
    using bs.write_inv [OF st(1)] bs.write_holds [OF st] w(1) by simp_all
  have rd: "bs_bytes_read ?st = bs_bytes_read (ts_stream s)" "bs_input_ended ?st = bs_input_ended (ts_stream s)"
    by (simp_all add: ByteStream_write_def Let_def)
  have frame: "ts_stream s' = ?st" "ts_outgoing_map s' = ts_outgoing_map s" "ts_outgoing_bytes s' = ts_outgoing_bytes s"
    "ts_isn s' = ts_isn s" "ts_next_seqno s' = ts_next_seqno s" "ts_syn_flag s' = ts_syn_flag s"
    "ts_fin_flag s' = ts_fin_flag s" "ts_last_window_size s' = ts_last_window_size s"
    "ts_segments_out s' = ts_segments_out s"
    by (simp_all add: w(2))
  show "ts_inv S (W @ take n data) s'"
    using inv pre st' open_in unfolding ts_inv_def ts_una_def frame rd by blast
  show "ts_isn s' = ts_isn s" "\<not> bs_input_ended (ts_stream s')" "ts_segments_out s' = ts_segments_out s"
    using open_in rd by (simp_all add: w(2))
  show "n \<le> length data" using bs.write_count [OF st(1), of data] w(1) by simp
qed

lemma TCPSender_end_input_inv:
  assumes "ts_inv S S s"
  shows "ts_inv S S (TCPSender_end_input s)"
proof -
  let ?s = "TCPSender_end_input s"
  have frame: "ts_stream ?s = ByteStream_end_input (ts_stream s)" "ts_outgoing_map ?s = ts_outgoing_map s"
    "ts_outgoing_bytes ?s = ts_outgoing_bytes s" "ts_isn ?s = ts_isn s" "ts_next_seqno ?s = ts_next_seqno s"
    "ts_syn_flag ?s = ts_syn_flag s" "ts_fin_flag ?s = ts_fin_flag s" "ts_last_window_size ?s = ts_last_window_size s"
    "ts_segments_out ?s = ts_segments_out s" "bs_bytes_read (ByteStream_end_input (ts_stream s)) = bs_bytes_read (ts_stream s)"
    "bs_input_ended (ByteStream_end_input (ts_stream s)) = True"
    by (simp_all add: TCPSender_end_input_def ByteStream_end_input_def)
  show ?thesis
    using assms bs_inv_end_input [of "ts_stream s"] unfolding ts_inv_def ts_una_def frame bs_holds_flags by blast
qed

text \<open>An acknowledgment of nothing new resets the count of retransmissions but not the timeout.\<close>

lemma fill_window_full: "effective_window s \<le> ts_outgoing_bytes s \<Longrightarrow> TCPSender_fill_window s = s"
  by (simp add: TCPSender_fill_window_eq fill_window_loop.simps)

lemma TCPSender_duplicate_ack:
  assumes inv: "ts_inv S W s" and ack: "unwrap ackno (ts_isn s) (ts_next_seqno s) \<le> ts_una s"
    and full: "unat win \<le> ts_outgoing_bytes s" "0 < ts_outgoing_bytes s"
  shows "ts_timeout (TCPSender_ack_received s ackno win) = ts_timeout s"
    "ts_consecutive_retransmissions_count (TCPSender_ack_received s ackno win) = 0"
proof -
  let ?ack = "unwrap ackno (ts_isn s) (ts_next_seqno s)" and ?a = "ack_applied s (unwrap ackno (ts_isn s) (ts_next_seqno s)) win"
  have le: "?ack \<le> ts_next_seqno s" using ack by (simp add: ts_una_def)
  note ap = ack_applied_spec [OF inv le, of win]
  have una: "ts_una ?a = ts_una s" using ap(2,3) ack by simp
  have "ts_outgoing_bytes ?a \<le> ts_next_seqno ?a" "ts_outgoing_bytes s \<le> ts_next_seqno s"
    using ap(1) inv unfolding ts_inv_def by blast+
  then have "ts_outgoing_bytes ?a = ts_outgoing_bytes s" using una ap(11) unfolding ts_una_def by linarith
  then have "effective_window ?a \<le> ts_outgoing_bytes ?a" using full ap(7) by (simp add: effective_window_def)
  then have eq: "TCPSender_ack_received s ackno win = ?a"
    using le by (simp add: TCPSender_ack_received_eq fill_window_full)
  show "ts_timeout (TCPSender_ack_received s ackno win) = ts_timeout s"
    "ts_consecutive_retransmissions_count (TCPSender_ack_received s ackno win) = 0"
    unfolding eq using ap(6,13) una by simp_all
qed

section \<open>Properties\<close>

lemmas sender_eval = TCPSender_new_def TCPSender_fill_window_def fill_window_loop.simps fill_window_segment_def
  fill_window_send_def length_in_sequence_space_def TCPSender_next_seqno_def TCPSender_end_input_def
  TCPSender_write_def TCPHeader_default_def Buffer_new_def Buffer_size_def Buffer_str_def MAX_PAYLOAD_SIZE_def

text \<open>With a window of one a fresh sender whose stream has ended sends SYN and FIN together, which is
  one sequence number more than the window allows.\<close>

lemma TCPSender_syn_fin_overshoot:
  "ts_outgoing_bytes (TCPSender_fill_window (TCPSender_end_input (TCPSender_new 10 1000 (Some 0) 0))) = 2"
  by (simp add: sender_eval ByteStream_defs Let_def eval_simps del: eval_del)

text \<open>C12: \<open>fill_window\<close> keeps the invariant (every segment it queues carries the right bytes of the stream
  at the right sequence number), never queues more than \<open>MAX_PAYLOAD_SIZE\<close> bytes in a segment, does
  not exceed the window (by one when the SYN is sent along), and stops short of a full window only
  when everything written has been sent, the FIN included.\<close>

theorem TCPSender_fill_window_correct:
  assumes "ts_inv S W s"
  shows "ts_inv S W (TCPSender_fill_window s) \<and>
    ts_outgoing_bytes (TCPSender_fill_window s) \<le>
      max (ts_outgoing_bytes s) (effective_window s + (if ts_syn_flag s then 0 else 1)) \<and>
    (ts_outgoing_bytes (TCPSender_fill_window s) < effective_window s \<longrightarrow> ts_all_sent W (TCPSender_fill_window s)) \<and>
    (\<exists>segs. ts_segments_out (TCPSender_fill_window s) = ts_segments_out s @ segs \<and>
       (\<forall>seg \<in> set segs. length (Buffer_str (seg_payload seg)) \<le> MAX_PAYLOAD_SIZE))"
proof -
  note sp = TCPSender_fill_window_spec [OF assms]
  have "\<exists>segs. ts_segments_out (TCPSender_fill_window s) = ts_segments_out s @ segs \<and>
      (\<forall>seg \<in> set segs. length (Buffer_str (seg_payload seg)) \<le> MAX_PAYLOAD_SIZE)"
    using sp(2) unfolding ts_same_def by blast
  then show ?thesis using sp(1,3,4) by blast
qed

theorem TCPSender_fill_window_correct_witness:
  "ts_inv [] [] (TCPSender_fill_window (TCPSender_new 10 1000 (Some 0) 0))"
proof -
  have "ts_inv [] [] (TCPSender_new 10 1000 (Some 0) 0)" by (intro inv_intros) (simp_all add: W64_def)
  from TCPSender_fill_window_correct [OF this] show ?thesis by blast
qed

text \<open>C14: an acknowledgment of something not yet sent is ignored.  Any other one removes from the
  outstanding segments exactly those it covers completely: the removed ones are a prefix of the map,
  no remaining one is covered, the oldest unacknowledged number does not go back nor past the
  acknowledged one, the number of bytes in flight is the distance to the next sequence number, and
  the invariant is kept.\<close>

theorem TCPSender_ack_received_correct:
  fixes ackno :: WrappingInt32 and win :: "16 word"
  assumes "ts_inv S W s" "ack = unwrap ackno (ts_isn s) (ts_next_seqno s)"
  shows "if ack > ts_next_seqno s then TCPSender_ack_received s ackno win = s
    else \<exists>s1. TCPSender_ack_received s ackno win = TCPSender_fill_window s1 \<and>
      ts_inv S W s1 \<and> ts_inv S W (TCPSender_ack_received s ackno win) \<and>
      ts_una s \<le> ts_una s1 \<and> ts_una s1 \<le> max (ts_una s) ack \<and>
      ts_outgoing_bytes s1 = ts_next_seqno s1 - ts_una s1 \<and>
      (\<exists>acked. ts_outgoing_map s = acked @ ts_outgoing_map s1) \<and>
      (\<forall>(k, seg) \<in> set (ts_outgoing_map s1). ack < k + length_in_sequence_space seg) \<and>
      ts_last_window_size s1 = unat win"
proof (cases "ack > ts_next_seqno s")
  case True
  then show ?thesis using assms(2) by (simp add: TCPSender_ack_received_eq)
next
  case False
  then have le: "ack \<le> ts_next_seqno s" by simp
  note ap = ack_applied_spec [OF assms(1) le, of win]
  have eq: "TCPSender_ack_received s ackno win = TCPSender_fill_window (ack_applied s ack win)"
    using False assms(2) by (simp add: TCPSender_ack_received_eq)
  have "ts_outgoing_bytes (ack_applied s ack win) \<le> ts_next_seqno (ack_applied s ack win)"
    using ap(1) unfolding ts_inv_def by blast
  then have "ts_outgoing_bytes (ack_applied s ack win) =
      ts_next_seqno (ack_applied s ack win) - ts_una (ack_applied s ack win)"
    by (simp add: ts_una_def)
  then show ?thesis
    unfolding if_not_P [OF False] using eq ap(1-5,7) TCPSender_ack_received_spec(1) [OF assms(1)]
    by (intro exI [of _ "ack_applied s ack win"]) blast
qed

theorem TCPSender_ack_received_correct_witness:
  "ts_inv [] [] (TCPSender_fill_window (TCPSender_new 10 1000 (Some 0) 0)) \<and>
   (\<exists>s1. TCPSender_ack_received (TCPSender_fill_window (TCPSender_new 10 1000 (Some 0) 0)) 1 500 =
     TCPSender_fill_window s1 \<and> ts_last_window_size s1 = 500)"
proof -
  let ?new = "TCPSender_new 10 1000 (Some 0) 0" and ?s = "TCPSender_fill_window (TCPSender_new 10 1000 (Some 0) 0)"
  have "ts_inv [] [] ?new" by (intro inv_intros) (simp_all add: W64_def)
  from TCPSender_fill_window_spec(1) [OF this] have inv: "ts_inv [] [] ?s" .
  have st: "ts_isn ?s = 0" "ts_next_seqno ?s = 1"
    by (simp_all add: sender_eval ByteStream_defs Let_def eval_simps del: eval_del)
  have "unwrap 1 0 1 = 1" using unwrap_wrap_near [of 1 1 0] by (simp add: W64_def wrap_def wi_plus_u32_def)
  then show ?thesis
    using TCPSender_ack_received_correct [OF inv refl, of 1 500] inv unfolding st by auto
qed

text \<open>C15: time passing.  When segments are outstanding and the timer has expired, the oldest one (the one
  at the lowest unacknowledged sequence number) is queued again and nothing else, the timer restarts
  with twice the timeout (the initial one when the window is zero) and the count of consecutive
  retransmissions goes up; otherwise only the elapsed time changes.\<close>

theorem TCPSender_tick_correct:
  assumes inv: "ts_inv S W s" and small: "- (2 ^ 30) \<le> ts_timeout s" "ts_timeout s < 2 ^ 30"
  shows "\<exists>s'. TCPSender_tick s ms = Inr s' \<and> ts_inv S W s' \<and>
    (if ts_outgoing_map s \<noteq> [] \<and> ts_timeout s \<le> int32 (ts_timecount s + int ms)
     then \<exists>seg m. ts_outgoing_map s = (ts_una s, seg) # m \<and> ts_segments_out s' = ts_segments_out s @ [seg] \<and>
       ts_timecount s' = 0 \<and>
       ts_timeout s' = (if ts_last_window_size s \<noteq> 0 then 2 * ts_timeout s else int (ts_initial_retransmission_timeout s)) \<and>
       ts_consecutive_retransmissions_count s' = u64_add (ts_consecutive_retransmissions_count s) 1
     else s' = s\<lparr>ts_timecount := int32 (ts_timecount s + int ms)\<rparr>)"
proof -
  have fl: "in_flight S (ts_isn s) (ts_una s) (ts_outgoing_map s) (ts_next_seqno s)"
    using inv unfolding ts_inv_def by blast
  have "\<exists>s'. TCPSender_tick s ms = Inr s' \<and>
    (if ts_outgoing_map s \<noteq> [] \<and> ts_timeout s \<le> int32 (ts_timecount s + int ms)
     then \<exists>seg m. ts_outgoing_map s = (ts_una s, seg) # m \<and> ts_segments_out s' = ts_segments_out s @ [seg] \<and>
       ts_timecount s' = 0 \<and>
       ts_timeout s' = (if ts_last_window_size s \<noteq> 0 then 2 * ts_timeout s else int (ts_initial_retransmission_timeout s)) \<and>
       ts_consecutive_retransmissions_count s' = u64_add (ts_consecutive_retransmissions_count s) 1
     else s' = s\<lparr>ts_timecount := int32 (ts_timecount s + int ms)\<rparr>)"
  proof (cases "ts_outgoing_map s")
    case Nil
    then show ?thesis by (simp add: TCPSender_tick_def)
  next
    case (Cons e m)
    obtain k seg where e: "e = (k, seg)" by (cases e)
    have "k = ts_una s" using fl Cons e by simp
    then show ?thesis using Cons e small by (simp add: TCPSender_tick_def Let_def)
  qed
  then show ?thesis using TCPSender_tick_spec(1) [OF inv] by blast
qed

theorem TCPSender_tick_correct_witness:
  "ts_inv [] [] (TCPSender_fill_window (TCPSender_new 10 1000 (Some 0) 0)) \<and>
   (\<exists>s'. TCPSender_tick (TCPSender_fill_window (TCPSender_new 10 1000 (Some 0) 0)) 1000 = Inr s' \<and> ts_inv [] [] s')"
proof -
  let ?new = "TCPSender_new 10 1000 (Some 0) 0" and ?s = "TCPSender_fill_window (TCPSender_new 10 1000 (Some 0) 0)"
  have "ts_inv [] [] ?new" by (intro inv_intros) (simp_all add: W64_def)
  from TCPSender_fill_window_spec(1) [OF this] have inv: "ts_inv [] [] ?s" .
  have t: "ts_timeout ?s = 1000"
    by (simp add: sender_eval ByteStream_defs Let_def eval_simps del: eval_del)
  show ?thesis using TCPSender_tick_correct [OF inv, of 1000] inv t by auto
qed

end
