(* ===== verification/TCP_State.thy ===== *)
theory TCP_State
  imports TCP_Senders
begin

text \<open>
  The summary of a connection: \<open>src/libsponge/tcp_helpers/tcp_state.hh\<close> and \<open>tcp_state.cc\<close>.

  The class compares a sender, a receiver and the two flags of a connection with the official states
  of RFC 793; the summaries are strings, as in the source.  The lemmas say which condition on the
  sender and the receiver each summary stands for.
\<close>

section \<open>The class\<close>

record TCPState =
  st_sender :: string
  st_receiver :: string
  st_active :: bool
  st_linger_after_streams_finish :: bool

datatype State =
    LISTEN | SYN_RCVD | SYN_SENT | ESTABLISHED | CLOSE_WAIT | LAST_ACK | FIN_WAIT_1 | FIN_WAIT_2
  | CLOSING | TIME_WAIT | CLOSED | RESET

text \<open>The strings of the namespaces \<open>TCPReceiverStateSummary\<close> and \<open>TCPSenderStateSummary\<close>.\<close>

definition receiver_ERROR :: string where
  "receiver_ERROR = ''error (connection was reset)''"

definition receiver_LISTEN :: string where
  "receiver_LISTEN = ''waiting for SYN: ackno is empty''"

definition receiver_SYN_RECV :: string where
  "receiver_SYN_RECV = ''SYN received (ackno exists), and input to stream hasn't ended''"

definition receiver_FIN_RECV :: string where
  "receiver_FIN_RECV = ''input to stream has ended''"

definition sender_ERROR :: string where
  "sender_ERROR = ''error (connection was reset)''"

definition sender_CLOSED :: string where
  "sender_CLOSED = ''waiting for stream to begin (no SYN sent)''"

definition sender_SYN_SENT :: string where
  "sender_SYN_SENT = ''stream started but nothing acknowledged''"

definition sender_SYN_ACKED :: string where
  "sender_SYN_ACKED = ''stream ongoing''"

definition sender_FIN_SENT :: string where
  "sender_FIN_SENT = ''stream finished (FIN sent) but not fully acknowledged''"

definition sender_FIN_ACKED :: string where
  "sender_FIN_ACKED = ''stream finished and fully acknowledged''"

definition TCPState_eq :: "TCPState \<Rightarrow> TCPState \<Rightarrow> bool" where
  "TCPState_eq s t \<longleftrightarrow>
     st_active s = st_active t \<and> st_linger_after_streams_finish s = st_linger_after_streams_finish t \<and>
     st_sender s = st_sender t \<and> st_receiver s = st_receiver t"

text \<open>\<open>std::to_string\<close> of a bool prints the number it converts to.\<close>

definition bool_to_string :: "bool \<Rightarrow> string" where
  "bool_to_string b = (if b then ''1'' else ''0'')"

definition TCPState_name :: "TCPState \<Rightarrow> string" where
  "TCPState_name s =
     ''sender=`'' @ st_sender s @ ''`, receiver=`'' @ st_receiver s @ ''`, active='' @ bool_to_string (st_active s) @
     '', linger_after_streams_finish='' @ bool_to_string (st_linger_after_streams_finish s)"

definition TCPState_default :: TCPState where
  "TCPState_default = \<lparr>st_sender = [], st_receiver = [], st_active = True, st_linger_after_streams_finish = True\<rparr>"

fun TCPState_of_State :: "State \<Rightarrow> TCPState" where
  "TCPState_of_State LISTEN =
     TCPState_default\<lparr>st_receiver := receiver_LISTEN, st_sender := sender_CLOSED\<rparr>"
| "TCPState_of_State SYN_RCVD =
     TCPState_default\<lparr>st_receiver := receiver_SYN_RECV, st_sender := sender_SYN_SENT\<rparr>"
| "TCPState_of_State SYN_SENT =
     TCPState_default\<lparr>st_receiver := receiver_LISTEN, st_sender := sender_SYN_SENT\<rparr>"
| "TCPState_of_State ESTABLISHED =
     TCPState_default\<lparr>st_receiver := receiver_SYN_RECV, st_sender := sender_SYN_ACKED\<rparr>"
| "TCPState_of_State CLOSE_WAIT =
     TCPState_default\<lparr>st_receiver := receiver_FIN_RECV, st_sender := sender_SYN_ACKED,
       st_linger_after_streams_finish := False\<rparr>"
| "TCPState_of_State LAST_ACK =
     TCPState_default\<lparr>st_receiver := receiver_FIN_RECV, st_sender := sender_FIN_SENT,
       st_linger_after_streams_finish := False\<rparr>"
| "TCPState_of_State CLOSING =
     TCPState_default\<lparr>st_receiver := receiver_FIN_RECV, st_sender := sender_FIN_SENT\<rparr>"
| "TCPState_of_State FIN_WAIT_1 =
     TCPState_default\<lparr>st_receiver := receiver_SYN_RECV, st_sender := sender_FIN_SENT\<rparr>"
| "TCPState_of_State FIN_WAIT_2 =
     TCPState_default\<lparr>st_receiver := receiver_SYN_RECV, st_sender := sender_FIN_ACKED\<rparr>"
| "TCPState_of_State TIME_WAIT =
     TCPState_default\<lparr>st_receiver := receiver_FIN_RECV, st_sender := sender_FIN_ACKED\<rparr>"
| "TCPState_of_State RESET =
     TCPState_default\<lparr>st_receiver := receiver_ERROR, st_sender := sender_ERROR,
       st_linger_after_streams_finish := False, st_active := False\<rparr>"
| "TCPState_of_State CLOSED =
     TCPState_default\<lparr>st_receiver := receiver_FIN_RECV, st_sender := sender_FIN_ACKED,
       st_linger_after_streams_finish := False, st_active := False\<rparr>"

definition receiver_state_summary :: "TCPReceiver \<Rightarrow> string" where
  "receiver_state_summary receiver =
     (if bs_error (TCPReceiver_stream_out receiver) then receiver_ERROR
      else if TCPReceiver_ackno receiver = None then receiver_LISTEN
      else if bs_input_ended (TCPReceiver_stream_out receiver) then receiver_FIN_RECV
      else receiver_SYN_RECV)"

definition sender_state_summary :: "TCPSender \<Rightarrow> string" where
  "sender_state_summary sender =
     (if bs_error (ts_stream sender) then sender_ERROR
      else if ts_next_seqno sender = 0 then sender_CLOSED
      else if ts_next_seqno sender = TCPSender_bytes_in_flight sender then sender_SYN_SENT
      else if \<not> ByteStream_eof (ts_stream sender) then sender_SYN_ACKED
      else if ts_next_seqno sender < u64_add (bs_bytes_written (ts_stream sender)) 2 then sender_SYN_ACKED
      else if TCPSender_bytes_in_flight sender \<noteq> 0 then sender_FIN_SENT
      else sender_FIN_ACKED)"

definition TCPState_of_connection :: "TCPSender \<Rightarrow> TCPReceiver \<Rightarrow> bool \<Rightarrow> bool \<Rightarrow> TCPState" where
  "TCPState_of_connection sender receiver active linger =
     \<lparr>st_sender = sender_state_summary sender, st_receiver = receiver_state_summary receiver, st_active = active,
      st_linger_after_streams_finish = (if active then linger else False)\<rparr>"

section \<open>What the summaries mean\<close>

lemmas summary_defs = receiver_ERROR_def receiver_LISTEN_def receiver_SYN_RECV_def receiver_FIN_RECV_def
  sender_ERROR_def sender_CLOSED_def sender_SYN_SENT_def sender_SYN_ACKED_def sender_FIN_SENT_def sender_FIN_ACKED_def

lemma receiver_summary_distinct [simp]:
  "receiver_LISTEN \<noteq> receiver_ERROR" "receiver_SYN_RECV \<noteq> receiver_ERROR" "receiver_FIN_RECV \<noteq> receiver_ERROR"
  "receiver_ERROR \<noteq> receiver_LISTEN" "receiver_SYN_RECV \<noteq> receiver_LISTEN" "receiver_FIN_RECV \<noteq> receiver_LISTEN"
  "receiver_ERROR \<noteq> receiver_SYN_RECV" "receiver_LISTEN \<noteq> receiver_SYN_RECV" "receiver_FIN_RECV \<noteq> receiver_SYN_RECV"
  "receiver_ERROR \<noteq> receiver_FIN_RECV" "receiver_LISTEN \<noteq> receiver_FIN_RECV" "receiver_SYN_RECV \<noteq> receiver_FIN_RECV"
  by (simp_all add: summary_defs)

lemma sender_summary_distinct [simp]:
  "distinct [sender_ERROR, sender_CLOSED, sender_SYN_SENT, sender_SYN_ACKED, sender_FIN_SENT, sender_FIN_ACKED]"
  by (simp add: summary_defs)

lemma receiver_summary_iff:
  "receiver_state_summary r = receiver_ERROR \<longleftrightarrow> bs_error (TCPReceiver_stream_out r)"
  "receiver_state_summary r = receiver_LISTEN \<longleftrightarrow> \<not> bs_error (TCPReceiver_stream_out r) \<and> \<not> rv_syn_flag r"
  "receiver_state_summary r = receiver_FIN_RECV \<longleftrightarrow>
     \<not> bs_error (TCPReceiver_stream_out r) \<and> rv_syn_flag r \<and> bs_input_ended (TCPReceiver_stream_out r)"
  "receiver_state_summary r = receiver_SYN_RECV \<longleftrightarrow>
     \<not> bs_error (TCPReceiver_stream_out r) \<and> rv_syn_flag r \<and> \<not> bs_input_ended (TCPReceiver_stream_out r)"
  by (auto simp: receiver_state_summary_def TCPReceiver_ackno_def Let_def)

lemma sender_summary_cases:
  assumes inv: "ts_inv S W s"
  shows "sender_state_summary s =
    (if bs_error (ts_stream s) then sender_ERROR
     else if \<not> ts_syn_flag s then sender_CLOSED
     else if ts_una s = 0 then sender_SYN_SENT
     else if \<not> ts_fin_flag s then sender_SYN_ACKED
     else if ts_una s < ts_next_seqno s then sender_FIN_SENT
     else sender_FIN_ACKED)"
proof -
  have nx: "ts_next_seqno s = (if ts_syn_flag s then 1 else 0) + bs_bytes_read (ts_stream s) + (if ts_fin_flag s then 1 else 0)"
    and syn: "\<not> ts_syn_flag s \<Longrightarrow> bs_bytes_read (ts_stream s) = 0 \<and> \<not> ts_fin_flag s"
    and fin: "ts_fin_flag s \<Longrightarrow> bs_input_ended (ts_stream s) \<and> bs_bytes_read (ts_stream s) = length W"
    and out: "ts_outgoing_bytes s \<le> ts_next_seqno s"
    and hold: "bs_holds (ts_stream s) W (bs_bytes_read (ts_stream s))" "prefix W S" "length S + 2 < 2 ^ 62"
    using inv unfolding ts_inv_def by blast+
  have len: "length W \<le> length S" using hold(2) by (rule prefix_length_le)
  have wr: "bs_bytes_written (ts_stream s) = length W" "bs_buffer (ts_stream s) = drop (bs_bytes_read (ts_stream s)) W"
    "bs_bytes_read (ts_stream s) \<le> length W"
    using hold len by (simp_all add: bs_holds_def u64_def W64_def)
  have w2: "u64_add (bs_bytes_written (ts_stream s)) 2 = length W + 2"
    using wr(1) len hold(3) by (simp add: u64_add_def W64_def)
  have eof: "ByteStream_eof (ts_stream s) \<longleftrightarrow> bs_input_ended (ts_stream s) \<and> length W \<le> bs_bytes_read (ts_stream s)"
    by (auto simp: ByteStream_eof_def ByteStream_buffer_empty_def wr(2))
  have una: "ts_una s = ts_next_seqno s - ts_outgoing_bytes s" by (simp add: ts_una_def)
  have zero: "ts_next_seqno s = 0 \<longleftrightarrow> \<not> ts_syn_flag s" using nx syn by auto
  have sent: "ts_next_seqno s = ts_outgoing_bytes s \<longleftrightarrow> ts_una s = 0" using una out by linarith
  have fl: "ByteStream_eof (ts_stream s) \<and> \<not> ts_next_seqno s < length W + 2 \<longleftrightarrow> ts_fin_flag s"
    using nx syn fin eof wr(3) by auto
  show ?thesis
    unfolding sender_state_summary_def TCPSender_bytes_in_flight_def zero sent w2
    using fl una out by auto
qed

lemma sender_summary_neq [simp]:
  "sender_CLOSED \<noteq> sender_ERROR" "sender_SYN_SENT \<noteq> sender_ERROR" "sender_SYN_ACKED \<noteq> sender_ERROR"
  "sender_FIN_SENT \<noteq> sender_ERROR" "sender_FIN_ACKED \<noteq> sender_ERROR" "sender_SYN_SENT \<noteq> sender_CLOSED"
  "sender_SYN_ACKED \<noteq> sender_CLOSED" "sender_FIN_SENT \<noteq> sender_CLOSED" "sender_FIN_ACKED \<noteq> sender_CLOSED"
  "sender_SYN_ACKED \<noteq> sender_SYN_SENT" "sender_FIN_SENT \<noteq> sender_SYN_SENT" "sender_FIN_ACKED \<noteq> sender_SYN_SENT"
  "sender_FIN_SENT \<noteq> sender_SYN_ACKED" "sender_FIN_ACKED \<noteq> sender_SYN_ACKED" "sender_FIN_ACKED \<noteq> sender_FIN_SENT"
  using sender_summary_distinct by auto

lemma sender_summary_iff:
  assumes "ts_inv S W s"
  shows "sender_state_summary s = sender_CLOSED \<longleftrightarrow> \<not> bs_error (ts_stream s) \<and> \<not> ts_syn_flag s"
    "sender_state_summary s = sender_SYN_ACKED \<longleftrightarrow> \<not> bs_error (ts_stream s) \<and> ts_syn_flag s \<and> 0 < ts_una s \<and> \<not> ts_fin_flag s"
    "sender_state_summary s = sender_FIN_ACKED \<longleftrightarrow> \<not> bs_error (ts_stream s) \<and> ts_fin_flag s \<and> ts_una s = length S + 2"
proof -
  have fin: "ts_next_seqno s = length S + 2" "ts_syn_flag s" if "ts_fin_flag s"
    using assms that unfolding ts_inv_def by auto
  have le: "ts_una s \<le> ts_next_seqno s" by (simp add: ts_una_def)
  show "sender_state_summary s = sender_CLOSED \<longleftrightarrow> \<not> bs_error (ts_stream s) \<and> \<not> ts_syn_flag s"
    "sender_state_summary s = sender_SYN_ACKED \<longleftrightarrow> \<not> bs_error (ts_stream s) \<and> ts_syn_flag s \<and> 0 < ts_una s \<and> \<not> ts_fin_flag s"
    unfolding sender_summary_cases [OF assms] by (auto simp: sender_summary_neq [symmetric])
  show "sender_state_summary s = sender_FIN_ACKED \<longleftrightarrow> \<not> bs_error (ts_stream s) \<and> ts_fin_flag s \<and> ts_una s = length S + 2"
    unfolding sender_summary_cases [OF assms] using fin le by (auto simp: sender_summary_neq [symmetric])
qed

section \<open>Properties\<close>

text \<open>C23: the summary strings are an exact abstraction of the state of the sender and the receiver: with
  \<open>una\<close> the oldest unacknowledged number, the sender is closed before its SYN, has sent it while nothing
  is acknowledged, is ongoing until its FIN is sent, and is fully acknowledged exactly when \<open>una\<close> is
  behind the FIN, two more than the length of the whole stream; the receiver waits until a SYN and
  has received the FIN when its stream has ended; a stream with its error flag set hides the rest.\<close>

theorem TCPState_summaries_exact:
  assumes "ts_inv S W s"
  shows "sender_state_summary s =
      (if bs_error (ts_stream s) then sender_ERROR
       else if \<not> ts_syn_flag s then sender_CLOSED
       else if ts_una s = 0 then sender_SYN_SENT
       else if \<not> ts_fin_flag s then sender_SYN_ACKED
       else if ts_una s < length S + 2 then sender_FIN_SENT
       else sender_FIN_ACKED) \<and>
    receiver_state_summary r =
      (if bs_error (TCPReceiver_stream_out r) then receiver_ERROR
       else if \<not> rv_syn_flag r then receiver_LISTEN
       else if bs_input_ended (TCPReceiver_stream_out r) then receiver_FIN_RECV
       else receiver_SYN_RECV)"
proof -
  have "ts_next_seqno s = length S + 2" if "ts_fin_flag s"
    using assms that unfolding ts_inv_def by auto
  then show ?thesis
    unfolding sender_summary_cases [OF assms] by (auto simp: receiver_state_summary_def TCPReceiver_ackno_def Let_def)
qed

theorem TCPState_summaries_exact_witness:
  "sender_state_summary (TCPSender_fill_window (TCPSender_new 10 1000 (Some 0) 0)) = sender_SYN_SENT \<and>
   receiver_state_summary (TCPReceiver_new 10) = receiver_LISTEN"
proof -
  let ?new = "TCPSender_new 10 1000 (Some 0) 0" and ?s = "TCPSender_fill_window (TCPSender_new 10 1000 (Some 0) 0)"
  have "ts_inv [] [] ?new" by (intro inv_intros) (simp_all add: W64_def)
  from TCPSender_fill_window_spec(1) [OF this] have inv: "ts_inv [] [] ?s" .
  have st: "\<not> bs_error (ts_stream ?s)" "ts_syn_flag ?s" "ts_una ?s = 0"
    by (simp_all add: ts_una_def sender_eval ByteStream_defs Let_def eval_simps del: eval_del)
  have rv: "\<not> bs_error (TCPReceiver_stream_out (TCPReceiver_new 10))" "\<not> rv_syn_flag (TCPReceiver_new 10)"
    by (simp_all add: TCPReceiver_new_def StreamReassembler_new_def ByteStream_new_def)
  show ?thesis using TCPState_summaries_exact [OF inv, of "TCPReceiver_new 10"] st rv by simp
qed

end
