(* ===== verification/TCP_Connection.thy ===== *)
theory TCP_Connection
  imports TCP_State
begin

text \<open>
  A TCP connection: \<open>src/libsponge/tcp_connection.hh\<close> and \<open>tcp_connection.cc\<close>.

  A connection couples a sender and a receiver.  The calls that process a segment and the time return
  a result, because the receiver and the timer of the sender can fail.  The invariant \<open>tc_inv\<close>
  relates a connection to two ghost streams: the one its application writes (of which the bytes
  \<open>W\<close> are written so far) and the one the peer sends (of which \<open>n\<close> bytes were read).
\<close>

section \<open>The class\<close>

record TCPConfig =
  cfg_rt_timeout :: "16 word"
  cfg_recv_capacity :: nat
  cfg_send_capacity :: nat
  cfg_fixed_isn :: "WrappingInt32 option"


record TCPConnection =
  tc_cfg :: TCPConfig
  tc_receiver :: TCPReceiver
  tc_sender :: TCPSender
  tc_segments_out :: "TCPSegment list"
  tc_linger_after_streams_finish :: bool
  tc_is_active :: bool
  tc_time_since_last_segment_received_ms :: nat

text \<open>The random number the sender may take its first sequence number from is an argument.\<close>

definition TCPConnection_new :: "TCPConfig \<Rightarrow> 32 word \<Rightarrow> TCPConnection" where
  "TCPConnection_new cfg random =
     \<lparr>tc_cfg = cfg, tc_receiver = TCPReceiver_new (cfg_recv_capacity cfg),
      tc_sender = TCPSender_new (cfg_send_capacity cfg) (cfg_rt_timeout cfg) (cfg_fixed_isn cfg) random,
      tc_segments_out = [], tc_linger_after_streams_finish = True, tc_is_active = True,
      tc_time_since_last_segment_received_ms = 0\<rparr>"

definition TCPConnection_remaining_outbound_capacity :: "TCPConnection \<Rightarrow> nat" where
  "TCPConnection_remaining_outbound_capacity c = ByteStream_remaining_capacity (ts_stream (tc_sender c))"

definition TCPConnection_bytes_in_flight :: "TCPConnection \<Rightarrow> nat" where
  "TCPConnection_bytes_in_flight c = TCPSender_bytes_in_flight (tc_sender c)"

definition TCPConnection_unassembled_bytes :: "TCPConnection \<Rightarrow> nat" where
  "TCPConnection_unassembled_bytes c = TCPReceiver_unassembled_bytes (tc_receiver c)"

definition TCPConnection_state :: "TCPConnection \<Rightarrow> TCPState" where
  "TCPConnection_state c =
     TCPState_of_connection (tc_sender c) (tc_receiver c) (tc_is_active c) (tc_linger_after_streams_finish c)"

abbreviation TCPConnection_inbound_stream :: "TCPConnection \<Rightarrow> ByteStream" where
  "TCPConnection_inbound_stream c \<equiv> TCPReceiver_stream_out (tc_receiver c)"

definition set_receiver_error :: "TCPReceiver \<Rightarrow> TCPReceiver" where
  "set_receiver_error r =
     r\<lparr>rv_reassembler := (rv_reassembler r)\<lparr>sr_output := ByteStream_set_error (TCPReceiver_stream_out r)\<rparr>\<rparr>"

definition set_sender_error :: "TCPSender \<Rightarrow> TCPSender" where
  "set_sender_error s = s\<lparr>ts_stream := ByteStream_set_error (ts_stream s)\<rparr>"

definition set_rst_state :: "TCPConnection \<Rightarrow> bool \<Rightarrow> TCPConnection" where
  "set_rst_state c send_rst =
     (let rst = TCPSegment_default\<lparr>seg_header := TCPHeader_default\<lparr>th_rst := True\<rparr>\<rparr>;
          c = (if send_rst then c\<lparr>tc_segments_out := tc_segments_out c @ [rst]\<rparr> else c)
      in c\<lparr>tc_receiver := set_receiver_error (tc_receiver c), tc_sender := set_sender_error (tc_sender c),
           tc_linger_after_streams_finish := False, tc_is_active := False\<rparr>)"

text \<open>The body of the loop of \<open>flush_segments_with_ack\<close>: \<open>window_size\<close> is cut to the 16 bits of the
  field.\<close>

definition stamp_ack :: "TCPReceiver \<Rightarrow> TCPSegment \<Rightarrow> TCPSegment" where
  "stamp_ack receiver outgoing_segment =
     (case TCPReceiver_ackno receiver of
        None \<Rightarrow> outgoing_segment
      | Some ack_number \<Rightarrow>
          outgoing_segment\<lparr>seg_header := (seg_header outgoing_segment)
            \<lparr>th_ack := True, th_ackno := ack_number, th_win := of_nat (TCPReceiver_window_size receiver)\<rparr>\<rparr>)"

definition flush_segments_with_ack :: "TCPConnection \<Rightarrow> TCPConnection" where
  "flush_segments_with_ack c =
     c\<lparr>tc_segments_out := tc_segments_out c @ map (stamp_ack (tc_receiver c)) (ts_segments_out (tc_sender c)),
       tc_sender := (tc_sender c)\<lparr>ts_segments_out := []\<rparr>\<rparr>"

definition TCPConnection_connect :: "TCPConnection \<Rightarrow> TCPConnection" where
  "TCPConnection_connect c = flush_segments_with_ack (c\<lparr>tc_sender := TCPSender_fill_window (tc_sender c)\<rparr>)"

definition TCPConnection_write :: "TCPConnection \<Rightarrow> bytes \<Rightarrow> nat \<times> TCPConnection" where
  "TCPConnection_write c data =
     (let (bytes_written, sender) = TCPSender_write (tc_sender c) data
      in (bytes_written, TCPConnection_connect (c\<lparr>tc_sender := sender\<rparr>)))"

definition TCPConnection_end_input_stream :: "TCPConnection \<Rightarrow> TCPConnection" where
  "TCPConnection_end_input_stream c =
     flush_segments_with_ack (c\<lparr>tc_sender := TCPSender_fill_window (TCPSender_end_input (tc_sender c))\<rparr>)"

text \<open>What \<open>segment_received\<close> does once the segment and its acknowledgment have been processed.\<close>

definition segment_received_reply :: "TCPConnection \<Rightarrow> bool \<Rightarrow> TCPConnection" where
  "segment_received_reply c need_send_ack =
     (if receiver_state_summary (tc_receiver c) = receiver_SYN_RECV \<and>
         sender_state_summary (tc_sender c) = sender_CLOSED
      then (TCPConnection_connect c)\<lparr>tc_is_active := True\<rparr>
      else
        let c = (if receiver_state_summary (tc_receiver c) = receiver_FIN_RECV \<and>
                    sender_state_summary (tc_sender c) = sender_SYN_ACKED
                 then c\<lparr>tc_linger_after_streams_finish := False\<rparr> else c)
        in if receiver_state_summary (tc_receiver c) = receiver_FIN_RECV \<and>
              sender_state_summary (tc_sender c) = sender_FIN_ACKED \<and> \<not> tc_linger_after_streams_finish c
           then c\<lparr>tc_is_active := False\<rparr>
           else
             let c = (if need_send_ack then c\<lparr>tc_sender := TCPSender_send_empty_segment (tc_sender c)\<rparr> else c)
             in flush_segments_with_ack c)"

definition TCPConnection_segment_received :: "TCPConnection \<Rightarrow> TCPSegment \<Rightarrow> TCPConnection result" where
  "TCPConnection_segment_received c seg =
     bind_result (TCPReceiver_segment_received (tc_receiver c) seg) (\<lambda>receiver.
       let c = c\<lparr>tc_time_since_last_segment_received_ms := 0, tc_receiver := receiver\<rparr>;
           need_send_ack = (length_in_sequence_space seg \<noteq> 0);
           header = seg_header seg
       in if th_rst header then Inr (set_rst_state c False)
          else if th_ack header then
            let c = c\<lparr>tc_sender := TCPSender_ack_received (tc_sender c) (th_ackno header) (th_win header)\<rparr>
            in Inr (segment_received_reply c (need_send_ack \<and> ts_segments_out (tc_sender c) = []))
          else Inr (segment_received_reply c need_send_ack))"

definition TCPConnection_tick :: "TCPConnection \<Rightarrow> nat \<Rightarrow> TCPConnection result" where
  "TCPConnection_tick c ms_since_last_tick =
     bind_result (TCPSender_tick (tc_sender c) ms_since_last_tick) (\<lambda>sender.
       if TCPSender_consecutive_retransmissions sender > MAX_RETX_ATTEMPTS
       then Inr (set_rst_state (c\<lparr>tc_sender := sender\<lparr>ts_segments_out := tl (ts_segments_out sender)\<rparr>\<rparr>) True)
       else
         let c = flush_segments_with_ack (c\<lparr>tc_sender := sender\<rparr>);
             c = c\<lparr>tc_time_since_last_segment_received_ms :=
                    u64_add (tc_time_since_last_segment_received_ms c) ms_since_last_tick\<rparr>
         in if receiver_state_summary (tc_receiver c) = receiver_FIN_RECV \<and>
               sender_state_summary (tc_sender c) = sender_FIN_ACKED \<and> tc_linger_after_streams_finish c \<and>
               tc_time_since_last_segment_received_ms c \<ge> 10 * unat (cfg_rt_timeout (tc_cfg c))
            then Inr (c\<lparr>tc_is_active := False, tc_linger_after_streams_finish := False\<rparr>)
            else Inr c)"

definition TCPConnection_destroy :: "TCPConnection \<Rightarrow> TCPConnection" where
  "TCPConnection_destroy c = (if tc_is_active c then set_rst_state c False else c)"

section \<open>What the sender leaves to the connection\<close>

text \<open>The segments of a sender carry neither an acknowledgment nor a reset.\<close>

definition ts_plain :: "TCPSender \<Rightarrow> bool" where
  "ts_plain s \<longleftrightarrow> (\<forall>seg \<in> set (ts_segments_out s) \<union> snd ` set (ts_outgoing_map s).
     \<not> th_ack (seg_header seg) \<and> \<not> th_rst (seg_header seg))"

lemma fill_window_segment_plain:
  assumes "fill_window_segment w s = (seg, s1)"
  shows "\<not> th_ack (seg_header seg)" "\<not> th_rst (seg_header seg)" "ts_segments_out s1 = ts_segments_out s"
    "ts_outgoing_map s1 = ts_outgoing_map s" "bs_error (ts_stream s1) = bs_error (ts_stream s)"
proof -
  have s: "seg = fst (fill_window_segment w s)" "s1 = snd (fill_window_segment w s)" using assms by simp_all
  show "\<not> th_ack (seg_header seg)" "\<not> th_rst (seg_header seg)" "ts_segments_out s1 = ts_segments_out s"
    "ts_outgoing_map s1 = ts_outgoing_map s" "bs_error (ts_stream s1) = bs_error (ts_stream s)"
    unfolding s
    by (simp_all add: fill_window_segment_def Let_def TCPHeader_default_def ByteStream_read_def ByteStream_pop_output_def
        split_beta)
qed

lemma fill_window_send_plain:
  assumes "ts_plain s" "\<not> th_ack (seg_header seg)" "\<not> th_rst (seg_header seg)"
  shows "ts_plain (fill_window_send s seg)"
  using assms set_om_insert [of "ts_next_seqno s" seg "ts_outgoing_map s"]
  by (fastforce simp: ts_plain_def fill_window_send_def Let_def)

lemma fill_window_loop_plain:
  "bs_error (ts_stream (fill_window_loop w s)) = bs_error (ts_stream s) \<and>
   (ts_plain s \<longrightarrow> ts_plain (fill_window_loop w s))"
proof (induction w s rule: fill_window_loop.induct)
  case (1 w s)
  obtain seg s1 where seg: "fill_window_segment w s = (seg, s1)" by (cases "fill_window_segment w s")
  note pl = fill_window_segment_plain [OF seg]
  have s1: "ts_plain s1 = ts_plain s" by (simp add: ts_plain_def pl)
  show ?case
    using 1 [OF _ seg [symmetric] refl _ refl] fill_window_send_plain [OF _ pl(1,2), of s1] seg s1 pl(5)
    by (simp add: fill_window_loop.simps [of w s] Let_def)
qed

lemma TCPSender_fill_window_plain:
  "bs_error (ts_stream (TCPSender_fill_window s)) = bs_error (ts_stream s)"
  "ts_plain s \<Longrightarrow> ts_plain (TCPSender_fill_window s)"
  by (simp_all add: TCPSender_fill_window_def fill_window_loop_plain)

lemma ack_erase_subset: "ack_erase ack m bytes = (m', bytes', e) \<Longrightarrow> set m' \<subseteq> set m"
  by (induction ack m bytes arbitrary: e rule: ack_erase.induct) (fastforce split: if_splits prod.splits)+

lemma TCPSender_ack_received_plain:
  "bs_error (ts_stream (TCPSender_ack_received s ackno win)) = bs_error (ts_stream s)"
  "ts_plain s \<Longrightarrow> ts_plain (TCPSender_ack_received s ackno win)"
proof -
  let ?ack = "unwrap ackno (ts_isn s) (ts_next_seqno s)"
  obtain m bytes e where er: "ack_erase ?ack (ts_outgoing_map s) (ts_outgoing_bytes s) = (m, bytes, e)"
    by (cases "ack_erase ?ack (ts_outgoing_map s) (ts_outgoing_bytes s)")
  have a: "bs_error (ts_stream (ack_applied s ?ack win)) = bs_error (ts_stream s)"
    "ts_plain s \<Longrightarrow> ts_plain (ack_applied s ?ack win)"
    using ack_erase_subset [OF er] by (auto simp: ack_applied_def er Let_def ts_plain_def)
  then show "bs_error (ts_stream (TCPSender_ack_received s ackno win)) = bs_error (ts_stream s)"
    "ts_plain s \<Longrightarrow> ts_plain (TCPSender_ack_received s ackno win)"
    by (simp_all add: TCPSender_ack_received_eq TCPSender_fill_window_plain Let_def)
qed

lemma TCPSender_tick_plain:
  assumes "ts_plain s" "TCPSender_tick s ms = Inr s'"
  shows "ts_plain s'"
proof -
  have m: "ts_outgoing_map s' = ts_outgoing_map s"
    using assms(2) by (auto simp: TCPSender_tick_def Let_def split: list.splits if_splits)
  have "seg \<in> set (ts_segments_out s) \<or> (\<exists>k m. (k, seg) # m = ts_outgoing_map s)"
    if "seg \<in> set (ts_segments_out s')" for seg
    using assms(2) that by (auto simp: TCPSender_tick_def Let_def split: list.splits if_splits)
  then have "seg \<in> set (ts_segments_out s) \<union> snd ` set (ts_outgoing_map s)" if "seg \<in> set (ts_segments_out s')" for seg
    using that by (metis UnI1 UnI2 image_eqI list.set_intros(1) snd_conv)
  then show ?thesis using assms(1) unfolding ts_plain_def m by blast
qed

lemma TCPSender_plain_rest:
  "ts_plain (TCPSender_new capacity rt fixed_isn rnd)"
  "ts_plain s \<Longrightarrow> ts_plain (TCPSender_send_empty_segment s)"
  "ts_plain s \<Longrightarrow> ts_plain (s\<lparr>ts_stream := st\<rparr>)"
  "ts_plain s \<Longrightarrow> set segs \<subseteq> set (ts_segments_out s) \<Longrightarrow> ts_plain (s\<lparr>ts_segments_out := segs\<rparr>)"
  by (auto simp: ts_plain_def TCPSender_new_def TCPSender_send_empty_segment_def TCPHeader_default_def)

text \<open>Taking segments from the queue keeps the invariant.\<close>

lemma ts_inv_dequeue:
  assumes "ts_inv S W s" "set segs \<subseteq> set (ts_segments_out s)"
  shows "ts_inv S W (s\<lparr>ts_segments_out := segs\<rparr>)" "ts_una (s\<lparr>ts_segments_out := segs\<rparr>) = ts_una s"
proof -
  let ?s = "s\<lparr>ts_segments_out := segs\<rparr>"
  have frame: "ts_stream ?s = ts_stream s" "ts_outgoing_map ?s = ts_outgoing_map s" "ts_outgoing_bytes ?s = ts_outgoing_bytes s"
    "ts_isn ?s = ts_isn s" "ts_next_seqno ?s = ts_next_seqno s" "ts_syn_flag ?s = ts_syn_flag s"
    "ts_fin_flag ?s = ts_fin_flag s" "ts_last_window_size ?s = ts_last_window_size s" "ts_segments_out ?s = segs"
    by simp_all
  show "ts_una ?s = ts_una s" by (simp add: ts_una_def)
  show "ts_inv S W ?s" using assms unfolding ts_inv_def ts_una_def frame by blast
qed

lemma ts_inv_set_error:
  assumes "ts_inv S W s"
  shows "ts_inv S W (set_sender_error s)" "ts_una (set_sender_error s) = ts_una s"
proof -
  let ?s = "set_sender_error s"
  have frame: "ts_stream ?s = ByteStream_set_error (ts_stream s)" "ts_outgoing_map ?s = ts_outgoing_map s"
    "ts_outgoing_bytes ?s = ts_outgoing_bytes s" "ts_isn ?s = ts_isn s" "ts_next_seqno ?s = ts_next_seqno s"
    "ts_syn_flag ?s = ts_syn_flag s" "ts_fin_flag ?s = ts_fin_flag s" "ts_last_window_size ?s = ts_last_window_size s"
    "ts_segments_out ?s = ts_segments_out s" "bs_bytes_read (ByteStream_set_error (ts_stream s)) = bs_bytes_read (ts_stream s)"
    "bs_input_ended (ByteStream_set_error (ts_stream s)) = bs_input_ended (ts_stream s)"
    by (simp_all add: set_sender_error_def ByteStream_set_error_def)
  show "ts_una ?s = ts_una s" by (simp add: ts_una_def frame)
  show "ts_inv S W ?s"
    using assms bs_inv_set_error [of "ts_stream s"] unfolding ts_inv_def ts_una_def frame bs_holds_flags by blast
qed

lemma ts_una_le:
  assumes "ts_inv S W s"
  shows "ts_una s \<le> length S + 2" "ts_next_seqno s \<le> length S + 2" "ts_una s = length S + 2 \<Longrightarrow> ts_fin_flag s"
proof -
  have "ts_next_seqno s \<le> (if ts_fin_flag s then 1 else 0) + 1 + bs_bytes_read (ts_stream s)"
    using assms unfolding ts_inv_def by simp
  moreover have "ts_una s \<le> ts_next_seqno s" by (simp add: ts_una_def)
  ultimately show "ts_una s \<le> length S + 2" "ts_next_seqno s \<le> length S + 2" "ts_una s = length S + 2 \<Longrightarrow> ts_fin_flag s"
    using ts_inv_stream(1,2) [OF assms] by (auto split: if_splits)
qed

section \<open>The invariant of a connection\<close>

text \<open>A segment on the wire from a connection that sends the stream \<open>S\<close> from \<open>isn\<close>, to a peer whose
  numbers start at \<open>isn'\<close>: a part of the stream or a reset, and it acknowledges at most \<open>k\<close>.\<close>

definition wire_ok :: "bytes \<Rightarrow> WrappingInt32 \<Rightarrow> WrappingInt32 \<Rightarrow> nat \<Rightarrow> TCPSegment \<Rightarrow> bool" where
  "wire_ok S isn isn' k seg \<longleftrightarrow>
     ((\<exists>a \<le> length S + 2. seg_ok S isn a seg) \<or>
      (th_rst (seg_header seg) \<and> Buffer_str (seg_payload seg) = [] \<and>
       \<not> th_syn (seg_header seg) \<and> \<not> th_fin (seg_header seg))) \<and>
     (th_ack (seg_header seg) \<longrightarrow> (\<exists>j \<le> k. th_ackno (seg_header seg) = wrap j isn'))"

text \<open>Both streams were reset, or the inbound one has ended and the outbound one is acknowledged
  including its FIN.\<close>

definition tc_done :: "bytes \<Rightarrow> TCPSender \<Rightarrow> TCPReceiver \<Rightarrow> bool" where
  "tc_done S s r \<longleftrightarrow> (bs_error (ts_stream s) \<and> bs_error (TCPReceiver_stream_out r)) \<or>
     (bs_input_ended (TCPReceiver_stream_out r) \<and> ts_una s = length S + 2)"

definition tc_core :: "bytes \<Rightarrow> bytes \<Rightarrow> WrappingInt32 \<Rightarrow> bytes \<Rightarrow> WrappingInt32 \<Rightarrow> nat \<Rightarrow>
    TCPSender \<Rightarrow> TCPReceiver \<Rightarrow> TCPSegment list \<Rightarrow> bool \<Rightarrow> bool" where
  "tc_core S W isn R isn' n s r out act \<longleftrightarrow>
     ts_inv S W s \<and> ts_isn s = isn \<and> ts_plain s \<and> rv_inv R isn' n r \<and>
     (\<forall>seg \<in> set out. wire_ok S isn isn' (rv_ack r) seg) \<and> (act \<or> tc_done S s r)"

definition tc_inv :: "bytes \<Rightarrow> bytes \<Rightarrow> WrappingInt32 \<Rightarrow> bytes \<Rightarrow> WrappingInt32 \<Rightarrow> nat \<Rightarrow> TCPConnection \<Rightarrow> bool" where
  "tc_inv S W isn R isn' n c \<longleftrightarrow>
     tc_core S W isn R isn' n (tc_sender c) (tc_receiver c) (tc_segments_out c) (tc_is_active c)"

lemma wire_ok_mono: "wire_ok S isn isn' k seg \<Longrightarrow> k \<le> k' \<Longrightarrow> wire_ok S isn isn' k' seg"
  unfolding wire_ok_def by (meson order_trans)

lemma wire_ok_same:
  assumes "wire_ok S isn isn' k seg" "same_segment seg seg'"
  shows "wire_ok S isn isn' k seg'"
  using assms(1) unfolding wire_ok_def seg_ok_def Let_def same_segment_fields [OF assms(2)] .

lemma core_sender:
  assumes "tc_core S W isn R isn' n s r out act" "ts_inv S W' s'" "ts_isn s' = ts_isn s" "ts_plain s'"
    "ts_una s \<le> ts_una s'" "bs_error (ts_stream s') = bs_error (ts_stream s)"
  shows "tc_core S W' isn R isn' n s' r out act"
proof -
  have "tc_done S s r \<Longrightarrow> tc_done S s' r"
    using assms(5,6) ts_una_le(1) [OF assms(2)] unfolding tc_done_def by auto
  then show ?thesis using assms(1-4) unfolding tc_core_def by auto
qed

lemma core_receiver:
  assumes "tc_core S W isn R isn' n s r out act" "rv_inv R isn' n' r'" "rv_ack r \<le> rv_ack r'"
    "bs_error (TCPReceiver_stream_out r') = bs_error (TCPReceiver_stream_out r)"
    "bs_input_ended (TCPReceiver_stream_out r) \<Longrightarrow> bs_input_ended (TCPReceiver_stream_out r')"
  shows "tc_core S W isn R isn' n' s r' out act"
  using assms wire_ok_mono [OF _ assms(3)] unfolding tc_core_def tc_done_def by auto

lemma stamp_ack_fields:
  "th_seqno (seg_header (stamp_ack r seg)) = th_seqno (seg_header seg)"
  "th_syn (seg_header (stamp_ack r seg)) = th_syn (seg_header seg)"
  "th_fin (seg_header (stamp_ack r seg)) = th_fin (seg_header seg)"
  "seg_payload (stamp_ack r seg) = seg_payload seg"
  "TCPReceiver_ackno r = Some k \<Longrightarrow> th_ackno (seg_header (stamp_ack r seg)) = k"
  "TCPReceiver_ackno r = None \<Longrightarrow> stamp_ack r seg = seg"
  by (simp_all add: stamp_ack_def split: option.split)

lemma stamp_ack_ok:
  assumes inv: "rv_inv R isn' n r" and seg: "seg_ok S isn a seg" "a \<le> length S + 2" "\<not> th_ack (seg_header seg)"
  shows "wire_ok S isn isn' (rv_ack r) (stamp_ack r seg)"
proof -
  have "seg_ok S isn a (stamp_ack r seg)" using seg(1) unfolding seg_ok_def Let_def stamp_ack_fields .
  moreover have "th_ackno (seg_header (stamp_ack r seg)) = wrap (rv_ack r) isn'" if "th_ack (seg_header (stamp_ack r seg))"
    using rv_ack_eq [OF inv] stamp_ack_fields(5) [of r _ seg] stamp_ack_fields(6) [of r seg] that seg(3) by (cases "rv_syn_flag r") auto
  ultimately show ?thesis using seg(2) unfolding wire_ok_def by blast
qed

lemma core_flush:
  assumes "tc_core S W isn R isn' n s r out act"
  shows "tc_core S W isn R isn' n (s\<lparr>ts_segments_out := []\<rparr>) r (out @ map (stamp_ack r) (ts_segments_out s)) act"
proof -
  have inv: "ts_inv S W s" "ts_isn s = isn" "ts_plain s" "rv_inv R isn' n r" "\<forall>seg \<in> set out. wire_ok S isn isn' (rv_ack r) seg"
    using assms by (simp_all add: tc_core_def)
  have "wire_ok S isn isn' (rv_ack r) (stamp_ack r seg)" if seg: "seg \<in> set (ts_segments_out s)" for seg
  proof -
    obtain a where "a \<le> ts_next_seqno s" "seg_ok S isn a seg" using inv(1,2) seg unfolding ts_inv_def by blast
    moreover have "\<not> th_ack (seg_header seg)" using inv(3) seg unfolding ts_plain_def by blast
    ultimately show ?thesis using stamp_ack_ok [OF inv(4)] ts_una_le(2) [OF inv(1)] by auto
  qed
  then have "\<forall>seg \<in> set (out @ map (stamp_ack r) (ts_segments_out s)). wire_ok S isn isn' (rv_ack r) seg"
    using inv(5) by auto
  moreover have "tc_core S W isn R isn' n (s\<lparr>ts_segments_out := []\<rparr>) r out act"
    using core_sender [OF assms ts_inv_dequeue(1) [OF inv(1)]] ts_inv_dequeue(2) [OF inv(1)] TCPSender_plain_rest(4) [OF inv(3)]
    by simp
  ultimately show ?thesis unfolding tc_core_def by blast
qed

lemma core_active: "tc_core S W isn R isn' n s r out act \<Longrightarrow> act \<longrightarrow> act' \<Longrightarrow> tc_core S W isn R isn' n s r out act'"
  unfolding tc_core_def by blast

lemma core_closed:
  "tc_core S W isn R isn' n s r out act \<Longrightarrow> receiver_state_summary r = receiver_FIN_RECV \<Longrightarrow>
   sender_state_summary s = sender_FIN_ACKED \<Longrightarrow> tc_core S W isn R isn' n s r out act'"
  using sender_summary_iff(3) [of S W s] unfolding tc_core_def tc_done_def receiver_summary_iff by blast

lemma rv_ack_set_error [simp]: "rv_ack (set_receiver_error r) = rv_ack r"
  by (simp add: rv_ack_def rv_next_def set_receiver_error_def ByteStream_set_error_def)

lemma core_rst:
  assumes "tc_core S W isn R isn' n s r out act"
  shows "tc_core S W isn R isn' n (set_sender_error s) (set_receiver_error r) out act'"
proof -
  have "bs_error (ts_stream (set_sender_error s))" "bs_error (TCPReceiver_stream_out (set_receiver_error r))"
    by (simp_all add: set_sender_error_def set_receiver_error_def ByteStream_set_error_def)
  moreover have "ts_isn (set_sender_error s) = ts_isn s" by (simp add: set_sender_error_def)
  moreover have "ts_plain (set_sender_error s) = ts_plain s" by (simp add: set_sender_error_def ts_plain_def)
  ultimately show ?thesis
    using assms ts_inv_set_error(1) [of S W s] rv_inv_set_error [of R isn' n r, folded set_receiver_error_def]
    unfolding tc_core_def tc_done_def rv_ack_set_error by blast
qed

lemma rst_wire_ok: "wire_ok S isn isn' k (TCPSegment_default\<lparr>seg_header := TCPHeader_default\<lparr>th_rst := True\<rparr>\<rparr>)"
  by (simp add: wire_ok_def TCPSegment_default_def TCPHeader_default_def)

lemma core_segments:
  "tc_core S W isn R isn' n s r out act \<Longrightarrow> \<forall>seg \<in> set out' - set out. wire_ok S isn isn' (rv_ack r) seg \<Longrightarrow>
   tc_core S W isn R isn' n s r out' act"
  unfolding tc_core_def by blast

section \<open>The calls keep the invariant\<close>

lemma tc_inv_sender:
  "tc_inv S W isn R isn' n c \<Longrightarrow> ts_inv S W (tc_sender c)" "tc_inv S W isn R isn' n c \<Longrightarrow> ts_isn (tc_sender c) = isn"
  "tc_inv S W isn R isn' n c \<Longrightarrow> ts_plain (tc_sender c)" "tc_inv S W isn R isn' n c \<Longrightarrow> rv_inv R isn' n (tc_receiver c)"
  by (simp_all add: tc_inv_def tc_core_def)

lemma tc_inv_set_sender:
  assumes "tc_inv S W isn R isn' n c" "ts_inv S W' s'" "ts_isn s' = isn" "ts_plain s'"
    "ts_una (tc_sender c) \<le> ts_una s'" "bs_error (ts_stream s') = bs_error (ts_stream (tc_sender c))"
  shows "tc_inv S W' isn R isn' n (c\<lparr>tc_sender := s'\<rparr>)"
  using core_sender [OF assms(1) [unfolded tc_inv_def] assms(2) _ assms(4-6)] tc_inv_sender(2) [OF assms(1)] assms(3)
  by (simp add: tc_inv_def)

lemma flush_inv:
  assumes "tc_inv S W isn R isn' n c"
  shows "tc_inv S W isn R isn' n (flush_segments_with_ack c)"
    "tc_receiver (flush_segments_with_ack c) = tc_receiver c"
    "ts_una (tc_sender (flush_segments_with_ack c)) = ts_una (tc_sender c)"
    "ts_stream (tc_sender (flush_segments_with_ack c)) = ts_stream (tc_sender c)"
  using core_flush [OF assms [unfolded tc_inv_def]]
  by (simp_all add: tc_inv_def flush_segments_with_ack_def ts_una_def)

lemma fill_window_inv:
  assumes "tc_inv S W isn R isn' n c"
  shows "tc_inv S W isn R isn' n (c\<lparr>tc_sender := TCPSender_fill_window (tc_sender c)\<rparr>)"
    "ts_una (TCPSender_fill_window (tc_sender c)) = ts_una (tc_sender c)"
    "bs_input_ended (ts_stream (TCPSender_fill_window (tc_sender c))) = bs_input_ended (ts_stream (tc_sender c))"
proof -
  note s = tc_inv_sender [OF assms]
  note f = TCPSender_fill_window_spec(1,2) [OF s(1)]
  show una: "ts_una (TCPSender_fill_window (tc_sender c)) = ts_una (tc_sender c)"
    "bs_input_ended (ts_stream (TCPSender_fill_window (tc_sender c))) = bs_input_ended (ts_stream (tc_sender c))"
    using f(2) by (simp_all add: ts_same_def)
  show "tc_inv S W isn R isn' n (c\<lparr>tc_sender := TCPSender_fill_window (tc_sender c)\<rparr>)"
    using f s una(1) TCPSender_fill_window_plain by (intro tc_inv_set_sender [OF assms]) (simp_all add: ts_same_def)
qed

lemma connect_inv:
  assumes "tc_inv S W isn R isn' n c"
  shows "tc_inv S W isn R isn' n (TCPConnection_connect c)" "tc_receiver (TCPConnection_connect c) = tc_receiver c"
    "ts_una (tc_sender (TCPConnection_connect c)) = ts_una (tc_sender c)"
    "bs_input_ended (ts_stream (tc_sender (TCPConnection_connect c))) = bs_input_ended (ts_stream (tc_sender c))"
  using flush_inv [OF fill_window_inv(1) [OF assms]] fill_window_inv(2,3) [OF assms]
  by (simp_all add: TCPConnection_connect_def)

lemma write_inv:
  assumes inv: "tc_inv S W isn R isn' n c" and wr: "TCPConnection_write c data = (k, c')"
    and pre: "prefix (W @ take k data) S" and open_in: "\<not> bs_input_ended (ts_stream (tc_sender c))"
  shows "tc_inv S (W @ take k data) isn R isn' n c'" "tc_receiver c' = tc_receiver c"
    "ts_una (tc_sender c') = ts_una (tc_sender c)" "\<not> bs_input_ended (ts_stream (tc_sender c'))"
proof -
  note s = tc_inv_sender [OF inv]
  obtain s' where w: "TCPSender_write (tc_sender c) data = (k, s')" and c': "c' = TCPConnection_connect (c\<lparr>tc_sender := s'\<rparr>)"
    using wr by (auto simp: TCPConnection_write_def split: prod.splits)
  note w' = TCPSender_write_inv [OF s(1) w pre open_in]
  have s': "s' = (tc_sender c)\<lparr>ts_stream := snd (ByteStream_write (ts_stream (tc_sender c)) data)\<rparr>"
    using w by (simp add: TCPSender_write_def split_beta Let_def)
  have err: "bs_error (ts_stream s') = bs_error (ts_stream (tc_sender c))"
    by (simp add: s' ByteStream_write_def Let_def)
  have una: "ts_una s' = ts_una (tc_sender c)" by (simp add: s' ts_una_def)
  have "ts_plain s'" using TCPSender_plain_rest(3) [OF s(3)] by (simp add: s')
  then have inv': "tc_inv S (W @ take k data) isn R isn' n (c\<lparr>tc_sender := s'\<rparr>)"
    using w'(1,2) s(2) err una by (intro tc_inv_set_sender [OF inv]) simp_all
  show "tc_inv S (W @ take k data) isn R isn' n c'" "tc_receiver c' = tc_receiver c"
    "ts_una (tc_sender c') = ts_una (tc_sender c)" "\<not> bs_input_ended (ts_stream (tc_sender c'))"
    unfolding c' using connect_inv [OF inv'] una w'(3) by simp_all
qed

lemma end_input_stream_inv:
  assumes inv: "tc_inv S S isn R isn' n c"
  shows "tc_inv S S isn R isn' n (TCPConnection_end_input_stream c)"
    "tc_receiver (TCPConnection_end_input_stream c) = tc_receiver c"
    "ts_una (tc_sender (TCPConnection_end_input_stream c)) = ts_una (tc_sender c)"
    "bs_input_ended (ts_stream (tc_sender (TCPConnection_end_input_stream c)))"
proof -
  note s = tc_inv_sender [OF inv]
  let ?s = "TCPSender_end_input (tc_sender c)"
  have f: "ts_isn ?s = isn" "ts_plain ?s" "ts_una ?s = ts_una (tc_sender c)"
    "bs_error (ts_stream ?s) = bs_error (ts_stream (tc_sender c))" "bs_input_ended (ts_stream ?s)"
    using s(2) TCPSender_plain_rest(3) [OF s(3)]
    by (simp_all add: TCPSender_end_input_def ByteStream_end_input_def ts_una_def)
  have inv': "tc_inv S S isn R isn' n (c\<lparr>tc_sender := ?s\<rparr>)"
    using f TCPSender_end_input_inv [OF s(1)] by (intro tc_inv_set_sender [OF inv]) simp_all
  have eq: "TCPConnection_end_input_stream c = TCPConnection_connect (c\<lparr>tc_sender := ?s\<rparr>)"
    by (simp add: TCPConnection_end_input_stream_def TCPConnection_connect_def)
  show "tc_inv S S isn R isn' n (TCPConnection_end_input_stream c)"
    "tc_receiver (TCPConnection_end_input_stream c) = tc_receiver c"
    "ts_una (tc_sender (TCPConnection_end_input_stream c)) = ts_una (tc_sender c)"
    "bs_input_ended (ts_stream (tc_sender (TCPConnection_end_input_stream c)))"
    unfolding eq using connect_inv [OF inv'] f by simp_all
qed

lemma set_rst_state_inv:
  assumes "tc_inv S W isn R isn' n c"
  shows "tc_inv S W isn R isn' n (set_rst_state c send_rst)"
    "ts_una (tc_sender (set_rst_state c send_rst)) = ts_una (tc_sender c)"
    "rv_ack (tc_receiver (set_rst_state c send_rst)) = rv_ack (tc_receiver c)"
    "bs_input_ended (ts_stream (tc_sender (set_rst_state c send_rst))) = bs_input_ended (ts_stream (tc_sender c))"
proof -
  have "\<forall>seg \<in> set (tc_segments_out (set_rst_state c send_rst)) - set (tc_segments_out c).
      wire_ok S isn isn' (rv_ack (set_receiver_error (tc_receiver c))) seg"
    using rst_wire_ok [of S isn isn' "rv_ack (set_receiver_error (tc_receiver c))"]
    by (cases send_rst) (auto simp add: set_rst_state_def Let_def)
  from core_segments [OF core_rst [OF assms [unfolded tc_inv_def]] this, of False]
  show "tc_inv S W isn R isn' n (set_rst_state c send_rst)"
    unfolding tc_inv_def by (cases send_rst) (simp_all add: set_rst_state_def Let_def)
  show "ts_una (tc_sender (set_rst_state c send_rst)) = ts_una (tc_sender c)"
    "rv_ack (tc_receiver (set_rst_state c send_rst)) = rv_ack (tc_receiver c)"
    "bs_input_ended (ts_stream (tc_sender (set_rst_state c send_rst))) = bs_input_ended (ts_stream (tc_sender c))"
    by (simp_all add: set_rst_state_def Let_def ts_una_def set_sender_error_def ByteStream_set_error_def)
qed

lemma send_empty_inv:
  assumes "tc_inv S W isn R isn' n c"
  shows "tc_inv S W isn R isn' n (c\<lparr>tc_sender := TCPSender_send_empty_segment (tc_sender c)\<rparr>)"
    "ts_una (TCPSender_send_empty_segment (tc_sender c)) = ts_una (tc_sender c)"
    "ts_stream (TCPSender_send_empty_segment (tc_sender c)) = ts_stream (tc_sender c)"
proof -
  note s = tc_inv_sender [OF assms]
  show f: "ts_una (TCPSender_send_empty_segment (tc_sender c)) = ts_una (tc_sender c)"
    "ts_stream (TCPSender_send_empty_segment (tc_sender c)) = ts_stream (tc_sender c)"
    by (simp_all add: TCPSender_send_empty_segment_def ts_una_def)
  have "ts_isn (TCPSender_send_empty_segment (tc_sender c)) = isn"
    using s(2) by (simp add: TCPSender_send_empty_segment_def)
  then show "tc_inv S W isn R isn' n (c\<lparr>tc_sender := TCPSender_send_empty_segment (tc_sender c)\<rparr>)"
    using f TCPSender_send_empty_segment_inv [OF s(1)] TCPSender_plain_rest(2) [OF s(3)]
    by (intro tc_inv_set_sender [OF assms]) simp_all
qed

lemma tc_inv_flags:
  "tc_inv S W isn R isn' n (c\<lparr>tc_linger_after_streams_finish := b\<rparr>) = tc_inv S W isn R isn' n c"
  "tc_inv S W isn R isn' n (c\<lparr>tc_time_since_last_segment_received_ms := t\<rparr>) = tc_inv S W isn R isn' n c"
  "tc_inv S W isn R isn' n c \<Longrightarrow> tc_inv S W isn R isn' n (c\<lparr>tc_is_active := True\<rparr>)"
  using core_active [of S W isn R isn' n "tc_sender c" "tc_receiver c" "tc_segments_out c" "tc_is_active c" True]
  by (simp_all add: tc_inv_def)

lemma tc_inv_closed:
  "tc_inv S W isn R isn' n c \<Longrightarrow> receiver_state_summary (tc_receiver c) = receiver_FIN_RECV \<Longrightarrow>
   sender_state_summary (tc_sender c) = sender_FIN_ACKED \<Longrightarrow> tc_inv S W isn R isn' n (c\<lparr>tc_is_active := False\<rparr>)"
  using core_closed [of S W isn R isn' n "tc_sender c" "tc_receiver c" "tc_segments_out c" "tc_is_active c" False]
  by (simp add: tc_inv_def)

lemma reply_inv:
  assumes inv: "tc_inv S W isn R isn' n c"
  shows "tc_inv S W isn R isn' n (segment_received_reply c b) \<and> tc_receiver (segment_received_reply c b) = tc_receiver c \<and>
    ts_una (tc_sender (segment_received_reply c b)) = ts_una (tc_sender c) \<and>
    bs_input_ended (ts_stream (tc_sender (segment_received_reply c b))) = bs_input_ended (ts_stream (tc_sender c))"
proof (cases "receiver_state_summary (tc_receiver c) = receiver_SYN_RECV \<and> sender_state_summary (tc_sender c) = sender_CLOSED")
  case True
  then show ?thesis
    unfolding segment_received_reply_def if_P [OF True] using connect_inv [OF inv] tc_inv_flags(3) by simp
next
  case False
  define c1 where "c1 = (if receiver_state_summary (tc_receiver c) = receiver_FIN_RECV \<and>
      sender_state_summary (tc_sender c) = sender_SYN_ACKED then c\<lparr>tc_linger_after_streams_finish := False\<rparr> else c)"
  have c1: "tc_sender c1 = tc_sender c" "tc_receiver c1 = tc_receiver c" "tc_inv S W isn R isn' n c1"
    using inv by (simp_all add: c1_def tc_inv_flags(1))
  define c2 where "c2 = (if b then c1\<lparr>tc_sender := TCPSender_send_empty_segment (tc_sender c1)\<rparr> else c1)"
  have c2: "tc_receiver c2 = tc_receiver c" "ts_una (tc_sender c2) = ts_una (tc_sender c)"
    "ts_stream (tc_sender c2) = ts_stream (tc_sender c)" "tc_inv S W isn R isn' n c2"
    using send_empty_inv [OF c1(3)] c1 by (simp_all add: c2_def)
  have eq: "segment_received_reply c b =
    (if receiver_state_summary (tc_receiver c1) = receiver_FIN_RECV \<and> sender_state_summary (tc_sender c1) = sender_FIN_ACKED \<and>
        \<not> tc_linger_after_streams_finish c1 then c1\<lparr>tc_is_active := False\<rparr> else flush_segments_with_ack c2)"
    unfolding segment_received_reply_def if_not_P [OF False] c2_def c1_def Let_def by (rule refl)
  show ?thesis
    unfolding eq using c1 c2 flush_inv [OF c2(4)] tc_inv_closed [OF c1(3)] by simp
qed

lemma ack_received_inv:
  assumes "tc_inv S W isn R isn' n c"
  shows "tc_inv S W isn R isn' n (c\<lparr>tc_sender := TCPSender_ack_received (tc_sender c) ackno win\<rparr>)"
    "ts_una (TCPSender_ack_received (tc_sender c) ackno win) \<le>
       max (ts_una (tc_sender c)) (unwrap ackno isn (ts_next_seqno (tc_sender c)))"
proof -
  note s = tc_inv_sender [OF assms]
  note a = TCPSender_ack_received_spec [OF s(1), of ackno win]
  show "tc_inv S W isn R isn' n (c\<lparr>tc_sender := TCPSender_ack_received (tc_sender c) ackno win\<rparr>)"
    using a s(2,3) TCPSender_ack_received_plain by (intro tc_inv_set_sender [OF assms]) simp_all
  let ?ack = "unwrap ackno isn (ts_next_seqno (tc_sender c))"
  show "ts_una (TCPSender_ack_received (tc_sender c) ackno win) \<le> max (ts_una (tc_sender c)) ?ack"
  proof (cases "?ack > ts_next_seqno (tc_sender c)")
    case True
    then show ?thesis using s(2) by (simp add: TCPSender_ack_received_eq)
  next
    case False
    then have le: "?ack \<le> ts_next_seqno (tc_sender c)" by simp
    note ap = ack_applied_spec [OF s(1) le, of win]
    have eq: "TCPSender_ack_received (tc_sender c) ackno win = TCPSender_fill_window (ack_applied (tc_sender c) ?ack win)"
      using False s(2) by (simp add: TCPSender_ack_received_eq)
    show ?thesis unfolding eq using TCPSender_fill_window_spec(2) [OF ap(1)] ap(3) by (simp add: ts_same_def)
  qed
qed

text \<open>A segment from the peer.\<close>

lemma receive_inv:
  assumes inv: "tc_inv S W isn R isn' n c" and seg: "wire_ok R isn' isn k seg" and small: "length R + 2 < 2 ^ 31"
  shows "\<exists>r'. TCPReceiver_segment_received (tc_receiver c) seg = Inr r' \<and> rv_ack (tc_receiver c) \<le> rv_ack r' \<and>
    (\<forall>t. tc_inv S W isn R isn' n (c\<lparr>tc_time_since_last_segment_received_ms := t, tc_receiver := r'\<rparr>))"
proof -
  note rv = tc_inv_sender(4) [OF inv]
  have nx: "rv_next (tc_receiver c) \<le> length R"
    using rv sr_inv_next_le by (auto simp: rv_inv_def rv_next_def)
  obtain r' where r': "TCPReceiver_segment_received (tc_receiver c) seg = Inr r'" "rv_inv R isn' n r'"
      "rv_next (tc_receiver c) \<le> rv_next r'"
  proof (cases "\<exists>a \<le> length R + 2. seg_ok R isn' a seg")
    case True
    then obtain a where a: "a \<le> length R + 2" "seg_ok R isn' a seg" by blast
    then show thesis using TCPReceiver_step [OF rv a(2)] nx small that by auto
  next
    case False
    then show thesis using seg TCPReceiver_empty_segment [OF rv] that unfolding wire_ok_def by blast
  qed
  note fl = TCPReceiver_flags [OF r'(1)] and ack = rv_ack_mono [OF r'(1,3)]
  have "tc_core S W isn R isn' n (tc_sender c) r' (tc_segments_out c) (tc_is_active c)"
    using core_receiver [OF inv [unfolded tc_inv_def] r'(2) ack fl(1,2)] by simp
  then show ?thesis using r'(1) ack by (simp add: tc_inv_def)
qed

lemma segment_received_inv:
  assumes inv: "tc_inv S W isn R isn' n c" and seg: "wire_ok R isn' isn k seg" and small: "length R + 2 < 2 ^ 31"
  shows "\<exists>c'. TCPConnection_segment_received c seg = Inr c' \<and> tc_inv S W isn R isn' n c' \<and>
    rv_ack (tc_receiver c) \<le> rv_ack (tc_receiver c') \<and>
    ts_una (tc_sender c') \<le> max (ts_una (tc_sender c))
      (if th_ack (seg_header seg) then unwrap (th_ackno (seg_header seg)) isn (ts_next_seqno (tc_sender c)) else 0) \<and>
    bs_input_ended (ts_stream (tc_sender c')) = bs_input_ended (ts_stream (tc_sender c))"
proof -
  obtain r' where r': "TCPReceiver_segment_received (tc_receiver c) seg = Inr r'" "rv_ack (tc_receiver c) \<le> rv_ack r'"
      "\<forall>t. tc_inv S W isn R isn' n (c\<lparr>tc_time_since_last_segment_received_ms := t, tc_receiver := r'\<rparr>)"
    using receive_inv [OF assms] by blast
  define c1 where "c1 = c\<lparr>tc_time_since_last_segment_received_ms := 0, tc_receiver := r'\<rparr>"
  have c1: "tc_inv S W isn R isn' n c1" "tc_sender c1 = tc_sender c" "tc_receiver c1 = r'"
    using r'(3) by (simp_all add: c1_def)
  define c2 where "c2 = c1\<lparr>tc_sender := TCPSender_ack_received (tc_sender c1) (th_ackno (seg_header seg)) (th_win (seg_header seg))\<rparr>"
  note a = ack_received_inv [OF c1(1), of "th_ackno (seg_header seg)" "th_win (seg_header seg)"]
  have c2: "tc_inv S W isn R isn' n c2" "tc_receiver c2 = r'"
    "ts_una (tc_sender c2) \<le> max (ts_una (tc_sender c)) (unwrap (th_ackno (seg_header seg)) isn (ts_next_seqno (tc_sender c)))"
    "bs_input_ended (ts_stream (tc_sender c2)) = bs_input_ended (ts_stream (tc_sender c))"
    using a c1(2,3) TCPSender_ack_received_spec(5) [OF tc_inv_sender(1) [OF inv]] by (simp_all add: c2_def)
  have eq: "TCPConnection_segment_received c seg =
     (if th_rst (seg_header seg) then Inr (set_rst_state c1 False)
      else if th_ack (seg_header seg)
      then Inr (segment_received_reply c2 (length_in_sequence_space seg \<noteq> 0 \<and> ts_segments_out (tc_sender c2) = []))
      else Inr (segment_received_reply c1 (length_in_sequence_space seg \<noteq> 0)))"
    unfolding TCPConnection_segment_received_def r'(1) bind_result.simps Let_def c1_def c2_def by (rule refl)
  show ?thesis
    unfolding eq using set_rst_state_inv [OF c1(1), of False] reply_inv [OF c1(1)] reply_inv [OF c2(1)] c1 c2 r'(2)
    by simp
qed

lemma tick_inv:
  assumes inv: "tc_inv S W isn R isn' n c" and tk: "TCPConnection_tick c ms = Inr c'"
  shows "tc_inv S W isn R isn' n c' \<and> rv_ack (tc_receiver c') = rv_ack (tc_receiver c) \<and>
    ts_una (tc_sender c') = ts_una (tc_sender c) \<and>
    bs_input_ended (ts_stream (tc_sender c')) = bs_input_ended (ts_stream (tc_sender c))"
proof -
  note s = tc_inv_sender [OF inv]
  obtain s' where s': "TCPSender_tick (tc_sender c) ms = Inr s'"
    using tk by (auto simp: TCPConnection_tick_def bind_result_Inr_iff)
  note t = TCPSender_tick_spec [OF s(1) s'] and pl = TCPSender_tick_plain [OF s(3) s']
  define c1 where "c1 = c\<lparr>tc_sender := s'\<rparr>"
  define c2 where "c2 = c\<lparr>tc_sender := s'\<lparr>ts_segments_out := tl (ts_segments_out s')\<rparr>\<rparr>"
  have tl: "set (tl (ts_segments_out s')) \<subseteq> set (ts_segments_out s')" by (cases "ts_segments_out s'") auto
  have c1: "tc_inv S W isn R isn' n c1" "tc_receiver c1 = tc_receiver c" "tc_sender c1 = s'"
    using tc_inv_set_sender [OF inv t(1) _ pl] t s(2) by (simp_all add: c1_def)
  have c2: "tc_inv S W isn R isn' n c2" "tc_receiver c2 = tc_receiver c" "ts_una (tc_sender c2) = ts_una (tc_sender c)"
    "ts_stream (tc_sender c2) = ts_stream (tc_sender c)"
    using tc_inv_set_sender [OF inv ts_inv_dequeue(1) [OF t(1) tl] _ TCPSender_plain_rest(4) [OF pl tl]]
      ts_inv_dequeue(2) [OF t(1) tl] t s(2)
    by (simp_all add: c2_def)
  define c3 where "c3 = (flush_segments_with_ack c1)\<lparr>tc_time_since_last_segment_received_ms :=
      u64_add (tc_time_since_last_segment_received_ms (flush_segments_with_ack c1)) ms\<rparr>"
  have c3: "tc_inv S W isn R isn' n c3" "tc_receiver c3 = tc_receiver c" "ts_una (tc_sender c3) = ts_una (tc_sender c)"
    "ts_stream (tc_sender c3) = ts_stream (tc_sender c)"
    using flush_inv [OF c1(1)] c1(2,3) t tc_inv_flags(2) by (simp_all add: c3_def)
  have eq: "TCPConnection_tick c ms =
    (if TCPSender_consecutive_retransmissions s' > MAX_RETX_ATTEMPTS then Inr (set_rst_state c2 True)
     else if receiver_state_summary (tc_receiver c3) = receiver_FIN_RECV \<and> sender_state_summary (tc_sender c3) = sender_FIN_ACKED \<and>
       tc_linger_after_streams_finish c3 \<and> tc_time_since_last_segment_received_ms c3 \<ge> 10 * unat (cfg_rt_timeout (tc_cfg c3))
     then Inr (c3\<lparr>tc_is_active := False, tc_linger_after_streams_finish := False\<rparr>) else Inr c3)"
    unfolding TCPConnection_tick_def s' bind_result.simps Let_def c1_def c2_def c3_def by (rule refl)
  show ?thesis
    using tk c2 c3 set_rst_state_inv [OF c2(1), of True] tc_inv_closed [OF c3(1)] tc_inv_flags(1)
    unfolding eq by (auto split: if_splits)
qed

text \<open>The application reads the inbound stream.\<close>

definition TCPConnection_read :: "TCPConnection \<Rightarrow> nat \<Rightarrow> bytes \<times> TCPConnection" where
  "TCPConnection_read c len = (let (out, receiver) = TCPReceiver_read (tc_receiver c) len in (out, c\<lparr>tc_receiver := receiver\<rparr>))"

lemma read_inv:
  assumes inv: "tc_inv S W isn R isn' n c" and rd: "TCPConnection_read c len = (out, c')"
  shows "tc_inv S W isn R isn' (n + length out) c'" "take (n + length out) R = take n R @ out"
    "rv_ack (tc_receiver c') = rv_ack (tc_receiver c)" "tc_sender c' = tc_sender c"
proof -
  obtain r' where r': "TCPReceiver_read (tc_receiver c) len = (out, r')" "c' = c\<lparr>tc_receiver := r'\<rparr>"
    using rd by (auto simp: TCPConnection_read_def split: prod.splits)
  note t = TCPReceiver_read_inv [OF tc_inv_sender(4) [OF inv] r'(1)]
  show ack: "rv_ack (tc_receiver c') = rv_ack (tc_receiver c)" using t by (simp add: rv_ack_def r'(2))
  show "take (n + length out) R = take n R @ out" "tc_sender c' = tc_sender c" using t(2) by (simp_all add: r'(2))
  show "tc_inv S W isn R isn' (n + length out) c'"
    using core_receiver [OF inv [unfolded tc_inv_def] t(1)] t(6,7) ack by (simp add: tc_inv_def r'(2))
qed

lemma TCPConnection_new_inv:
  assumes "length S + 2 < 2 ^ 62" "cfg_send_capacity cfg < W64" "length R + cfg_recv_capacity cfg < 2 ^ 62"
    "isn = ts_isn (tc_sender (TCPConnection_new cfg rnd))"
  shows "tc_inv S [] isn R isn' 0 (TCPConnection_new cfg rnd)"
  using assms TCPSender_new_inv [of S] TCPReceiver_new_inv [of R] TCPSender_plain_rest(1)
  by (simp add: tc_inv_def tc_core_def TCPConnection_new_def)

lemma set_rst_state_RESET: "TCPState_eq (TCPConnection_state (set_rst_state c send_rst)) (TCPState_of_State RESET)"
  by (simp add: TCPState_eq_def TCPConnection_state_def TCPState_of_connection_def set_rst_state_def Let_def TCPState_default_def
      sender_state_summary_def receiver_state_summary_def set_sender_error_def set_receiver_error_def ByteStream_set_error_def)

text \<open>The destructor of an active connection resets it, and sends nothing.\<close>

lemma TCPConnection_destroy_silent: "tc_segments_out (TCPConnection_destroy c) = tc_segments_out c"
  by (simp add: TCPConnection_destroy_def set_rst_state_def Let_def)

text \<open>A segment with the RST flag resets the connection in every state, whatever its numbers are.\<close>

lemma segment_received_rst:
  assumes "TCPReceiver_segment_received (tc_receiver c) seg = Inr r" "th_rst (seg_header seg)"
  shows "\<exists>c'. TCPConnection_segment_received c seg = Inr c' \<and> tc_segments_out c' = tc_segments_out c \<and> \<not> tc_is_active c' \<and>
    TCPState_eq (TCPConnection_state c') (TCPState_of_State RESET)"
proof -
  let ?c = "c\<lparr>tc_time_since_last_segment_received_ms := 0, tc_receiver := r\<rparr>"
  have "TCPConnection_segment_received c seg = Inr (set_rst_state ?c False)"
    using assms by (simp add: TCPConnection_segment_received_def Let_def)
  moreover have "tc_segments_out (set_rst_state ?c False) = tc_segments_out c" "\<not> tc_is_active (set_rst_state ?c False)"
    by (simp_all add: set_rst_state_def Let_def)
  ultimately show ?thesis using set_rst_state_RESET by blast
qed

section \<open>A silent peer\<close>









section \<open>Properties\<close>



end
