(* ===== verification/TCP_Network.thy ===== *)
theory TCP_Network
  imports TCP_Connection
begin

text \<open>
  Two connections and the network between them.

  An endpoint is a \<open>TCPConnection\<close> with the bytes its application has had accepted by \<open>write\<close> and the
  bytes it has read.  The network keeps every segment that was ever transmitted and delivers any of
  them at any time: it loses, delays, reorders and duplicates, and whatever carries a segment fills in its ports
  and its checksum.  An application does not write after it
  has ended its stream.
\<close>

section \<open>Steps\<close>

record Endpoint =
  ep_conn :: TCPConnection
  ep_written :: bytes
  ep_read :: bytes

definition Endpoint_new :: "TCPConfig \<Rightarrow> 32 word \<Rightarrow> Endpoint" where
  "Endpoint_new cfg random = \<lparr>ep_conn = TCPConnection_new cfg random, ep_written = [], ep_read = []\<rparr>"

abbreviation ep_ended :: "Endpoint \<Rightarrow> bool" where
  "ep_ended e \<equiv> bs_input_ended (ts_stream (tc_sender (ep_conn e)))"

abbreviation ep_inbound :: "Endpoint \<Rightarrow> ByteStream" where
  "ep_inbound e \<equiv> TCPConnection_inbound_stream (ep_conn e)"

text \<open>One call at an endpoint that can receive the segments \<open>inb\<close>; it puts \<open>out\<close> on the network.\<close>

inductive side_step :: "TCPSegment set \<Rightarrow> Endpoint \<Rightarrow> TCPSegment set \<Rightarrow> Endpoint \<Rightarrow> bool" for inb e where
  side_connect: "side_step inb e {} (e\<lparr>ep_conn := TCPConnection_connect (ep_conn e)\<rparr>)"
| side_write: "\<not> ep_ended e \<Longrightarrow> TCPConnection_write (ep_conn e) data = (k, c') \<Longrightarrow>
     side_step inb e {} (e\<lparr>ep_conn := c', ep_written := ep_written e @ take k data\<rparr>)"
| side_end: "side_step inb e {} (e\<lparr>ep_conn := TCPConnection_end_input_stream (ep_conn e)\<rparr>)"
| side_read: "TCPConnection_read (ep_conn e) len = (out, c') \<Longrightarrow>
     side_step inb e {} (e\<lparr>ep_conn := c', ep_read := ep_read e @ out\<rparr>)"
| side_tick: "TCPConnection_tick (ep_conn e) ms = Inr c' \<Longrightarrow> side_step inb e {} (e\<lparr>ep_conn := c'\<rparr>)"
| side_receive: "sent \<in> inb \<Longrightarrow> same_segment sent seg \<Longrightarrow> TCPConnection_segment_received (ep_conn e) seg = Inr c' \<Longrightarrow>
     side_step inb e {} (e\<lparr>ep_conn := c'\<rparr>)"
| side_transmit: "tc_segments_out (ep_conn e) = seg # rest \<Longrightarrow>
     side_step inb e {seg} (e\<lparr>ep_conn := (ep_conn e)\<lparr>tc_segments_out := rest\<rparr>\<rparr>)"
| side_destroy: "side_step inb e {} (e\<lparr>ep_conn := TCPConnection_destroy (ep_conn e)\<rparr>)"

record Network =
  nw_a :: Endpoint
  nw_b :: Endpoint
  nw_ab :: "TCPSegment set"
  nw_ba :: "TCPSegment set"

inductive net_step :: "Network \<Rightarrow> Network \<Rightarrow> bool" where
  net_a: "side_step (nw_ba w) (nw_a w) out a' \<Longrightarrow> net_step w (w\<lparr>nw_a := a', nw_ab := nw_ab w \<union> out\<rparr>)"
| net_b: "side_step (nw_ab w) (nw_b w) out b' \<Longrightarrow> net_step w (w\<lparr>nw_b := b', nw_ba := nw_ba w \<union> out\<rparr>)"

inductive reachable :: "TCPConfig \<Rightarrow> 32 word \<Rightarrow> TCPConfig \<Rightarrow> 32 word \<Rightarrow> Network \<Rightarrow> bool"
  for cfg_a rnd_a cfg_b rnd_b where
  reach_init: "reachable cfg_a rnd_a cfg_b rnd_b
     \<lparr>nw_a = Endpoint_new cfg_a rnd_a, nw_b = Endpoint_new cfg_b rnd_b, nw_ab = {}, nw_ba = {}\<rparr>"
| reach_step: "reachable cfg_a rnd_a cfg_b rnd_b w \<Longrightarrow> net_step w w' \<Longrightarrow> reachable cfg_a rnd_a cfg_b rnd_b w'"

inductive_cases net_stepE: "net_step w w'"

section \<open>One endpoint\<close>

text \<open>\<open>S\<close> is a stream the application of the endpoint may go on to write.\<close>

definition ep_extends :: "Endpoint \<Rightarrow> bytes \<Rightarrow> bool" where
  "ep_extends e S \<longleftrightarrow> prefix (ep_written e) S \<and> (ep_ended e \<longrightarrow> ep_written e = S)"

definition ep_inv :: "bytes \<Rightarrow> WrappingInt32 \<Rightarrow> bytes \<Rightarrow> WrappingInt32 \<Rightarrow> Endpoint \<Rightarrow> bool" where
  "ep_inv S isn R isn' e \<longleftrightarrow>
     tc_inv S (ep_written e) isn R isn' (length (ep_read e)) (ep_conn e) \<and> prefix (ep_read e) R"

abbreviation ep_una :: "Endpoint \<Rightarrow> nat" where
  "ep_una e \<equiv> ts_una (tc_sender (ep_conn e))"

abbreviation ep_ack :: "Endpoint \<Rightarrow> nat" where
  "ep_ack e \<equiv> rv_ack (tc_receiver (ep_conn e))"

lemma TCPSender_end_input_ended: "bs_input_ended (ts_stream (TCPSender_fill_window (TCPSender_end_input s)))"
proof -
  have "bs_input_ended (ts_stream (fill_window_loop w s))" if "bs_input_ended (ts_stream s)" for w s
    using that
  proof (induction w s rule: fill_window_loop.induct)
    case (1 w s)
    obtain seg s1 where seg: "fill_window_segment w s = (seg, s1)" by (cases "fill_window_segment w s")
    then have "s1 = snd (fill_window_segment w s)" by simp
    then have "bs_input_ended (ts_stream s1)"
      using 1(2) by (simp add: fill_window_segment_def Let_def ByteStream_read_def ByteStream_pop_output_def split_beta)
    then show ?case
      using 1(1) [OF _ seg [symmetric] refl _ refl] 1(2) seg by (simp add: fill_window_loop.simps [of w s] Let_def)
  qed
  then show ?thesis by (simp add: TCPSender_fill_window_def TCPSender_end_input_def ByteStream_end_input_def)
qed

lemma destroy_inv:
  assumes "tc_inv S W isn R isn' n c"
  shows "tc_inv S W isn R isn' n (TCPConnection_destroy c) \<and> ts_una (tc_sender (TCPConnection_destroy c)) = ts_una (tc_sender c) \<and>
    rv_ack (tc_receiver (TCPConnection_destroy c)) = rv_ack (tc_receiver c) \<and>
    bs_input_ended (ts_stream (tc_sender (TCPConnection_destroy c))) = bs_input_ended (ts_stream (tc_sender c))"
  using assms set_rst_state_inv [OF assms, of False] by (simp add: TCPConnection_destroy_def)

lemma wire_ok_ack:
  assumes "wire_ok S isn isn' k seg" "th_ack (seg_header seg)"
  obtains j where "j \<le> k" "th_ackno (seg_header seg) = wrap j isn'"
  using assms by (auto simp only: wire_ok_def)

lemma receive_step:
  assumes "tc_inv S W isn R isn' n c" "wire_ok R isn' isn k seg" "length R + 2 < 2 ^ 31"
    "TCPConnection_segment_received c seg = Inr c'"
  shows "tc_inv S W isn R isn' n c'" "rv_ack (tc_receiver c) \<le> rv_ack (tc_receiver c')"
    "ts_una (tc_sender c') \<le> max (ts_una (tc_sender c))
      (if th_ack (seg_header seg) then unwrap (th_ackno (seg_header seg)) isn (ts_next_seqno (tc_sender c)) else 0)"
    "bs_input_ended (ts_stream (tc_sender c')) = bs_input_ended (ts_stream (tc_sender c))"
proof -
  obtain d where d: "TCPConnection_segment_received c seg = Inr d" "tc_inv S W isn R isn' n d"
      "rv_ack (tc_receiver c) \<le> rv_ack (tc_receiver d)" "ts_una (tc_sender d) \<le> max (ts_una (tc_sender c))
        (if th_ack (seg_header seg) then unwrap (th_ackno (seg_header seg)) isn (ts_next_seqno (tc_sender c)) else 0)"
      "bs_input_ended (ts_stream (tc_sender d)) = bs_input_ended (ts_stream (tc_sender c))"
    using segment_received_inv [OF assms(1-3)] by blast
  have "d = c'" using d(1) assms(4) by simp
  then show "tc_inv S W isn R isn' n c'" "rv_ack (tc_receiver c) \<le> rv_ack (tc_receiver c')"
    "ts_una (tc_sender c') \<le> max (ts_una (tc_sender c))
      (if th_ack (seg_header seg) then unwrap (th_ackno (seg_header seg)) isn (ts_next_seqno (tc_sender c)) else 0)"
    "bs_input_ended (ts_stream (tc_sender c')) = bs_input_ended (ts_stream (tc_sender c))"
    using d(2-5) by blast+
qed

text \<open>The stream an endpoint may write can only get more determined.\<close>

lemma side_extends:
  assumes st: "side_step inb e out e'" and inv: "ep_inv (ep_written e) isn R isn' e" and ext: "ep_extends e' S"
    and inb: "\<forall>seg \<in> inb. wire_ok R isn' isn k seg" and small: "length R + 2 < 2 ^ 31"
  shows "ep_extends e S"
proof -
  have tc: "tc_inv (ep_written e) (ep_written e) isn R isn' (length (ep_read e)) (ep_conn e)"
    using inv by (simp add: ep_inv_def)
  have "prefix (ep_written e) (ep_written e') \<and> (ep_ended e \<longrightarrow> ep_ended e' \<and> ep_written e' = ep_written e)"
    using st
  proof (cases rule: side_step.cases)
    case side_connect
    then show ?thesis using connect_inv(4) [OF tc] by simp
  next
    case side_end
    then show ?thesis using end_input_stream_inv(4) [OF tc] by simp
  next
    case (side_read len out c')
    then show ?thesis using read_inv(4) [OF tc side_read(3)] by simp
  next
    case (side_tick ms c')
    then show ?thesis using tick_inv [OF tc side_tick(3)] by simp
  next
    case (side_receive sent seg c')
    then have "wire_ok R isn' isn k seg" using inb wire_ok_same by blast
    then show ?thesis using receive_step(4) [OF tc _ small side_receive(5)] side_receive(1,2) by simp
  next
    case side_destroy
    then show ?thesis using destroy_inv [OF tc] by simp
  qed simp_all
  then show ?thesis using ext unfolding ep_extends_def by (metis prefix_order.order_trans)
qed

lemma side_step_inv:
  assumes st: "side_step inb e out e'" and inv: "ep_inv S isn R isn' e" and ext: "ep_extends e' S"
    and inb: "\<forall>seg \<in> inb. wire_ok R isn' isn k seg" and una: "ep_una e \<le> k" and k: "k < 2 ^ 31"
    and small: "length R + 2 < 2 ^ 31" "length S + 2 < 2 ^ 31"
  shows "ep_inv S isn R isn' e' \<and> ep_ack e \<le> ep_ack e' \<and> ep_una e' \<le> k \<and>
    (\<forall>seg \<in> out. wire_ok S isn isn' (ep_ack e') seg)"
proof -
  have tc: "tc_inv S (ep_written e) isn R isn' (length (ep_read e)) (ep_conn e)" and rd: "prefix (ep_read e) R"
    using inv by (simp_all add: ep_inv_def)
  show ?thesis
    using st
  proof (cases rule: side_step.cases)
    case side_connect
    then show ?thesis using connect_inv [OF tc] rd una by (simp add: ep_inv_def)
  next
    case (side_write data j c')
    have "prefix (ep_written e @ take j data) S" using ext side_write by (simp add: ep_extends_def)
    then show ?thesis using write_inv [OF tc side_write(4) _ side_write(3)] side_write rd una by (simp add: ep_inv_def)
  next
    case side_end
    have "bs_input_ended (ts_stream (tc_sender (TCPConnection_end_input_stream (ep_conn e))))"
      by (simp add: TCPConnection_end_input_stream_def flush_segments_with_ack_def TCPSender_end_input_ended)
    then have "ep_written e = S" using ext side_end by (simp add: ep_extends_def)
    then show ?thesis using end_input_stream_inv [of S] tc side_end rd una by (simp add: ep_inv_def)
  next
    case (side_read len str c')
    note r = read_inv [OF tc side_read(3)]
    have "take (length (ep_read e)) R = ep_read e" using rd by (auto simp: prefix_def)
    then have "ep_read e @ str = take (length (ep_read e) + length str) R" using r(2) by simp
    then have "prefix (ep_read e @ str) R" by (simp add: take_is_prefix)
    then show ?thesis using r side_read una by (simp add: ep_inv_def)
  next
    case (side_tick ms c')
    then show ?thesis using tick_inv [OF tc side_tick(3)] rd una by (simp add: ep_inv_def)
  next
    case (side_receive sent seg c')
    then have ok: "wire_ok R isn' isn k seg" using inb wire_ok_same by blast
    have r: "tc_inv S (ep_written e) isn R isn' (length (ep_read e)) c'" "ep_ack e \<le> rv_ack (tc_receiver c')"
      "ts_una (tc_sender c') \<le> max (ep_una e)
        (if th_ack (seg_header seg) then unwrap (th_ackno (seg_header seg)) isn (ts_next_seqno (tc_sender (ep_conn e))) else 0)"
      by (rule receive_step [OF tc ok small(1) side_receive(5)])+
    have "unwrap (th_ackno (seg_header seg)) isn (ts_next_seqno (tc_sender (ep_conn e))) \<le> k" if ack: "th_ack (seg_header seg)"
    proof -
      obtain j where j: "j \<le> k" "th_ackno (seg_header seg) = wrap j isn" using wire_ok_ack [OF ok ack] .
      have "ts_next_seqno (tc_sender (ep_conn e)) < 2 ^ 31"
        using ts_una_le(2) [OF tc_inv_sender(1) [OF tc]] small(2) by (rule le_less_trans)
      then have "unwrap (wrap j isn) isn (ts_next_seqno (tc_sender (ep_conn e))) = j"
        using j(1) k by (intro unwrap_wrap_near) (simp_all add: W64_def)
      then show ?thesis using j by simp
    qed
    then have "ts_una (tc_sender c') \<le> k" using r(3) una by (auto split: if_splits)
    then show ?thesis using r(1,2) side_receive rd by (simp add: ep_inv_def)
  next
    case (side_transmit seg rest)
    have "tc_core S (ep_written e) isn R isn' (length (ep_read e)) (tc_sender (ep_conn e)) (tc_receiver (ep_conn e)) rest (tc_is_active (ep_conn e))"
      "wire_ok S isn isn' (ep_ack e) seg"
      using core_segments [OF tc [unfolded tc_inv_def], of rest] tc side_transmit by (auto simp: tc_inv_def tc_core_def)
    then show ?thesis using side_transmit rd una by (simp add: ep_inv_def tc_inv_def)
  next
    case side_destroy
    then show ?thesis using destroy_inv [OF tc] rd una by (simp add: ep_inv_def)
  qed
qed

section \<open>The network\<close>

text \<open>What each side regards as acknowledged, the other has assembled.\<close>

definition net_inv :: "bytes \<Rightarrow> WrappingInt32 \<Rightarrow> bytes \<Rightarrow> WrappingInt32 \<Rightarrow> Network \<Rightarrow> bool" where
  "net_inv A ia B ib w \<longleftrightarrow>
     ep_inv A ia B ib (nw_a w) \<and> ep_inv B ib A ia (nw_b w) \<and>
     (\<forall>seg \<in> nw_ab w. wire_ok A ia ib (ep_ack (nw_a w)) seg) \<and> (\<forall>seg \<in> nw_ba w. wire_ok B ib ia (ep_ack (nw_b w)) seg) \<and>
     ep_una (nw_a w) \<le> ep_ack (nw_b w) \<and> ep_una (nw_b w) \<le> ep_ack (nw_a w)"

definition net_small :: "bytes \<Rightarrow> bytes \<Rightarrow> bool" where
  "net_small A B \<longleftrightarrow> length A + 2 < 2 ^ 31 \<and> length B + 2 < 2 ^ 31"

lemma ep_ack_small: "ep_inv S isn R isn' e \<Longrightarrow> length R + 2 < 2 ^ 31 \<Longrightarrow> ep_ack e < 2 ^ 31"
  using rv_ack_le [OF tc_inv_sender(4)] unfolding ep_inv_def by (meson le_less_trans)

definition net_swap :: "Network \<Rightarrow> Network" where
  "net_swap w = \<lparr>nw_a = nw_b w, nw_b = nw_a w, nw_ab = nw_ba w, nw_ba = nw_ab w\<rparr>"

lemma net_swap_simps [simp]:
  "nw_a (net_swap w) = nw_b w" "nw_b (net_swap w) = nw_a w" "nw_ab (net_swap w) = nw_ba w" "nw_ba (net_swap w) = nw_ab w"
  by (simp_all add: net_swap_def)

lemma net_inv_swap: "net_inv B ib A ia (net_swap w) = net_inv A ia B ib w"
  by (auto simp: net_inv_def)

lemma net_inv_a:
  assumes inv: "net_inv A ia B ib w" and st: "side_step (nw_ba w) (nw_a w) out a'" and ext: "ep_extends a' A"
    and small: "net_small A B"
  shows "net_inv A ia B ib (w\<lparr>nw_a := a', nw_ab := nw_ab w \<union> out\<rparr>)"
proof -
  have w: "ep_inv A ia B ib (nw_a w)" "ep_inv B ib A ia (nw_b w)" "\<forall>seg \<in> nw_ab w. wire_ok A ia ib (ep_ack (nw_a w)) seg"
    "\<forall>seg \<in> nw_ba w. wire_ok B ib ia (ep_ack (nw_b w)) seg" "ep_una (nw_a w) \<le> ep_ack (nw_b w)" "ep_una (nw_b w) \<le> ep_ack (nw_a w)"
    using inv unfolding net_inv_def by blast+
  have sm: "length A + 2 < 2 ^ 31" "length B + 2 < 2 ^ 31" using small by (simp_all add: net_small_def)
  have a': "ep_inv A ia B ib a'" "ep_ack (nw_a w) \<le> ep_ack a'" "ep_una a' \<le> ep_ack (nw_b w)"
    "\<forall>seg \<in> out. wire_ok A ia ib (ep_ack a') seg"
    using side_step_inv [OF st w(1) ext w(4,5) ep_ack_small [OF w(2) sm(1)] sm(2,1)] by blast+
  have "\<forall>seg \<in> nw_ab w \<union> out. wire_ok A ia ib (ep_ack a') seg" using w(3) a'(2,4) wire_ok_mono by blast
  then show ?thesis using a' w(2,4,6) by (simp add: net_inv_def)
qed

lemma net_inv_step:
  assumes st: "net_step w w'" and inv: "net_inv A ia B ib w" and ext: "ep_extends (nw_a w') A" "ep_extends (nw_b w') B"
    and small: "net_small A B"
  shows "net_inv A ia B ib w'"
  using st
proof (cases rule: net_step.cases)
  case (net_a out a')
  then show ?thesis using net_inv_a [OF inv net_a(2)] ext small by simp
next
  case (net_b out b')
  have "net_inv B ib A ia ((net_swap w)\<lparr>nw_a := b', nw_ab := nw_ab (net_swap w) \<union> out\<rparr>)"
    using net_inv_a [of B ib A ia "net_swap w" out b'] inv net_b ext(2) small by (simp add: net_inv_swap net_small_def)
  then show ?thesis using net_b(1) by (auto simp: net_inv_def)
qed

lemma net_extends_step:
  assumes st: "net_step w w'" and inv: "net_inv (ep_written (nw_a w)) ia (ep_written (nw_b w)) ib w"
    and ext: "ep_extends (nw_a w') A" "ep_extends (nw_b w') B" and small: "net_small (ep_written (nw_a w)) (ep_written (nw_b w))"
  shows "ep_extends (nw_a w) A \<and> ep_extends (nw_b w) B"
  using st
proof (cases rule: net_step.cases)
  case (net_a out a')
  then show ?thesis
    using side_extends [OF net_a(2), where S = A and isn = ia and isn' = ib] inv ext small by (auto simp: net_inv_def net_small_def)
next
  case (net_b out b')
  then show ?thesis
    using side_extends [OF net_b(2), where S = B and isn = ib and isn' = ia] inv ext small by (auto simp: net_inv_def net_small_def)
qed

definition config_ok :: "TCPConfig \<Rightarrow> bool" where
  "config_ok cfg \<longleftrightarrow> cfg_send_capacity cfg < W64 \<and> cfg_recv_capacity cfg < 2 ^ 61"

definition config_isn :: "TCPConfig \<Rightarrow> 32 word \<Rightarrow> WrappingInt32" where
  "config_isn cfg rnd = ts_isn (tc_sender (TCPConnection_new cfg rnd))"

lemma ep_extends_self: "ep_extends e (ep_written e)"
  by (simp add: ep_extends_def)

lemma ep_extends_small: "ep_extends e S \<Longrightarrow> length (ep_written e) \<le> length S"
  by (simp add: ep_extends_def prefix_length_le)

lemma Endpoint_new_inv:
  assumes "config_ok cfg" "length S + 2 < 2 ^ 31" "length R + 2 < 2 ^ 31"
  shows "ep_inv S (config_isn cfg rnd) R isn' (Endpoint_new cfg rnd)"
proof -
  have "length S + 2 < 2 ^ 62" "length R + cfg_recv_capacity cfg < 2 ^ 62" using assms by (simp_all add: config_ok_def)
  then show ?thesis
    using TCPConnection_new_inv [of S cfg R] assms(1) by (simp add: ep_inv_def Endpoint_new_def config_isn_def config_ok_def)
qed

lemma net_step_written:
  assumes "net_step w w'"
  shows "length (ep_written (nw_a w)) \<le> length (ep_written (nw_a w'))"
    "length (ep_written (nw_b w)) \<le> length (ep_written (nw_b w'))"
proof -
  have "length (ep_written e) \<le> length (ep_written e')" if "side_step inb e out e'" for inb e out e'
    using that by cases simp_all
  then show "length (ep_written (nw_a w)) \<le> length (ep_written (nw_a w'))"
    "length (ep_written (nw_b w)) \<le> length (ep_written (nw_b w'))"
    using assms by (auto elim!: net_stepE)
qed

lemma reachable_inv:
  assumes "reachable cfg_a rnd_a cfg_b rnd_b w" "config_ok cfg_a" "config_ok cfg_b"
    "ep_extends (nw_a w) A" "ep_extends (nw_b w) B" "net_small A B"
  shows "net_inv A (config_isn cfg_a rnd_a) B (config_isn cfg_b rnd_b) w"
  using assms(1,4-6)
proof (induction arbitrary: A B rule: reachable.induct)
  case reach_init
  then have "ts_una (tc_sender (ep_conn (Endpoint_new cfg rnd))) = 0" for cfg rnd
    by (simp add: Endpoint_new_def TCPConnection_new_def TCPSender_new_def ts_una_def)
  then show ?case
    using Endpoint_new_inv [OF assms(2), of A B] Endpoint_new_inv [OF assms(3), of B A] reach_init(3)
    by (simp add: net_inv_def net_small_def)
next
  case (reach_step w w')
  note le = net_step_written [OF reach_step(2)]
  have small: "net_small (ep_written (nw_a w)) (ep_written (nw_b w))"
    using reach_step(6) le ep_extends_small [OF reach_step(4)] ep_extends_small [OF reach_step(5)]
    by (simp add: net_small_def)
  have ext: "ep_extends (nw_a w) A \<and> ep_extends (nw_b w) B"
    using net_extends_step [OF reach_step(2) reach_step(3) [OF ep_extends_self ep_extends_self small] reach_step(4,5) small] .
  then have "net_inv A (config_isn cfg_a rnd_a) B (config_isn cfg_b rnd_b) w" using reach_step(3,6) by blast
  then show ?case using net_inv_step [OF reach_step(2) _ reach_step(4-6)] by blast
qed

section \<open>A connection that closes cleanly\<close>

text \<open>Both applications end their streams at once; SYN and FIN travel in one segment.\<close>

definition ex_cfg :: TCPConfig where
  "ex_cfg = \<lparr>cfg_rt_timeout = 1000, cfg_recv_capacity = 100, cfg_send_capacity = 100, cfg_fixed_isn = Some 0\<rparr>"

definition ex_seg :: TCPSegment where
  "ex_seg = \<lparr>seg_header = TCPHeader_default\<lparr>th_syn := True, th_fin := True\<rparr>, seg_payload = Buffer_new []\<rparr>"

definition ex_new :: TCPSender where
  "ex_new = TCPSender_new 100 1000 (Some 0) 0"

definition ex_sent :: TCPSender where
  "ex_sent = ex_new\<lparr>ts_timeout := 1000, ts_outgoing_map := [(0, ex_seg)], ts_outgoing_bytes := 2, ts_syn_flag := True,
     ts_fin_flag := True, ts_segments_out := [ex_seg], ts_stream := ByteStream_end_input (ByteStream_new 100),
     ts_next_seqno := 2\<rparr>"

lemma ex_fill: "TCPSender_fill_window (TCPSender_end_input ex_new) = ex_sent"
  by (simp add: ex_new_def ex_sent_def ex_seg_def sender_eval ByteStream_defs Let_def eval_simps del: eval_del)

definition ex_rcv :: TCPReceiver where
  "ex_rcv = \<lparr>rv_isn = 0, rv_syn_flag = True,
     rv_reassembler = (StreamReassembler_new 100)\<lparr>sr_eof_idx := 0, sr_output := ByteStream_end_input (ByteStream_new 100)\<rparr>,
     rv_capacity = 100\<rparr>"

lemma ex_unwrap: "unwrap 0 0 0 = 0" "unwrap 2 0 0 = 2" "unwrap 2 0 2 = 2" "wrap 2 0 = 2"
proof -
  have w: "wrap 0 0 = 0" "wrap 2 0 = 2" by (simp_all add: wrap_def wi_plus_u32_def)
  then show "unwrap 0 0 0 = 0" "unwrap 2 0 0 = 2" "unwrap 2 0 2 = 2" "wrap 2 0 = 2"
    using unwrap_wrap_near [of 0 0 0] unwrap_wrap_near [of 0 2 0] unwrap_wrap_near [of 2 2 0] by (simp_all add: W64_def)
qed

lemma ex_index: "u64_add (u64_sub 0 1) 1 = 0"
  by (simp add: u64_add_def u64_sub_def W64_def)

lemma ex_receive: "TCPReceiver_segment_received (TCPReceiver_new 100) ex_seg = Inr ex_rcv"
  by (simp add: TCPReceiver_segment_received_def TCPReceiver_new_def ex_rcv_def ex_seg_def TCPHeader_default_def
      Buffer_new_def Buffer_copy_def Buffer_str_def ex_unwrap ex_index sr_eval ByteStream_defs Let_def eval_simps del: eval_del)

lemma ex_ackno: "TCPReceiver_ackno ex_rcv = Some 2" "TCPReceiver_window_size ex_rcv = 100"
  by (simp_all add: TCPReceiver_ackno_def TCPReceiver_window_size_def ex_rcv_def ByteStream_defs ex_unwrap
      StreamReassembler_new_def Let_def eval_simps del: eval_del)

definition ex_ack :: TCPSegment where
  "ex_ack = \<lparr>seg_header = TCPHeader_default\<lparr>th_seqno := 2, th_ack := True, th_ackno := 2, th_win := 100\<rparr>, seg_payload = Buffer_empty\<rparr>"

lemma ex_receive_ack: "TCPReceiver_segment_received ex_rcv ex_ack = Inr ex_rcv"
  by (simp add: TCPReceiver_segment_received_def ex_rcv_def ex_ack_def TCPHeader_default_def
      Buffer_empty_def Buffer_copy_def Buffer_str_def ex_unwrap sr_eval ByteStream_defs Let_def eval_simps del: eval_del)

definition ex_acked :: TCPSender where
  "ex_acked = ex_sent\<lparr>ts_outgoing_map := [], ts_outgoing_bytes := 0, ts_segments_out := [], ts_last_window_size := 100\<rparr>"

lemma ex_acked: "TCPSender_ack_received (ex_sent\<lparr>ts_segments_out := []\<rparr>) 2 100 = ex_acked"
  by (simp add: TCPSender_ack_received_def ex_sent_def ex_acked_def ex_new_def ex_seg_def ex_unwrap
     sender_eval ByteStream_defs Let_def eval_simps del: eval_del)

lemma ex_summaries:
  "receiver_state_summary ex_rcv = receiver_FIN_RECV" "sender_state_summary ex_acked = sender_FIN_ACKED"
  "sender_state_summary (ex_sent\<lparr>ts_segments_out := segs\<rparr>) = sender_SYN_SENT"
  by (simp_all add: receiver_state_summary_def sender_state_summary_def ex_ackno TCPSender_bytes_in_flight_def)
    (simp_all add: ex_rcv_def ex_acked_def ex_sent_def ex_new_def TCPSender_new_def ByteStream_defs eval_simps)

definition ex_conn :: "TCPReceiver \<Rightarrow> TCPSender \<Rightarrow> TCPSegment list \<Rightarrow> bool \<Rightarrow> bool \<Rightarrow> nat \<Rightarrow> TCPConnection" where
  "ex_conn r s out linger act time = \<lparr>tc_cfg = ex_cfg, tc_receiver = r, tc_sender = s, tc_segments_out = out,
     tc_linger_after_streams_finish = linger, tc_is_active = act, tc_time_since_last_segment_received_ms = time\<rparr>"

abbreviation ex_sent_out :: TCPSender where
  "ex_sent_out \<equiv> ex_sent\<lparr>ts_segments_out := []\<rparr>"

lemma ex_step_new: "TCPConnection_new ex_cfg 0 = ex_conn (TCPReceiver_new 100) ex_new [] True True 0"
  by (simp add: TCPConnection_new_def ex_conn_def ex_cfg_def ex_new_def)

lemma ex_step_end:
  "TCPConnection_end_input_stream (ex_conn (TCPReceiver_new 100) ex_new [] True True 0) =
   ex_conn (TCPReceiver_new 100) ex_sent_out [ex_seg] True True 0"
proof -
  have "stamp_ack (TCPReceiver_new 100) ex_seg = ex_seg"
    by (simp add: stamp_ack_def TCPReceiver_ackno_def TCPReceiver_new_def)
  moreover have "ts_segments_out ex_sent = [ex_seg]" by (simp add: ex_sent_def)
  ultimately show ?thesis
    by (simp add: TCPConnection_end_input_stream_def ex_conn_def ex_fill flush_segments_with_ack_def)
qed

lemma ex_step_syn:
  "TCPConnection_segment_received (ex_conn (TCPReceiver_new 100) ex_sent_out [] True True 0) ex_seg =
   Inr (ex_conn ex_rcv ex_sent_out [ex_ack] True True 0)"
proof -
  have seg: "th_rst (seg_header ex_seg) = False" "th_ack (seg_header ex_seg) = False" "length_in_sequence_space ex_seg \<noteq> 0"
    by (simp_all add: ex_seg_def TCPHeader_default_def length_in_sequence_space_def)
  have out: "ts_segments_out (TCPSender_send_empty_segment ex_sent_out) =
      [\<lparr>seg_header = TCPHeader_default\<lparr>th_seqno := 2\<rparr>, seg_payload = Buffer_empty\<rparr>]"
    "(TCPSender_send_empty_segment ex_sent_out)\<lparr>ts_segments_out := []\<rparr> = ex_sent_out"
    by (simp_all add: TCPSender_send_empty_segment_def TCPSender_next_seqno_def)
      (simp_all add: ex_sent_def ex_new_def TCPSender_new_def ex_unwrap)
  have ack: "stamp_ack ex_rcv \<lparr>seg_header = TCPHeader_default\<lparr>th_seqno := 2\<rparr>, seg_payload = Buffer_empty\<rparr> = ex_ack"
    by (simp add: stamp_ack_def ex_ackno ex_ack_def)
  show ?thesis
    using seg by (simp add: TCPConnection_segment_received_def segment_received_reply_def ex_conn_def ex_receive ex_summaries
        flush_segments_with_ack_def out ack Let_def sender_summary_neq [symmetric])
qed

lemma ex_step_ack:
  "TCPConnection_segment_received (ex_conn ex_rcv ex_sent_out [] True True 0) ex_ack = Inr (ex_conn ex_rcv ex_acked [] True True 0)"
proof -
  have seg: "th_rst (seg_header ex_ack) = False" "th_ack (seg_header ex_ack)" "length_in_sequence_space ex_ack = 0"
    "th_ackno (seg_header ex_ack) = 2" "th_win (seg_header ex_ack) = 100"
    by (simp_all add: ex_ack_def TCPHeader_default_def length_in_sequence_space_def)
  have "ts_segments_out ex_acked = []" "ex_acked\<lparr>ts_segments_out := []\<rparr> = ex_acked" by (simp_all add: ex_acked_def)
  then show ?thesis
    using seg by (simp add: TCPConnection_segment_received_def segment_received_reply_def ex_conn_def ex_receive_ack ex_acked
        ex_summaries flush_segments_with_ack_def Let_def sender_summary_neq [symmetric])
qed

lemma ex_step_tick: 
  "\<exists>s. TCPConnection_tick (ex_conn ex_rcv ex_acked [] True True 0) 10000 = Inr (ex_conn ex_rcv s [] False False 10000) \<and> \<not> bs_error (ts_stream s)"
proof -
  define s where "s = ex_acked\<lparr>ts_timecount := 10000\<rparr>"
  have tk: "TCPSender_tick ex_acked 10000 = Inr s"
    by (simp add: s_def TCPSender_tick_def ex_acked_def ex_sent_def ex_new_def TCPSender_new_def int32_def Let_def)
  have s: "sender_state_summary s = sender_FIN_ACKED" "ts_segments_out s = []" "s\<lparr>ts_segments_out := []\<rparr> = s"
      "TCPSender_consecutive_retransmissions s = 0" "\<not> bs_error (ts_stream s)"
    by (simp_all add: sender_state_summary_def TCPSender_bytes_in_flight_def TCPSender_consecutive_retransmissions_def)
      (simp_all add: s_def ex_acked_def ex_sent_def ex_new_def TCPSender_new_def ByteStream_defs u64_simps W64_def)
  have "TCPConnection_tick (ex_conn ex_rcv ex_acked [] True True 0) 10000 = Inr (ex_conn ex_rcv s [] False False 10000)"
    by (simp add: TCPConnection_tick_def ex_conn_def tk s flush_segments_with_ack_def ex_summaries ex_cfg_def u64_simps W64_def Let_def)
  then show ?thesis using s(5) by blast
qed

abbreviation ex_ep :: "TCPConnection \<Rightarrow> Endpoint" where
  "ex_ep c \<equiv> \<lparr>ep_conn = c, ep_written = [], ep_read = []\<rparr>"

definition ex_net :: "TCPConnection \<Rightarrow> TCPConnection \<Rightarrow> TCPSegment set \<Rightarrow> TCPSegment set \<Rightarrow> Network" where
  "ex_net a b ab ba = \<lparr>nw_a = ex_ep a, nw_b = ex_ep b, nw_ab = ab, nw_ba = ba\<rparr>"

abbreviation ex_reach :: "Network \<Rightarrow> bool" where
  "ex_reach \<equiv> reachable ex_cfg 0 ex_cfg 0"

lemma ex_step_a:
  assumes "ex_reach (ex_net a b ab ba)" "side_step ba (ex_ep a) out (ex_ep a')"
  shows "ex_reach (ex_net a' b (ab \<union> out) ba)"
  using reach_step [OF assms(1) net_a [of "ex_net a b ab ba" out "ex_ep a'"]] assms(2) by (simp add: ex_net_def)

lemma ex_step_b:
  assumes "ex_reach (ex_net a b ab ba)" "side_step ab (ex_ep b) out (ex_ep b')"
  shows "ex_reach (ex_net a b' ab (ba \<union> out))"
  using reach_step [OF assms(1) net_b [of "ex_net a b ab ba" out "ex_ep b'"]] assms(2) by (simp add: ex_net_def)

lemma ex_side:
  "TCPConnection_end_input_stream c = c' \<Longrightarrow> side_step inb (ex_ep c) {} (ex_ep c')"
  "TCPConnection_tick c ms = Inr c' \<Longrightarrow> side_step inb (ex_ep c) {} (ex_ep c')"
  "seg \<in> inb \<Longrightarrow> TCPConnection_segment_received c seg = Inr c' \<Longrightarrow> side_step inb (ex_ep c) {} (ex_ep c')"
  "tc_segments_out c = [seg] \<Longrightarrow> side_step inb (ex_ep c) {seg} (ex_ep (c\<lparr>tc_segments_out := []\<rparr>))"
  using side_end [of inb "ex_ep c"] side_tick [of "ex_ep c" ms c' inb] side_receive [of seg inb seg "ex_ep c" c']
    side_transmit [of "ex_ep c" seg "[]" inb]
  by auto

lemma ex_transmit:
  "side_step inb (ex_ep (ex_conn r s [seg] linger act t)) {seg} (ex_ep (ex_conn r s [] linger act t))"
  using ex_side(4) [of "ex_conn r s [seg] linger act t" seg inb] by (simp add: ex_conn_def)

text \<open>Both sides end their streams, exchange the two segments, acknowledge them, and \<open>a\<close> closes after
  its time of lingering.\<close>

lemma ex_run:
  obtains s where "ex_reach (ex_net (ex_conn ex_rcv s [] False False 10000) (ex_conn ex_rcv ex_sent_out [] True True 0)
      {ex_seg, ex_ack} {ex_seg, ex_ack})" "\<not> bs_error (ts_stream s)"
proof -
  let ?new = "ex_conn (TCPReceiver_new 100) ex_new [] True True 0" and ?r0 = "TCPReceiver_new 100"
  have "ex_reach (ex_net ?new ?new {} {})"
    using reach_init [of ex_cfg 0 ex_cfg 0] by (simp add: ex_net_def Endpoint_new_def ex_step_new)
  note ex_step_a [OF this ex_side(1) [OF ex_step_end]]
  note ex_step_a [OF this ex_transmit]
  note ex_step_b [OF this ex_side(1) [OF ex_step_end]]
  note ex_step_b [OF this ex_transmit]
  then have "ex_reach (ex_net (ex_conn ?r0 ex_sent_out [] True True 0) (ex_conn ?r0 ex_sent_out [] True True 0) {ex_seg} {ex_seg})"
    by simp
  note ex_step_a [OF this ex_side(3) [OF _ ex_step_syn], simplified]
  note ex_step_a [OF this ex_transmit]
  note ex_step_b [OF this ex_side(3) [OF _ ex_step_syn], simplified]
  note ex_step_b [OF this ex_transmit, simplified]
  then have "ex_reach (ex_net (ex_conn ex_rcv ex_sent_out [] True True 0) (ex_conn ex_rcv ex_sent_out [] True True 0)
      {ex_seg, ex_ack} {ex_seg, ex_ack})"
    by (simp add: insert_commute)
  note r = ex_step_a [OF this ex_side(3) [OF _ ex_step_ack], simplified]
  obtain s where s: "TCPConnection_tick (ex_conn ex_rcv ex_acked [] True True 0) 10000 = Inr (ex_conn ex_rcv s [] False False 10000)"
      "\<not> bs_error (ts_stream s)"
    using ex_step_tick by blast
  show thesis using ex_step_a [OF r ex_side(2) [OF s(1)], simplified] s(2) by (rule that)
qed

section \<open>Consequences of the invariant\<close>

lemma ep_inv_assembled:
  assumes "ep_inv S isn R isn' e"
  shows "ep_read e @ bs_buffer (ep_inbound e) = take (rv_next (tc_receiver (ep_conn e))) R"
    "rv_next (tc_receiver (ep_conn e)) \<le> length R"
    "bs_input_ended (ep_inbound e) \<Longrightarrow> rv_next (tc_receiver (ep_conn e)) = length R"
proof -
  let ?n = "length (ep_read e)" and ?r = "tc_receiver (ep_conn e)"
  have rd: "prefix (ep_read e) R" and tc: "tc_inv S (ep_written e) isn R isn' ?n (ep_conn e)" using assms by (simp_all add: ep_inv_def)
  have sr: "sr_inv R ?n (rv_reassembler ?r)" using tc_inv_sender(4) [OF tc] by (simp add: rv_inv_def)
  have nx: "?n \<le> rv_next ?r" "rv_next ?r \<le> length R" using sr_inv_next_le [OF sr] by (simp_all add: rv_next_def)
  have "bs_buffer (ep_inbound e) = drop ?n (take (rv_next ?r) R)"
    using sr by (simp add: sr_inv_def out_ok_def bs_holds_def rv_next_def)
  moreover have "ep_read e = take ?n (take (rv_next ?r) R)" using rd nx(1) by (auto simp: prefix_def min_def)
  ultimately show "ep_read e @ bs_buffer (ep_inbound e) = take (rv_next ?r) R" by (metis append_take_drop_id)
  show "rv_next ?r \<le> length R" by (fact nx(2))
  show "bs_input_ended (ep_inbound e) \<Longrightarrow> rv_next ?r = length R" using sr by (simp add: sr_inv_def rv_next_def)
qed

lemma ep_inv_all_acked:
  assumes "ep_inv S isn R isn' e" "length R + 2 \<le> ep_ack e"
  shows "bs_input_ended (ep_inbound e)" "ep_read e @ bs_buffer (ep_inbound e) = R"
proof -
  note as = ep_inv_assembled [OF assms(1)]
  show ended: "bs_input_ended (ep_inbound e)"
    using assms(2) as(2) by (auto simp: rv_ack_def split: if_splits)
  show "ep_read e @ bs_buffer (ep_inbound e) = R" using as(1) as(3) [OF ended] by simp
qed

text \<open>What has arrived, in both directions.\<close>

lemma reachable_delivers:
  assumes reach: "reachable cfg_a rnd_a cfg_b rnd_b w" and cfg: "config_ok cfg_a" "config_ok cfg_b"
    and small: "length (ep_written (nw_a w)) + 3 < 2 ^ 31" "length (ep_written (nw_b w)) + 3 < 2 ^ 31"
  shows "prefix (ep_read (nw_b w) @ bs_buffer (ep_inbound (nw_b w))) (ep_written (nw_a w)) \<and>
    prefix (ep_read (nw_a w) @ bs_buffer (ep_inbound (nw_a w))) (ep_written (nw_b w)) \<and>
    (bs_input_ended (ep_inbound (nw_b w)) \<longrightarrow>
       ep_ended (nw_a w) \<and> ep_read (nw_b w) @ bs_buffer (ep_inbound (nw_b w)) = ep_written (nw_a w)) \<and>
    (bs_input_ended (ep_inbound (nw_a w)) \<longrightarrow>
       ep_ended (nw_b w) \<and> ep_read (nw_a w) @ bs_buffer (ep_inbound (nw_a w)) = ep_written (nw_b w))"
proof -
  let ?A = "ep_written (nw_a w)" and ?B = "ep_written (nw_b w)"
  have inv: "net_inv A (config_isn cfg_a rnd_a) B (config_isn cfg_b rnd_b) w"
    if "ep_extends (nw_a w) A" "ep_extends (nw_b w) B" "length A + 2 < 2 ^ 31" "length B + 2 < 2 ^ 31" for A B
    using reachable_inv [OF reach cfg that(1,2)] that(3,4) by (simp add: net_small_def)
  have self: "net_inv ?A (config_isn cfg_a rnd_a) ?B (config_isn cfg_b rnd_b) w"
    using inv [OF ep_extends_self ep_extends_self] small by simp
  then have ep: "ep_inv ?A (config_isn cfg_a rnd_a) ?B (config_isn cfg_b rnd_b) (nw_a w)"
      "ep_inv ?B (config_isn cfg_b rnd_b) ?A (config_isn cfg_a rnd_a) (nw_b w)"
    by (simp_all add: net_inv_def)
  note a = ep_inv_assembled [OF ep(1)] and b = ep_inv_assembled [OF ep(2)]
  have "ep_ended (nw_a w)" if ended: "bs_input_ended (ep_inbound (nw_b w))"
  proof (rule ccontr)
    assume "\<not> ep_ended (nw_a w)"
    then have "net_inv (?A @ [0]) (config_isn cfg_a rnd_a) ?B (config_isn cfg_b rnd_b) w"
      using inv [of "?A @ [0]" ?B] ep_extends_self small by (simp add: ep_extends_def)
    then have "ep_inv ?B (config_isn cfg_b rnd_b) (?A @ [0]) (config_isn cfg_a rnd_a) (nw_b w)" by (simp add: net_inv_def)
    from ep_inv_assembled(3) [OF this ended] b(3) [OF ended] show False by simp
  qed
  moreover have "ep_ended (nw_b w)" if ended: "bs_input_ended (ep_inbound (nw_a w))"
  proof (rule ccontr)
    assume "\<not> ep_ended (nw_b w)"
    then have "net_inv ?A (config_isn cfg_a rnd_a) (?B @ [0]) (config_isn cfg_b rnd_b) w"
      using inv [of ?A "?B @ [0]"] ep_extends_self small by (simp add: ep_extends_def)
    then have "ep_inv ?A (config_isn cfg_a rnd_a) (?B @ [0]) (config_isn cfg_b rnd_b) (nw_a w)" by (simp add: net_inv_def)
    from ep_inv_assembled(3) [OF this ended] a(3) [OF ended] show False by simp
  qed
  moreover have "ep_read (nw_b w) @ bs_buffer (ep_inbound (nw_b w)) = ?A" if "bs_input_ended (ep_inbound (nw_b w))"
    unfolding b(1) b(3) [OF that] by simp
  moreover have "ep_read (nw_a w) @ bs_buffer (ep_inbound (nw_a w)) = ?B" if "bs_input_ended (ep_inbound (nw_a w))"
    unfolding a(1) a(3) [OF that] by simp
  ultimately show ?thesis
    unfolding a(1) b(1) using take_is_prefix by blast
qed

section \<open>Properties\<close>

text \<open>C1: end to end.  Whatever the two applications call and whatever the network loses, duplicates,
  delays or reorders, the bytes an application has read and can read are a prefix of the bytes the
  other one has written, in both directions; and when the inbound stream has ended they are all of them
  and the writer has ended its stream.\<close>

theorem tcp_delivers_prefix:
  assumes reach: "reachable cfg_a rnd_a cfg_b rnd_b w" and cfg: "config_ok cfg_a" "config_ok cfg_b"
    and small: "length (ep_written (nw_a w)) + 3 < 2 ^ 31" "length (ep_written (nw_b w)) + 3 < 2 ^ 31"
  shows "prefix (ep_read (nw_b w) @ bs_buffer (ep_inbound (nw_b w))) (ep_written (nw_a w)) \<and>
    prefix (ep_read (nw_a w) @ bs_buffer (ep_inbound (nw_a w))) (ep_written (nw_b w)) \<and>
    (bs_input_ended (ep_inbound (nw_b w)) \<longrightarrow>
       ep_ended (nw_a w) \<and> ep_read (nw_b w) @ bs_buffer (ep_inbound (nw_b w)) = ep_written (nw_a w)) \<and>
    (bs_input_ended (ep_inbound (nw_a w)) \<longrightarrow>
       ep_ended (nw_b w) \<and> ep_read (nw_a w) @ bs_buffer (ep_inbound (nw_a w)) = ep_written (nw_b w))"
  by (rule reachable_delivers [OF assms])

theorem tcp_delivers_prefix_witness:
  "\<exists>w. reachable ex_cfg 0 ex_cfg 0 w \<and> bs_input_ended (ep_inbound (nw_b w)) \<and> ep_ended (nw_a w)"
proof -
  obtain s where "ex_reach (ex_net (ex_conn ex_rcv s [] False False 10000) (ex_conn ex_rcv ex_sent_out [] True True 0)
      {ex_seg, ex_ack} {ex_seg, ex_ack})" (is "ex_reach ?w") by (rule ex_run)
  moreover have "config_ok ex_cfg" by (simp add: config_ok_def ex_cfg_def W64_def)
  moreover have "bs_input_ended (ep_inbound (nw_b ?w))"
    by (simp add: ex_net_def ex_conn_def ex_rcv_def ByteStream_end_input_def)
  ultimately show ?thesis
    using tcp_delivers_prefix [of ex_cfg 0 ex_cfg 0 ?w] by (intro exI [of _ ?w]) (simp add: ex_net_def)
qed

text \<open>C2: a clean close loses nothing.  When a connection has become inactive and was not reset, its
  application has ended its stream, the peer has received all of it and knows that it has ended, and
  it has itself received all of the peer's stream.\<close>

theorem tcp_clean_close:
  assumes reach: "reachable cfg_a rnd_a cfg_b rnd_b w" and cfg: "config_ok cfg_a" "config_ok cfg_b"
    and small: "length (ep_written (nw_a w)) + 2 < 2 ^ 31" "length (ep_written (nw_b w)) + 2 < 2 ^ 31"
    and closed: "\<not> tc_is_active (ep_conn (nw_a w))" "\<not> bs_error (ts_stream (tc_sender (ep_conn (nw_a w))))"
  shows "ep_ended (nw_a w) \<and> bs_input_ended (ep_inbound (nw_b w)) \<and>
    ep_read (nw_b w) @ bs_buffer (ep_inbound (nw_b w)) = ep_written (nw_a w) \<and>
    bs_input_ended (ep_inbound (nw_a w)) \<and>
    ep_read (nw_a w) @ bs_buffer (ep_inbound (nw_a w)) = ep_written (nw_b w)"
proof -
  let ?A = "ep_written (nw_a w)" and ?B = "ep_written (nw_b w)"
  have inv: "net_inv ?A (config_isn cfg_a rnd_a) ?B (config_isn cfg_b rnd_b) w"
    using reachable_inv [OF reach cfg ep_extends_self ep_extends_self] small by (simp add: net_small_def)
  then have ep: "ep_inv ?A (config_isn cfg_a rnd_a) ?B (config_isn cfg_b rnd_b) (nw_a w)"
      "ep_inv ?B (config_isn cfg_b rnd_b) ?A (config_isn cfg_a rnd_a) (nw_b w)" "ep_una (nw_a w) \<le> ep_ack (nw_b w)"
    by (simp_all add: net_inv_def)
  have dn: "bs_input_ended (ep_inbound (nw_a w))" "ep_una (nw_a w) = length ?A + 2"
    using ep(1) closed by (simp_all add: ep_inv_def tc_inv_def tc_core_def tc_done_def)
  have ts: "ts_inv ?A ?A (tc_sender (ep_conn (nw_a w)))" using ep(1) by (simp add: ep_inv_def tc_inv_def tc_core_def)
  have "ts_fin_flag (tc_sender (ep_conn (nw_a w)))" using ts_una_le(3) [OF ts dn(2)] .
  then have "ep_ended (nw_a w)" using ts unfolding ts_inv_def by blast
  then show ?thesis
    using ep_inv_all_acked [OF ep(2)] ep(3) dn ep_inv_assembled(1,3) [OF ep(1)] by simp
qed

theorem tcp_clean_close_witness:
  "\<exists>w. reachable ex_cfg 0 ex_cfg 0 w \<and> \<not> tc_is_active (ep_conn (nw_a w)) \<and> bs_input_ended (ep_inbound (nw_b w))"
proof -
  obtain s where "ex_reach (ex_net (ex_conn ex_rcv s [] False False 10000) (ex_conn ex_rcv ex_sent_out [] True True 0)
      {ex_seg, ex_ack} {ex_seg, ex_ack})" (is "ex_reach ?w") and s: "\<not> bs_error (ts_stream s)" by (rule ex_run)
  moreover have "config_ok ex_cfg" by (simp add: config_ok_def ex_cfg_def W64_def)
  moreover have "\<not> tc_is_active (ep_conn (nw_a ?w))" "\<not> bs_error (ts_stream (tc_sender (ep_conn (nw_a ?w))))"
    using s by (simp_all add: ex_net_def ex_conn_def)
  moreover have "length (ep_written (nw_a ?w)) + 2 < 2 ^ 31" "length (ep_written (nw_b ?w)) + 2 < 2 ^ 31"
    by (simp_all add: ex_net_def)
  ultimately show ?thesis using tcp_clean_close [of ex_cfg 0 ex_cfg 0 ?w] by blast
qed

text \<open>C5: no segment that can arrive makes a connection fail: every segment on the network is processed
  without exception or failed assertion, in any order and any number of times, whatever its ports and checksum.\<close>

theorem tcp_receives_safely:
  assumes reach: "reachable cfg_a rnd_a cfg_b rnd_b w" and cfg: "config_ok cfg_a" "config_ok cfg_b"
    and small: "length (ep_written (nw_a w)) + 2 < 2 ^ 31" "length (ep_written (nw_b w)) + 2 < 2 ^ 31"
    and seg: "sent \<in> nw_ab w" "same_segment sent seg"
  shows "\<exists>c'. TCPConnection_segment_received (ep_conn (nw_b w)) seg = Inr c'"
proof -
  let ?A = "ep_written (nw_a w)" and ?B = "ep_written (nw_b w)"
  have inv: "net_inv ?A (config_isn cfg_a rnd_a) ?B (config_isn cfg_b rnd_b) w"
    using reachable_inv [OF reach cfg ep_extends_self ep_extends_self] small by (simp add: net_small_def)
  then have "tc_inv ?B ?B (config_isn cfg_b rnd_b) ?A (config_isn cfg_a rnd_a) (length (ep_read (nw_b w))) (ep_conn (nw_b w))"
      "wire_ok ?A (config_isn cfg_a rnd_a) (config_isn cfg_b rnd_b) (ep_ack (nw_a w)) seg"
    using seg wire_ok_same [OF _ seg(2)] by (auto simp: net_inv_def ep_inv_def)
  from segment_received_inv [OF this small(1)] show ?thesis by blast
qed

theorem tcp_receives_safely_witness:
  "\<exists>w seg. reachable ex_cfg 0 ex_cfg 0 w \<and> seg \<in> nw_ab w \<and>
    (\<exists>c'. TCPConnection_segment_received (ep_conn (nw_b w)) seg = Inr c')"
proof -
  obtain s where "ex_reach (ex_net (ex_conn ex_rcv s [] False False 10000) (ex_conn ex_rcv ex_sent_out [] True True 0)
      {ex_seg, ex_ack} {ex_seg, ex_ack})" (is "ex_reach ?w") by (rule ex_run)
  moreover have "config_ok ex_cfg" by (simp add: config_ok_def ex_cfg_def W64_def)
  moreover have "ex_ack \<in> nw_ab ?w" "length (ep_written (nw_a ?w)) + 2 < 2 ^ 31" "length (ep_written (nw_b ?w)) + 2 < 2 ^ 31"
    by (simp_all add: ex_net_def)
  ultimately show ?thesis using tcp_receives_safely [of ex_cfg 0 ex_cfg 0 ?w ex_ack ex_ack] same_segment_refl by blast
qed

end
