(* ===== verification/Descriptors.thy ===== *)
theory Descriptors
  imports Addresses Buffers
begin

text \<open>
  File descriptors and sockets: \<open>file_descriptor.hh/.cc\<close>, \<open>socket.hh/.cc\<close> and \<open>tun.hh/.cc\<close> under
  \<open>src/libsponge/util\<close>, and \<open>SystemCall\<close> of \<open>util.cc\<close>.

  The operating system is the argument \<open>K\<close>: for every system call the code makes, a function from the arguments
  and the state of the system to the returned value, \<open>errno\<close>, what was stored through pointers, and the new
  state.  Every property that relies on a call names what is documented of it.  The object that the handles of a
  descriptor share is an \<open>FDWrapper\<close>; an operation returns it updated.
\<close>

section \<open>System calls\<close>

text \<open>An entry of the array that \<open>poll\<close> takes, and the argument of the \<open>ioctl\<close> on a TUN device.\<close>

record pollfd =
  pfd_fd :: int
  pfd_events :: "16 word"

record ifreq =
  ifr_flags :: "16 word"
  ifr_name :: string

record 'k Kernel =
  k_read :: "int \<Rightarrow> nat \<Rightarrow> 'k \<Rightarrow> int \<times> int \<times> bytes \<times> 'k"
  k_writev :: "int \<Rightarrow> (bytes \<times> nat) list \<Rightarrow> 'k \<Rightarrow> int \<times> int \<times> 'k"
  k_close :: "int \<Rightarrow> 'k \<Rightarrow> int \<times> int \<times> 'k"
  k_fcntl_getfl :: "int \<Rightarrow> 'k \<Rightarrow> int \<times> int \<times> 'k"
  k_fcntl_setfl :: "int \<Rightarrow> 32 word \<Rightarrow> 'k \<Rightarrow> int \<times> int \<times> 'k"
  k_socket :: "int \<Rightarrow> int \<Rightarrow> 'k \<Rightarrow> int \<times> int \<times> 'k"
  k_getsockopt :: "int \<Rightarrow> int \<Rightarrow> 'k \<Rightarrow> int \<times> int \<times> int \<times> nat \<times> 'k"
  k_setsockopt :: "int \<Rightarrow> int \<Rightarrow> int \<Rightarrow> int \<Rightarrow> 'k \<Rightarrow> int \<times> int \<times> 'k"
  k_getsockname :: "int \<Rightarrow> 'k \<Rightarrow> int \<times> int \<times> bytes \<times> nat \<times> 'k"
  k_getpeername :: "int \<Rightarrow> 'k \<Rightarrow> int \<times> int \<times> bytes \<times> nat \<times> 'k"
  k_bind :: "int \<Rightarrow> Address \<Rightarrow> 'k \<Rightarrow> int \<times> int \<times> 'k"
  k_connect :: "int \<Rightarrow> Address \<Rightarrow> 'k \<Rightarrow> int \<times> int \<times> 'k"
  k_shutdown :: "int \<Rightarrow> int \<Rightarrow> 'k \<Rightarrow> int \<times> int \<times> 'k"
  k_recvfrom :: "int \<Rightarrow> nat \<Rightarrow> 'k \<Rightarrow> int \<times> int \<times> bytes \<times> (bytes \<times> nat) \<times> 'k"
  k_sendmsg :: "int \<Rightarrow> Address option \<Rightarrow> (bytes \<times> nat) list \<Rightarrow> 'k \<Rightarrow> int \<times> int \<times> 'k"
  k_listen :: "int \<Rightarrow> int \<Rightarrow> 'k \<Rightarrow> int \<times> int \<times> 'k"
  k_accept :: "int \<Rightarrow> 'k \<Rightarrow> int \<times> int \<times> 'k"
  k_open :: "string \<Rightarrow> 'k \<Rightarrow> int \<times> int \<times> 'k"
  k_ioctl_tunsetiff :: "int \<Rightarrow> ifreq \<Rightarrow> 'k \<Rightarrow> int \<times> int \<times> 'k"
  k_poll :: "pollfd list \<Rightarrow> int \<Rightarrow> 'k \<Rightarrow> int \<times> int \<times> 16 word list \<times> 'k"
  k_socketpair :: "int \<Rightarrow> int \<Rightarrow> 'k \<Rightarrow> int \<times> int \<times> (int \<times> int) \<times> 'k"

text \<open>The returned value is converted to \<open>int\<close> when it is passed.\<close>

definition to_int32 :: "int \<Rightarrow> int" where
  "to_int32 r = signed_take_bit 31 r"

definition SystemCall :: "int \<Rightarrow> int \<Rightarrow> int \<Rightarrow> int result" where
  "SystemCall ret errno errno_mask =
     (let return_value = to_int32 ret
      in if return_value \<ge> 0 \<or> errno = errno_mask then Inr return_value else Inl System_Error)"

section \<open>FileDescriptor\<close>

record FDWrapper =
  fd_num :: int
  fd_eof :: bool
  fd_closed :: bool
  fd_read_count :: "32 word"
  fd_write_count :: "32 word"

definition FDWrapper_new :: "int \<Rightarrow> FDWrapper result" where
  "FDWrapper_new fd =
     (if fd < 0 then Inl Runtime_Error
      else Inr \<lparr>fd_num = fd, fd_eof = False, fd_closed = False, fd_read_count = 0, fd_write_count = 0\<rparr>)"

definition FDWrapper_close :: "'k Kernel \<Rightarrow> FDWrapper \<Rightarrow> 'k \<Rightarrow> (FDWrapper \<times> 'k) result" where
  "FDWrapper_close K w k =
     (let (r, errno, k) = k_close K (fd_num w) k
      in bind_result (SystemCall r errno 0) (\<lambda>_. Inr (w\<lparr>fd_eof := True, fd_closed := True\<rparr>, k)))"

text \<open>The destructor catches the exception.\<close>

definition FDWrapper_destroy :: "'k Kernel \<Rightarrow> FDWrapper \<Rightarrow> 'k \<Rightarrow> 'k" where
  "FDWrapper_destroy K w k = (if fd_closed w then k else let (r, errno, k) = k_close K (fd_num w) k in k)"

definition register_read :: "FDWrapper \<Rightarrow> FDWrapper" where
  "register_read w = w\<lparr>fd_read_count := fd_read_count w + 1\<rparr>"

definition register_write :: "FDWrapper \<Rightarrow> FDWrapper" where
  "register_write w = w\<lparr>fd_write_count := fd_write_count w + 1\<rparr>"

text \<open>\<open>resize\<close> with a signed argument: a negative number is a size beyond the maximum.\<close>

definition string_resize_signed :: "bytes \<Rightarrow> int \<Rightarrow> bytes result" where
  "string_resize_signed s n = (if n < 0 then Inl Length_Error else Inr (string_resize s (nat n)))"

definition FileDescriptor_read :: "'k Kernel \<Rightarrow> nat \<Rightarrow> FDWrapper \<Rightarrow> 'k \<Rightarrow> (bytes \<times> FDWrapper \<times> 'k) result" where
  "FileDescriptor_read K limit w k =
     (let size_to_read = min (1024 * 1024) limit;
          (r, errno, buf, k) = k_read K (fd_num w) size_to_read k;
          str = string_resize buf size_to_read
      in bind_result (SystemCall r errno 0) (\<lambda>bytes_read.
         let w = (if limit > 0 \<and> bytes_read = 0 then w\<lparr>fd_eof := True\<rparr> else w)
         in if bytes_read > to_ssize size_to_read then Inl Runtime_Error
            else bind_result (string_resize_signed str bytes_read) (\<lambda>str.
                 Inr (str, register_read w, k))))"

lemma to_int32_range: "- (2 ^ 31) \<le> to_int32 r" "to_int32 r < 2 ^ 31"
  using signed_take_bit_int_greater_eq_minus_exp [of 31 r] signed_take_bit_int_less_exp [of 31 r] by (simp_all add: to_int32_def)

lemma to_int32_id: "- (2 ^ 31) \<le> r \<Longrightarrow> r < 2 ^ 31 \<Longrightarrow> to_int32 r = r"
  by (simp add: to_int32_def signed_take_bit_int_eq_self)

lemma SystemCall_Inr: "SystemCall r errno m = Inr x \<Longrightarrow> x = to_int32 r"
  by (auto simp: SystemCall_def Let_def split: if_splits)

lemma of_ssize_to_int32: "of_ssize (to_int32 r) = (if to_int32 r < 0 then W64 - nat (- to_int32 r) else nat (to_int32 r))"
proof (cases "to_int32 r < 0")
  case True
  have "to_int32 r mod int W64 = (to_int32 r + int W64) mod int W64" by simp
  also have "\<dots> = to_int32 r + int W64" using True to_int32_range [of r] by (intro mod_pos_pos_trivial) (simp_all add: W64_def)
  finally have "of_ssize (to_int32 r) = nat (to_int32 r + int W64)" by (simp add: of_ssize_def)
  then show ?thesis using True to_int32_range(1) [of r] by (simp add: W64_def)
next
  case False
  then show ?thesis using to_int32_range [of r] by (simp add: of_ssize_def W64_def mod_pos_pos_trivial)
qed

lemma of_ssize_to_int32_0: "of_ssize (to_int32 r) = 0 \<longleftrightarrow> to_int32 r = 0"
  using to_int32_range [of r] by (auto simp: of_ssize_to_int32 W64_def)

declare bind_result_cong [fundef_cong]

function write_loop ::
  "'k Kernel \<Rightarrow> bool \<Rightarrow> BufferViewList \<Rightarrow> nat \<Rightarrow> FDWrapper \<Rightarrow> 'k \<Rightarrow> (nat \<times> FDWrapper \<times> 'k) result" where
  "write_loop K write_all buffer total_bytes_written w k =
     (let (r, errno, k) = k_writev K (fd_num w) (BufferViewList_as_iovecs buffer) k
      in bind_result (SystemCall r errno 0) (\<lambda>bytes_written.
         if bytes_written = 0 \<and> BufferViewList_size buffer \<noteq> 0 then Inl Runtime_Error
         else if bytes_written > to_ssize (BufferViewList_size buffer) then Inl Runtime_Error
         else let w = register_write w
              in bind_result (BufferViewList_remove_prefix buffer (of_ssize bytes_written)) (\<lambda>buffer'.
                 let total_bytes_written = u64_add total_bytes_written (of_ssize bytes_written)
                 in if write_all \<and> BufferViewList_size buffer' \<noteq> 0
                    then write_loop K write_all buffer' total_bytes_written w k
                    else Inr (total_bytes_written, w, k))))"
  by pat_completeness auto

termination
proof (relation "measure (\<lambda>(K, write_all, buffer, n, w, k). length (concat buffer))", goal_cases)
  case (2 K write_all buffer n w k p r q errno k' x w' buffer' m)
  have x: "x = to_int32 r" using SystemCall_Inr 2(4) by blast
  have l: "of_ssize x \<le> length (concat buffer)" "concat buffer' = drop (of_ssize x) (concat buffer)"
    using bv.remove_prefix_Inr [OF _ 2(8)] by simp_all
  have "of_ssize x \<noteq> 0"
  proof
    assume "of_ssize x = 0"
    then have "x = 0" "concat buffer' = concat buffer" using x of_ssize_to_int32_0 [of r] l(2) by auto
    then show False using 2(5,10) by (simp add: BufferViewList_size_eq)
  qed
  then show ?case using l by simp
qed simp

declare write_loop.simps [simp del]

definition FileDescriptor_write ::
  "'k Kernel \<Rightarrow> BufferViewList \<Rightarrow> bool \<Rightarrow> FDWrapper \<Rightarrow> 'k \<Rightarrow> (nat \<times> FDWrapper \<times> 'k) result" where
  "FileDescriptor_write K buffer write_all w k = write_loop K write_all buffer 0 w k"

definition O_NONBLOCK :: "32 word" where
  "O_NONBLOCK = 0x800"

definition FileDescriptor_set_blocking :: "'k Kernel \<Rightarrow> bool \<Rightarrow> FDWrapper \<Rightarrow> 'k \<Rightarrow> 'k result" where
  "FileDescriptor_set_blocking K blocking_state w k =
     (let (r, errno, k) = k_fcntl_getfl K (fd_num w) k
      in bind_result (SystemCall r errno 0) (\<lambda>ret.
         let flags = of_int ret :: 32 word;
             flags = (if blocking_state then xor flags (and flags O_NONBLOCK) else or flags O_NONBLOCK);
             (r, errno, k) = k_fcntl_setfl K (fd_num w) flags k
         in bind_result (SystemCall r errno 0) (\<lambda>_. Inr k)))"

section \<open>Socket\<close>

text \<open>\<open>AF_UNIX\<close>, \<open>AF_INET\<close>, \<open>SOCK_STREAM\<close>, \<open>SOCK_DGRAM\<close>, and the options and ways of the calls.\<close>

definition AF_UNIX_int :: int where "AF_UNIX_int = 1"
definition AF_INET_int :: int where "AF_INET_int = 2"
definition SOCK_STREAM :: int where "SOCK_STREAM = 1"
definition SOCK_DGRAM :: int where "SOCK_DGRAM = 2"
definition SO_DOMAIN :: int where "SO_DOMAIN = 39"
definition SO_TYPE :: int where "SO_TYPE = 3"
definition SOL_SOCKET :: int where "SOL_SOCKET = 1"
definition SO_REUSEADDR :: int where "SO_REUSEADDR = 2"
definition SHUT_RD :: int where "SHUT_RD = 0"
definition SHUT_WR :: int where "SHUT_WR = 1"
definition SHUT_RDWR :: int where "SHUT_RDWR = 2"

definition Socket_new :: "'k Kernel \<Rightarrow> int \<Rightarrow> int \<Rightarrow> 'k \<Rightarrow> (FDWrapper \<times> 'k) result" where
  "Socket_new K domain ty k =
     (let (r, errno, k) = k_socket K domain ty k
      in bind_result (SystemCall r errno 0) (\<lambda>fd. bind_result (FDWrapper_new fd) (\<lambda>w. Inr (w, k))))"

definition verify_option :: "'k Kernel \<Rightarrow> int \<Rightarrow> int \<Rightarrow> FDWrapper \<Rightarrow> 'k \<Rightarrow> 'k result" where
  "verify_option K option expected w k =
     (let (r, errno, actual_value, len, k) = k_getsockopt K (fd_num w) option k
      in bind_result (SystemCall r errno 0) (\<lambda>_.
         if len \<noteq> 4 \<or> actual_value \<noteq> expected then Inl Runtime_Error else Inr k))"

definition Socket_of_fd :: "'k Kernel \<Rightarrow> FDWrapper \<Rightarrow> int \<Rightarrow> int \<Rightarrow> 'k \<Rightarrow> 'k result" where
  "Socket_of_fd K w domain ty k = bind_result (verify_option K SO_DOMAIN domain w k) (verify_option K SO_TYPE ty w)"

definition Socket_get_address ::
  "(int \<Rightarrow> 'k \<Rightarrow> int \<times> int \<times> bytes \<times> nat \<times> 'k) \<Rightarrow> FDWrapper \<Rightarrow> 'k \<Rightarrow> (Address \<times> 'k) result" where
  "Socket_get_address f w k =
     (let (r, errno, address, size, k) = f (fd_num w) k
      in bind_result (SystemCall r errno 0) (\<lambda>_. bind_result (Address_of_sockaddr address size) (\<lambda>a. Inr (a, k))))"

definition Socket_local_address :: "'k Kernel \<Rightarrow> FDWrapper \<Rightarrow> 'k \<Rightarrow> (Address \<times> 'k) result" where
  "Socket_local_address K = Socket_get_address (k_getsockname K)"

definition Socket_peer_address :: "'k Kernel \<Rightarrow> FDWrapper \<Rightarrow> 'k \<Rightarrow> (Address \<times> 'k) result" where
  "Socket_peer_address K = Socket_get_address (k_getpeername K)"

definition Socket_bind :: "'k Kernel \<Rightarrow> Address \<Rightarrow> FDWrapper \<Rightarrow> 'k \<Rightarrow> 'k result" where
  "Socket_bind K address w k =
     (let (r, errno, k) = k_bind K (fd_num w) address k in bind_result (SystemCall r errno 0) (\<lambda>_. Inr k))"

definition Socket_connect :: "'k Kernel \<Rightarrow> Address \<Rightarrow> FDWrapper \<Rightarrow> 'k \<Rightarrow> 'k result" where
  "Socket_connect K address w k =
     (let (r, errno, k) = k_connect K (fd_num w) address k in bind_result (SystemCall r errno 0) (\<lambda>_. Inr k))"

definition Socket_shutdown :: "'k Kernel \<Rightarrow> int \<Rightarrow> FDWrapper \<Rightarrow> 'k \<Rightarrow> (FDWrapper \<times> 'k) result" where
  "Socket_shutdown K how w k =
     (let (r, errno, k) = k_shutdown K (fd_num w) how k
      in bind_result (SystemCall r errno 0) (\<lambda>_.
         if how = SHUT_RD then Inr (register_read w, k)
         else if how = SHUT_WR then Inr (register_write w, k)
         else if how = SHUT_RDWR then Inr (register_write (register_read w), k)
         else Inl Runtime_Error))"

definition Socket_set_reuseaddr :: "'k Kernel \<Rightarrow> FDWrapper \<Rightarrow> 'k \<Rightarrow> 'k result" where
  "Socket_set_reuseaddr K w k =
     (let (r, errno, k) = k_setsockopt K (fd_num w) SOL_SOCKET SO_REUSEADDR 1 k
      in bind_result (SystemCall r errno 0) (\<lambda>_. Inr k))"

definition UDPSocket_recv :: "'k Kernel \<Rightarrow> nat \<Rightarrow> FDWrapper \<Rightarrow> 'k \<Rightarrow> ((Address \<times> bytes) \<times> FDWrapper \<times> 'k) result" where
  "UDPSocket_recv K mtu w k =
     (let (r, errno, buf, (address, fromlen), k) = k_recvfrom K (fd_num w) mtu k;
          payload = string_resize buf mtu
      in bind_result (SystemCall r errno 0) (\<lambda>recv_len.
         if recv_len > to_ssize mtu then Inl Runtime_Error
         else bind_result (Address_of_sockaddr address fromlen) (\<lambda>source_address.
              bind_result (string_resize_signed payload recv_len) (\<lambda>payload.
              Inr ((source_address, payload), register_read w, k)))))"

definition sendmsg_helper :: "'k Kernel \<Rightarrow> int \<Rightarrow> Address option \<Rightarrow> BufferViewList \<Rightarrow> 'k \<Rightarrow> 'k result" where
  "sendmsg_helper K fd destination_address payload k =
     (let (r, errno, k) = k_sendmsg K fd destination_address (BufferViewList_as_iovecs payload) k
      in bind_result (SystemCall r errno 0) (\<lambda>bytes_sent.
         if of_ssize bytes_sent \<noteq> BufferViewList_size payload then Inl Runtime_Error else Inr k))"

definition UDPSocket_sendto :: "'k Kernel \<Rightarrow> Address \<Rightarrow> BufferViewList \<Rightarrow> FDWrapper \<Rightarrow> 'k \<Rightarrow> (FDWrapper \<times> 'k) result" where
  "UDPSocket_sendto K destination payload w k =
     bind_result (sendmsg_helper K (fd_num w) (Some destination) payload k) (\<lambda>k. Inr (register_write w, k))"

definition UDPSocket_send :: "'k Kernel \<Rightarrow> BufferViewList \<Rightarrow> FDWrapper \<Rightarrow> 'k \<Rightarrow> (FDWrapper \<times> 'k) result" where
  "UDPSocket_send K payload w k =
     bind_result (sendmsg_helper K (fd_num w) None payload k) (\<lambda>k. Inr (register_write w, k))"

definition TCPSocket_listen :: "'k Kernel \<Rightarrow> int \<Rightarrow> FDWrapper \<Rightarrow> 'k \<Rightarrow> 'k result" where
  "TCPSocket_listen K backlog w k =
     (let (r, errno, k) = k_listen K (fd_num w) backlog k in bind_result (SystemCall r errno 0) (\<lambda>_. Inr k))"

text \<open>The descriptor of the new connection, and the listening one.\<close>

definition TCPSocket_accept :: "'k Kernel \<Rightarrow> FDWrapper \<Rightarrow> 'k \<Rightarrow> (FDWrapper \<times> FDWrapper \<times> 'k) result" where
  "TCPSocket_accept K w k =
     (let w = register_read w;
          (r, errno, k) = k_accept K (fd_num w) k
      in bind_result (SystemCall r errno 0) (\<lambda>fd.
         bind_result (FDWrapper_new fd) (\<lambda>new.
         bind_result (Socket_of_fd K new AF_INET_int SOCK_STREAM k) (\<lambda>k. Inr (new, w, k)))))"

section \<open>TUN and TAP devices\<close>

text \<open>\<open>strncpy\<close> copies up to 15 characters of the name; the array is zero behind them.\<close>

definition TunTapFD_new :: "'k Kernel \<Rightarrow> string \<Rightarrow> bool \<Rightarrow> 'k \<Rightarrow> (FDWrapper \<times> 'k) result" where
  "TunTapFD_new K devname is_tun k =
     (let (r, errno, k) = k_open K ''/dev/net/tun'' k
      in bind_result (SystemCall r errno 0) (\<lambda>fd.
         bind_result (FDWrapper_new fd) (\<lambda>w.
         let tun_req = \<lparr>ifr_flags = or (if is_tun then 1 else 2) 0x1000, ifr_name = take 15 (takeWhile (\<lambda>c. c \<noteq> CHR 0x00) devname)\<rparr>;
             (r, errno, k) = k_ioctl_tunsetiff K (fd_num w) tun_req k
         in bind_result (SystemCall r errno 0) (\<lambda>_. Inr (w, k)))))"

section \<open>What the operating system promises\<close>

text \<open>\<open>out\<close> and \<open>inp\<close> observe the bytes that have passed through each descriptor.  A call that transfers bytes
  reports how many, at most \<open>0x7ffff000\<close>; one that fails transfers none and sets \<open>errno\<close>.\<close>

definition iovec_bytes :: "(bytes \<times> nat) list \<Rightarrow> bytes" where
  "iovec_bytes iovs = concat (map (\<lambda>(base, len). take len base) iovs)"

definition writev_ok :: "'k Kernel \<Rightarrow> ('k \<Rightarrow> int \<Rightarrow> bytes) \<Rightarrow> bool" where
  "writev_ok K out \<longleftrightarrow> (\<forall>fd iovs k. case k_writev K fd iovs k of (r, errno, k') \<Rightarrow>
     if 0 \<le> r then r \<le> int (length (iovec_bytes iovs)) \<and> r \<le> 0x7ffff000 \<and>
       out k' = (out k)(fd := out k fd @ take (nat r) (iovec_bytes iovs))
     else r = - 1 \<and> errno > 0 \<and> out k' = out k)"

definition writev_succeeds :: "'k Kernel \<Rightarrow> bool" where
  "writev_succeeds K \<longleftrightarrow> (\<forall>fd iovs k. 0 \<le> fst (k_writev K fd iovs k) \<and> (iovec_bytes iovs \<noteq> [] \<longrightarrow> 0 < fst (k_writev K fd iovs k)))"

definition read_ok :: "'k Kernel \<Rightarrow> ('k \<Rightarrow> int \<Rightarrow> bytes) \<Rightarrow> bool" where
  "read_ok K inp \<longleftrightarrow> (\<forall>fd n k. case k_read K fd n k of (r, errno, buf, k') \<Rightarrow>
     if 0 \<le> r then r \<le> int n \<and> r \<le> 0x7ffff000 \<and> nat r \<le> length buf \<and>
       inp k' = (inp k)(fd := inp k fd @ take (nat r) buf)
     else r = - 1 \<and> errno > 0 \<and> inp k' = inp k)"

lemma iovec_bytes_as_iovecs [simp]: "iovec_bytes (BufferViewList_as_iovecs l) = concat l"
  by (simp add: iovec_bytes_def BufferViewList_as_iovecs_def comp_def)

lemma SystemCall_small: "0 \<le> r \<Longrightarrow> r \<le> 0x7ffff000 \<Longrightarrow> SystemCall r errno m = Inr r"
  by (simp add: SystemCall_def to_int32_id)

lemma SystemCall_failed: "errno > 0 \<Longrightarrow> SystemCall (- 1) errno 0 = Inl System_Error"
  by (simp add: SystemCall_def to_int32_id)

lemma to_ssize_id: "n < 2 ^ 63 \<Longrightarrow> to_ssize n = int n"
  by (simp add: to_ssize_def)

lemma of_ssize_id: "0 \<le> r \<Longrightarrow> r < int W64 \<Longrightarrow> of_ssize r = nat r"
  by (simp add: of_ssize_def)

lemma BufferViewList_size_small: "length (concat l) < 2 ^ 63 \<Longrightarrow> BufferViewList_size l = length (concat l)"
  by (simp add: BufferViewList_size_eq u64_id W64_def)

lemma writev_okD:
  assumes "writev_ok K out" "k_writev K fd iovs k = (r, errno, k')"
  shows "if 0 \<le> r then r \<le> int (length (iovec_bytes iovs)) \<and> r \<le> 0x7ffff000 \<and>
       out k' = (out k)(fd := out k fd @ take (nat r) (iovec_bytes iovs))
     else r = - 1 \<and> errno > 0 \<and> out k' = out k"
  using assms(1) [unfolded writev_ok_def, THEN spec [of _ fd], THEN spec [of _ iovs], THEN spec [of _ k]] by (simp add: assms(2))

lemma read_okD:
  assumes "read_ok K inp" "k_read K fd n k = (r, errno, buf, k')"
  shows "if 0 \<le> r then r \<le> int n \<and> r \<le> 0x7ffff000 \<and> nat r \<le> length buf \<and>
       inp k' = (inp k)(fd := inp k fd @ take (nat r) buf)
     else r = - 1 \<and> errno > 0 \<and> inp k' = inp k"
  using assms(1) [unfolded read_ok_def, THEN spec [of _ fd], THEN spec [of _ n], THEN spec [of _ k]] by (simp add: assms(2))

lemma writev_succeedsD:
  assumes "writev_succeeds K" "k_writev K fd iovs k = (r, errno, k')"
  shows "0 \<le> r" "iovec_bytes iovs \<noteq> [] \<Longrightarrow> 0 < r"
  using assms(1) [unfolded writev_succeeds_def, THEN spec [of _ fd], THEN spec [of _ iovs], THEN spec [of _ k]] by (simp_all add: assms(2))

text \<open>One round of the loop.\<close>

lemma write_loop_round:
  assumes "writev_ok K out" "length (concat buffer) < 2 ^ 63"
  obtains (failed) e where "write_loop K write_all buffer n w k = Inl e"
      "\<not> writev_succeeds K"
  | (sent) m buffer' k' where "m \<le> length (concat buffer)" "concat buffer \<noteq> [] \<Longrightarrow> 0 < m" "m < 2 ^ 31"
      "concat buffer' = drop m (concat buffer)"
      "out k' = (out k)(fd_num w := out k (fd_num w) @ take m (concat buffer))"
      "write_loop K write_all buffer n w k =
         (if write_all \<and> concat buffer' \<noteq> [] then write_loop K write_all buffer' (u64_add n m) (register_write w) k'
          else Inr (u64_add n m, register_write w, k'))"
proof -
  obtain r errno k' where call: "k_writev K (fd_num w) (BufferViewList_as_iovecs buffer) k = (r, errno, k')"
    by (cases "k_writev K (fd_num w) (BufferViewList_as_iovecs buffer) k") auto
  have ok: "if 0 \<le> r then r \<le> int (length (concat buffer)) \<and> r \<le> 0x7ffff000 \<and>
       out k' = (out k)(fd_num w := out k (fd_num w) @ take (nat r) (concat buffer))
     else r = - 1 \<and> errno > 0 \<and> out k' = out k"
    using writev_okD [OF assms(1) call] unfolding iovec_bytes_as_iovecs .
  note size = BufferViewList_size_small [OF assms(2)] to_ssize_id [OF assms(2)]
  show thesis
  proof (cases "0 \<le> r \<and> (r = 0 \<longrightarrow> concat buffer = [])")
    case False
    then have "write_loop K write_all buffer n w k = Inl (if 0 \<le> r then Runtime_Error else System_Error)"
      using ok call size by (auto simp: write_loop.simps [of K write_all buffer] SystemCall_small SystemCall_failed split: if_splits)
    moreover have "\<not> writev_succeeds K" using writev_succeedsD [OF _ call] False by auto
    ultimately show thesis by (rule failed)
  next
    case True
    then have r: "0 \<le> r" "r \<le> 0x7ffff000" "nat r \<le> length (concat buffer)" "r \<le> int (length (concat buffer))"
      "out k' = (out k)(fd_num w := out k (fd_num w) @ take (nat r) (concat buffer))"
      using ok by auto
    then obtain buffer' where b: "BufferViewList_remove_prefix buffer (nat r) = Inr buffer'" "concat buffer' = drop (nat r) (concat buffer)"
      using bv.remove_prefix_drops [where b = buffer and n = "nat r"] by auto
    have "length (concat buffer') < 2 ^ 63" using assms(2) by (simp add: b(2))
    note size' = BufferViewList_size_small [OF this]
    have "of_ssize r = nat r" using r(1,2) by (intro of_ssize_id) (simp_all add: W64_def)
    then have "write_loop K write_all buffer n w k =
         (if write_all \<and> concat buffer' \<noteq> [] then write_loop K write_all buffer' (u64_add n (nat r)) (register_write w) k'
          else Inr (u64_add n (nat r), register_write w, k'))"
      using r True call size size' b(1) by (auto simp: write_loop.simps [of K write_all buffer] SystemCall_small)
    then show thesis using sent [of "nat r" buffer' k'] r b(2) True by auto
  qed
qed

lemma write_loop_Inr:
  assumes "writev_ok K out" "length (concat buffer) < 2 ^ 63" "n + length (concat buffer) < W64"
    "write_loop K write_all buffer n w k = Inr (n', w', k')"
  shows "\<exists>m \<le> length (concat buffer). n' = n + m \<and> (concat buffer \<noteq> [] \<longrightarrow> 0 < m) \<and> (write_all \<longrightarrow> m = length (concat buffer)) \<and>
    out k' = (out k)(fd_num w := out k (fd_num w) @ take m (concat buffer)) \<and>
    w' = w\<lparr>fd_write_count := fd_write_count w'\<rparr> \<and> (\<not> write_all \<longrightarrow> w' = register_write w)"
  using assms(2-4)
proof (induction "length (concat buffer)" arbitrary: buffer n w k rule: less_induct)
  case less
  show ?case
    using assms(1) less(2)
  proof (cases rule: write_loop_round [where write_all = write_all and n = n and w = w and k = k])
    case (failed e)
    then show ?thesis using less(4) by simp
  next
    case (sent m buffer' k1)
    have add: "u64_add n m = n + m" using sent(1) less(3) by (intro u64_add_exact) simp
    show ?thesis
    proof (cases "write_all \<and> concat buffer' \<noteq> []")
      case True
      then have "concat buffer \<noteq> []" using sent(4) by (cases "concat buffer = []") simp_all
      then have pos: "0 < m" by (rule sent(2))
      have "write_loop K write_all buffer' (n + m) (register_write w) k1 = Inr (n', w', k')"
        using less(4) sent(6) True add by simp
      from less(1) [OF _ _ _ this] pos sent(1,4) less(2,3) True
      obtain j where j: "j \<le> length (concat buffer) - m" "n' = n + m + j" "j = length (concat buffer) - m"
        "out k' = (out k1)(fd_num w := out k1 (fd_num w) @ take j (drop m (concat buffer)))"
        "w' = (register_write w)\<lparr>fd_write_count := fd_write_count w'\<rparr>"
        by (force simp: register_write_def)
      have "n' = n + length (concat buffer)" using j(2,3) sent(1) by simp
      moreover have "out k' = (out k)(fd_num w := out k (fd_num w) @ concat buffer)"
        using j(3,4) sent(5) by (simp add: append_take_drop_id)
      moreover have "w' = w\<lparr>fd_write_count := fd_write_count w'\<rparr>" using j(5) by (simp add: register_write_def)
      ultimately show ?thesis using True pos sent(1) by (intro exI [of _ "length (concat buffer)"]) auto
    next
      case False
      have "n' = n + m" "w' = register_write w" "k' = k1"
        using less(4) sent(6) [unfolded if_not_P [OF False]] add by simp_all
      moreover have "write_all \<longrightarrow> m = length (concat buffer)" using False sent(1,4) by (simp del: concat_eq_Nil_conv)
      ultimately show ?thesis using sent(1,2,5) by (intro exI [of _ m]) (simp add: register_write_def)
    qed
  qed
qed

lemma write_loop_succeeds:
  assumes "writev_ok K out" "writev_succeeds K" "length (concat buffer) < 2 ^ 63"
  shows "\<exists>x. write_loop K write_all buffer n w k = Inr x"
  using assms(3)
proof (induction "length (concat buffer)" arbitrary: buffer n w k rule: less_induct)
  case less
  show ?case
    using assms(1) less(2)
  proof (cases rule: write_loop_round [where write_all = write_all and n = n and w = w and k = k])
    case (failed e)
    then show ?thesis using assms(2) by simp
  next
    case (sent m buffer' k1)
    have "\<exists>x. write_loop K write_all buffer' (u64_add n m) (register_write w) k1 = Inr x" if "concat buffer' \<noteq> []"
    proof -
      have "concat buffer \<noteq> []" using that sent(4) by (cases "concat buffer = []") simp_all
      then show ?thesis using sent(1,4) sent(2) less(2) by (intro less(1)) simp_all
    qed
    then show ?thesis using sent(6) by (cases "write_all \<and> concat buffer' \<noteq> []") auto
  qed
qed

lemma FileDescriptor_read_Inr:
  assumes "read_ok K inp" "FileDescriptor_read K limit w k = Inr (str, w', k')"
  shows "length str \<le> min (1024 * 1024) limit \<and> inp k' = (inp k)(fd_num w := inp k (fd_num w) @ str) \<and>
    w' = register_read (w\<lparr>fd_eof := (fd_eof w \<or> (limit > 0 \<and> str = []))\<rparr>)"
proof -
  let ?n = "min 1048576 limit"
  obtain r errno buf k1 where call: "k_read K (fd_num w) ?n k = (r, errno, buf, k1)"
    by (cases "k_read K (fd_num w) ?n k") auto
  note ok = read_okD [OF assms(1) call]
  have r: "0 \<le> r"
    using ok assms(2) by (auto simp: FileDescriptor_read_def call Let_def SystemCall_failed split: if_splits)
  then have r: "0 \<le> r" "r \<le> int ?n" "r \<le> 0x7ffff000" "nat r \<le> length buf" "inp k1 = (inp k)(fd_num w := inp k (fd_num w) @ take (nat r) buf)"
    using ok by simp_all
  have "nat r \<le> ?n" using r(2) by linarith
  then have "take (nat r) (string_resize buf ?n) = take (nat r) buf" "to_ssize ?n = int ?n"
    using r(4) by (simp_all add: string_resize_def to_ssize_def min_absorb1 min_less_iff_disj)
  then have res: "str = take (nat r) buf \<and> k' = k1 \<and> w' = register_read (if limit > 0 \<and> r = 0 then w\<lparr>fd_eof := True\<rparr> else w)"
    using assms(2) r by (auto simp: FileDescriptor_read_def call Let_def SystemCall_small string_resize_signed_def string_resize_def)
  then have "str = [] \<longleftrightarrow> r = 0" using r by auto
  moreover have "w\<lparr>fd_eof := fd_eof w\<rparr> = w" by (cases w) simp
  ultimately show ?thesis using r res \<open>nat r \<le> ?n\<close> by (cases "limit > 0 \<and> r = 0") (auto simp: min_def split: if_splits)
qed

section \<open>Properties\<close>

text \<open>C28: \<open>FileDescriptor::write\<close> sends the bytes of the buffers in order: with the documented behaviour of \<open>writev\<close>
  it reports exactly the number of bytes that have reached the descriptor, at least one unless there are none, and
  with \<open>write_all\<close> all of them, however the system cuts them into pieces; and it returns when no call fails.\<close>

theorem FileDescriptor_write_correct:
  assumes "writev_ok K out" "length (concat buffer) < 2 ^ 63"
  shows "(\<forall>n w' k'. FileDescriptor_write K buffer write_all w k = Inr (n, w', k') \<longrightarrow>
      n \<le> length (concat buffer) \<and> (concat buffer \<noteq> [] \<longrightarrow> 0 < n) \<and> (write_all \<longrightarrow> n = length (concat buffer)) \<and>
      out k' = (out k)(fd_num w := out k (fd_num w) @ take n (concat buffer)) \<and> w' = w\<lparr>fd_write_count := fd_write_count w'\<rparr>) \<and>
    (writev_succeeds K \<longrightarrow> (\<exists>n w' k'. FileDescriptor_write K buffer write_all w k = Inr (n, w', k')))"
proof -
  have "0 + length (concat buffer) < W64" using assms(2) by (simp add: W64_def)
  from write_loop_Inr [OF assms this, of write_all w k]
  have "\<forall>n w' k'. FileDescriptor_write K buffer write_all w k = Inr (n, w', k') \<longrightarrow>
      n \<le> length (concat buffer) \<and> (concat buffer \<noteq> [] \<longrightarrow> 0 < n) \<and> (write_all \<longrightarrow> n = length (concat buffer)) \<and>
      out k' = (out k)(fd_num w := out k (fd_num w) @ take n (concat buffer)) \<and> w' = w\<lparr>fd_write_count := fd_write_count w'\<rparr>"
    unfolding FileDescriptor_write_def by auto
  moreover have "\<exists>n w' k'. FileDescriptor_write K buffer write_all w k = Inr (n, w', k')" if "writev_succeeds K"
    using write_loop_succeeds [OF assms(1) that assms(2), of write_all 0 w k] unfolding FileDescriptor_write_def by auto
  ultimately show ?thesis by blast
qed

text \<open>A system whose state is the bytes that have been read from and written to each descriptor; it takes at most
  three bytes at a time, and every descriptor can deliver the byte 7 once more.\<close>

definition ex_kernel :: "((int \<Rightarrow> bytes) \<times> (int \<Rightarrow> bytes)) Kernel" where
  "ex_kernel = \<lparr>k_read = \<lambda>fd n (i, out). (min 1 (int n), 0, [7], i(fd := i fd @ take n [7]), out),
     k_writev = \<lambda>fd iovs (i, out). (int (min 3 (length (iovec_bytes iovs))), 0, i, out(fd := out fd @ take 3 (iovec_bytes iovs))),
     k_close = \<lambda>fd k. (0, 0, k), k_fcntl_getfl = \<lambda>fd k. (0, 0, k), k_fcntl_setfl = \<lambda>fd flags k. (0, 0, k),
     k_socket = \<lambda>domain ty k. (3, 0, k), k_getsockopt = \<lambda>fd option k. (0, 0, 1, 4, k), k_setsockopt = \<lambda>fd level option v k. (0, 0, k),
     k_getsockname = \<lambda>fd k. (0, 0, [], 0, k), k_getpeername = \<lambda>fd k. (0, 0, [], 0, k), k_bind = \<lambda>fd a k. (0, 0, k),
     k_connect = \<lambda>fd a k. (0, 0, k), k_shutdown = \<lambda>fd how k. (0, 0, k), k_recvfrom = \<lambda>fd n k. (0, 0, [], ([], 0), k),
     k_sendmsg = \<lambda>fd a iovs k. (int (length (iovec_bytes iovs)), 0, k), k_listen = \<lambda>fd n k. (0, 0, k),
     k_accept = \<lambda>fd k. (4, 0, k), k_open = \<lambda>name k. (5, 0, k), k_ioctl_tunsetiff = \<lambda>fd req k. (0, 0, k),
     k_poll = \<lambda>fds t k. (int (length fds), 0, map pfd_events fds, k), k_socketpair = \<lambda>domain ty k. (0, 0, (6, 7), k)\<rparr>"

lemma ex_kernel_ok: "writev_ok ex_kernel snd" "read_ok ex_kernel fst"
  by (auto simp: writev_ok_def read_ok_def ex_kernel_def min_def)

lemma ex_kernel_succeeds: "writev_succeeds ex_kernel"
  by (auto simp: writev_succeeds_def ex_kernel_def)

definition ex_fd :: "int \<Rightarrow> FDWrapper" where
  "ex_fd n = \<lparr>fd_num = n, fd_eof = False, fd_closed = False, fd_read_count = 0, fd_write_count = 0\<rparr>"

theorem FileDescriptor_write_correct_witness:
  "\<exists>w' k'. FileDescriptor_write ex_kernel [[1, 2], [3, 4, 5, 6]] True (ex_fd 1) (\<lambda>_. [], \<lambda>_. []) = Inr (6, w', k') \<and>
    snd k' 1 = [1, 2, 3, 4, 5, 6]"
proof -
  have len: "length (concat [[1, 2], [3, 4, 5, 6 :: byte]]) < 2 ^ 63" by simp
  note c = FileDescriptor_write_correct [OF ex_kernel_ok(1) len, of True "ex_fd 1" "(\<lambda>_. [], \<lambda>_. [])"]
  obtain n w' k' where r: "FileDescriptor_write ex_kernel [[1, 2], [3, 4, 5, 6]] True (ex_fd 1) (\<lambda>_. [], \<lambda>_. []) = Inr (n, w', k')"
    using c ex_kernel_succeeds by blast
  have "n = 6" "snd k' 1 = [1, 2, 3, 4, 5, 6]" using c [THEN conjunct1, rule_format, OF r] by (simp_all add: ex_fd_def)
  then show ?thesis using r by blast
qed

text \<open>\<open>FileDescriptor::read\<close> returns the bytes the system delivers, no more than were asked for and than fit in
  the buffer, and sets \<open>eof\<close> exactly when bytes were asked for and none came.  A call that fails, or that reports more
  than was asked for, throws.\<close>

theorem FileDescriptor_read_correct:
  assumes "read_ok K inp"
  shows "case FileDescriptor_read K limit w k of
      Inl e \<Rightarrow> e = System_Error \<and> fst (k_read K (fd_num w) (min 1048576 limit) k) < 0
    | Inr (str, w', k') \<Rightarrow> length str \<le> min 1048576 limit \<and> inp k' = (inp k)(fd_num w := inp k (fd_num w) @ str) \<and>
        w' = register_read (w\<lparr>fd_eof := (fd_eof w \<or> (limit > 0 \<and> str = []))\<rparr>)"
proof (cases "FileDescriptor_read K limit w k")
  case (Inr x)
  then show ?thesis using FileDescriptor_read_Inr [OF assms, of limit w k] by (cases x) simp
next
  case (Inl e)
  obtain r errno buf k1 where call: "k_read K (fd_num w) (min 1048576 limit) k = (r, errno, buf, k1)"
    by (cases "k_read K (fd_num w) (min 1048576 limit) k") auto
  have "to_ssize (min 1048576 limit) = int (min 1048576 limit)" by (simp add: to_ssize_def min_less_iff_disj)
  then show ?thesis using Inl read_okD [OF assms call]
    by (auto simp: FileDescriptor_read_def call Let_def SystemCall_failed SystemCall_small string_resize_signed_def split: if_splits)
qed

theorem FileDescriptor_read_correct_witness:
  "\<exists>w' k'. FileDescriptor_read ex_kernel 5 (ex_fd 1) (\<lambda>_. [9], \<lambda>_. []) = Inr ([7], w', k') \<and> fst k' 1 = [9, 7]"
proof -
  have r: "FileDescriptor_read ex_kernel 5 (ex_fd 1) (\<lambda>_. [9], \<lambda>_. []) = Inr ([7], register_read (ex_fd 1), (\<lambda>_. [9])(1 := [9, 7]), \<lambda>_. [])"
    by (simp add: FileDescriptor_read_def ex_kernel_def ex_fd_def SystemCall_def to_int32_def to_ssize_def string_resize_signed_def string_resize_def)
  show ?thesis using FileDescriptor_read_correct [OF ex_kernel_ok(2), where limit = 5 and w = "ex_fd 1" and k = "(\<lambda>_. [9], \<lambda>_. [])"] unfolding r by (auto simp: ex_fd_def)
qed

end
