(* ===== verification/Event_Loop.thy ===== *)
theory Event_Loop
  imports Descriptors
begin

text \<open>
  The event loop: \<open>src/libsponge/util/eventloop.hh\<close> and \<open>eventloop.cc\<close>.

  The callbacks of a rule are functions on a state \<open>'s\<close>, which holds everything they touch: the objects captured
  by reference, the descriptors and the system.  A rule reads its descriptor from that state, since the duplicated
  handle shares the object.  \<open>poll\<close> is an argument: it returns its value, \<open>errno\<close> and the \<open>revents\<close> it stores.
\<close>

section \<open>Rules\<close>

datatype Direction = Dir_In | Dir_Out

definition POLLIN :: "16 word" where "POLLIN = 1"
definition POLLOUT :: "16 word" where "POLLOUT = 4"
definition POLLERR :: "16 word" where "POLLERR = 8"
definition POLLHUP :: "16 word" where "POLLHUP = 16"
definition POLLNVAL :: "16 word" where "POLLNVAL = 32"
definition EINTR :: int where "EINTR = 4"

fun Direction_events :: "Direction \<Rightarrow> 16 word" where
  "Direction_events Dir_In = POLLIN"
| "Direction_events Dir_Out = POLLOUT"

record 's Rule =
  rule_fd :: "'s \<Rightarrow> FDWrapper"
  rule_direction :: Direction
  rule_callback :: "'s \<Rightarrow> 's result option"
  rule_interest :: "'s \<Rightarrow> bool result"
  rule_cancel :: "'s \<Rightarrow> 's result option"

definition service_count :: "'s Rule \<Rightarrow> 's \<Rightarrow> 32 word" where
  "service_count r s = (if rule_direction r = Dir_In then fd_read_count (rule_fd r s) else fd_write_count (rule_fd r s))"

definition add_rule ::
  "('s \<Rightarrow> FDWrapper) \<Rightarrow> Direction \<Rightarrow> ('s \<Rightarrow> 's result option) \<Rightarrow> ('s \<Rightarrow> bool result) \<Rightarrow> ('s \<Rightarrow> 's result option) \<Rightarrow>
     's Rule list \<Rightarrow> 's Rule list" where
  "add_rule fd direction callback interest cancel rules =
     rules @ [\<lparr>rule_fd = fd, rule_direction = direction, rule_callback = callback, rule_interest = interest, rule_cancel = cancel\<rparr>]"

text \<open>The default arguments of \<open>interest\<close> and \<open>cancel\<close>.\<close>

definition always :: "'s \<Rightarrow> bool result" where
  "always s = Inr True"

definition no_cancel :: "'s \<Rightarrow> 's result option" where
  "no_cancel s = Some (Inr s)"

section \<open>Waiting for an event\<close>

datatype EventLoop_Result = Success | Timeout | Exit

text \<open>The first loop sets up an entry for every rule that stays.\<close>

fun setup_rules :: "'s Rule list \<Rightarrow> 's \<Rightarrow> ('s Rule list \<times> pollfd list \<times> bool \<times> 's) result option" where
  "setup_rules [] s = Some (Inr ([], [], False, s))"
| "setup_rules (this_rule # rules) s =
     (if rule_direction this_rule = Dir_In \<and> fd_eof (rule_fd this_rule s) then bind_run (rule_cancel this_rule s) (setup_rules rules)
      else if fd_closed (rule_fd this_rule s) then bind_run (rule_cancel this_rule s) (setup_rules rules)
      else bind_run (Some (rule_interest this_rule s)) (\<lambda>interested.
           let p = \<lparr>pfd_fd = fd_num (rule_fd this_rule s),
                    pfd_events = (if interested then Direction_events (rule_direction this_rule) else 0)\<rparr>
           in bind_run (setup_rules rules s) (\<lambda>(rules, pollfds, something_to_poll, s).
              Some (Inr (this_rule # rules, p # pollfds, interested \<or> something_to_poll, s)))))"

text \<open>A callback must use its descriptor or lose its interest.\<close>

definition run_callback :: "'s Rule \<Rightarrow> 's \<Rightarrow> 's result option" where
  "run_callback this_rule s =
     bind_run (rule_callback this_rule s) (\<lambda>s'.
     if service_count this_rule s = service_count this_rule s'
     then bind_run (Some (rule_interest this_rule s')) (\<lambda>interested.
          if interested then Some (Inl Runtime_Error) else Some (Inr s'))
     else Some (Inr s'))"

fun poll_results :: "'s Rule list \<Rightarrow> (pollfd \<times> 16 word) list \<Rightarrow> 's \<Rightarrow> ('s Rule list \<times> 's) result option" where
  "poll_results [] _ s = Some (Inr ([], s))"
| "poll_results (_ # _) [] s = Some (Inl Out_Of_Range)"
| "poll_results (this_rule # rules) ((this_pollfd, revents) # pollfds) s =
     (if and revents (or POLLERR POLLNVAL) \<noteq> 0 then Some (Inl Runtime_Error)
      else let poll_ready = and revents (pfd_events this_pollfd) \<noteq> 0;
               poll_hup = and revents POLLHUP \<noteq> 0
           in if poll_hup \<and> pfd_events this_pollfd \<noteq> 0 \<and> \<not> poll_ready
              then bind_run (rule_cancel this_rule s) (poll_results rules pollfds)
              else bind_run (if poll_ready then run_callback this_rule s else Some (Inr s)) (\<lambda>s.
                   bind_run (poll_results rules pollfds s) (\<lambda>(rules, s).
                   Some (Inr (this_rule # rules, s)))))"

text \<open>The array holds \<open>revents\<close> zero where the system stores nothing.  An error of \<open>poll\<close> other than a signal is
  caught and ignored.\<close>

definition wait_next_event ::
  "(pollfd list \<Rightarrow> int \<Rightarrow> 's \<Rightarrow> int \<times> int \<times> 16 word list \<times> 's) \<Rightarrow> int \<Rightarrow> 's Rule list \<Rightarrow> 's \<Rightarrow>
     (EventLoop_Result \<times> 's Rule list \<times> 's) result option" where
  "wait_next_event poll timeout_ms rules s =
     bind_run (setup_rules rules s) (\<lambda>(rules, pollfds, something_to_poll, s).
     if \<not> something_to_poll then Some (Inr (Exit, rules, s))
     else let (r, errno, revents, s) = poll pollfds timeout_ms s;
              results = bind_run (poll_results rules (zip pollfds (revents @ replicate (length pollfds) 0)) s) (\<lambda>(rules, s).
                        Some (Inr (Success, rules, s)))
          in case SystemCall r errno 0 of
               Inr n \<Rightarrow> if n = 0 then Some (Inr (Timeout, rules, s)) else results
             | Inl _ \<Rightarrow> if errno = EINTR then Some (Inr (Exit, rules, s)) else results)"

section \<open>What the loop keeps\<close>

text \<open>Neither rule disturbs what the interest of the other one has established: \<open>r\<close>, which comes first, when it
  runs or is cancelled after the descriptors were polled, and \<open>r'\<close> when it is cancelled before.\<close>

definition keeps_guard :: "('s \<Rightarrow> bool) \<Rightarrow> ('s Rule \<Rightarrow> 's \<Rightarrow> bool) \<Rightarrow> 's Rule \<Rightarrow> 's Rule \<Rightarrow> bool" where
  "keeps_guard I guard r r' \<longleftrightarrow> (\<forall>s s'. I s \<longrightarrow>
     (guard r' s \<and> guard r s \<and> rule_callback r s = Some (Inr s') \<longrightarrow> guard r' s') \<and>
     (guard r' s \<and> rule_cancel r s = Some (Inr s') \<longrightarrow> guard r' s') \<and>
     (guard r s \<and> rule_cancel r' s = Some (Inr s') \<longrightarrow> guard r s'))"

text \<open>The entries of the rules that may run.\<close>

definition guarded :: "('s Rule \<Rightarrow> 's \<Rightarrow> bool) \<Rightarrow> 's \<Rightarrow> 's Rule list \<Rightarrow> pollfd list \<Rightarrow> bool" where
  "guarded guard s = list_all2 (\<lambda>r p. pfd_events p \<noteq> 0 \<longrightarrow> guard r s)"

lemma run_callback_Inr: "run_callback r s = Some (Inr s') \<Longrightarrow> rule_callback r s = Some (Inr s')"
  by (auto simp: run_callback_def bind_run_Inr_iff split: if_splits)

lemma sorted_wrt_subseq:
  assumes "subseq xs ys" "sorted_wrt P ys"
  shows "sorted_wrt P xs \<and> set xs \<subseteq> set ys"
  using assms by (induction rule: list_emb.induct) auto

locale loop_client =
  fixes poll :: "pollfd list \<Rightarrow> int \<Rightarrow> 's \<Rightarrow> int \<times> int \<times> 16 word list \<times> 's"
    and I :: "'s \<Rightarrow> bool"
    and guard :: "'s Rule \<Rightarrow> 's \<Rightarrow> bool"
    and all_rules :: "'s Rule list"
  assumes cancel_inv: "r \<in> set all_rules \<Longrightarrow> I s \<Longrightarrow> rule_cancel r s = Some (Inr s') \<Longrightarrow> I s'"
    and interest_guard: "r \<in> set all_rules \<Longrightarrow> I s \<Longrightarrow> rule_interest r s = Inr True \<Longrightarrow> guard r s"
    and callback_inv: "r \<in> set all_rules \<Longrightarrow> I s \<Longrightarrow> guard r s \<Longrightarrow> rule_callback r s = Some (Inr s') \<Longrightarrow> I s'"
    and poll_inv: "I s \<Longrightarrow> poll fds t s = (n, errno, revents, s') \<Longrightarrow> I s'"
    and poll_guard: "r \<in> set all_rules \<Longrightarrow> I s \<Longrightarrow> poll fds t s = (n, errno, revents, s') \<Longrightarrow> guard r s \<Longrightarrow> guard r s'"
    and keeps: "sorted_wrt (keeps_guard I guard) all_rules"
begin

lemma setup_inv:
  assumes "setup_rules rules s = Some (Inr (rules', fds, b, s'))" "I s" "set rules \<subseteq> set all_rules"
    "sorted_wrt (keeps_guard I guard) rules"
  shows "I s' \<and> subseq rules' rules \<and> guarded guard s' rules' fds \<and>
    (\<forall>r. guard r s \<longrightarrow> (\<forall>r' \<in> set rules. keeps_guard I guard r r') \<longrightarrow> guard r s')"
  using assms
proof (induction rules arbitrary: s rules' fds b s')
  case Nil
  then show ?case by (simp add: guarded_def)
next
  case (Cons r rules)
  have r: "r \<in> set all_rules" "set rules \<subseteq> set all_rules" "sorted_wrt (keeps_guard I guard) rules"
    "\<forall>r' \<in> set rules. keeps_guard I guard r r'"
    using Cons(4,5) by simp_all
  show ?case
  proof (cases "rule_direction r = Dir_In \<and> fd_eof (rule_fd r s) \<or> fd_closed (rule_fd r s)")
    case True
    then obtain s1 where s1: "rule_cancel r s = Some (Inr s1)" "setup_rules rules s1 = Some (Inr (rules', fds, b, s'))"
      using Cons(2) by (auto simp: bind_run_Inr_iff split: if_splits)
    have i1: "I s1" using cancel_inv [OF r(1) Cons(3) s1(1)] .
    have "guard q s1" if "guard q s" "keeps_guard I guard q r" for q
      using that Cons(3) s1(1) unfolding keeps_guard_def by blast
    with Cons(1) [OF s1(2) i1 r(2,3)] show ?thesis by auto
  next
    case False
    then obtain interested rules1 fds1 b1 where s1: "rule_interest r s = Inr interested"
      "setup_rules rules s = Some (Inr (rules1, fds1, b1, s'))" "rules' = r # rules1"
      "fds = \<lparr>pfd_fd = fd_num (rule_fd r s), pfd_events = (if interested then Direction_events (rule_direction r) else 0)\<rparr> # fds1"
      using Cons(2) by (auto simp: bind_run_Inr_iff Let_def split: if_splits)
    note ih = Cons(1) [OF s1(2) Cons(3) r(2,3)]
    have "guard r s" if "interested" using interest_guard [OF r(1) Cons(3)] s1(1) that by simp
    then have "guard r s'" if "interested" using that ih r(4) by blast
    then show ?thesis using ih s1(3,4) by (simp add: guarded_def)
  qed
qed

lemma guarded_later:
  assumes "\<forall>r' \<in> set rules. keeps_guard I guard r r'" "I s" "guarded guard s rules fds"
    "rule_cancel r s = Some (Inr s1) \<or> guard r s \<and> rule_callback r s = Some (Inr s1)"
  shows "guarded guard s1 rules fds"
proof -
  have "guard r' s \<longrightarrow> guard r' s1" if "r' \<in> set rules" for r'
    using assms(1,2,4) that unfolding keeps_guard_def by blast
  then show ?thesis using assms(3) by (auto simp: guarded_def elim!: list.rel_mono_strong)
qed

lemma results_inv:
  assumes "poll_results rules (zip fds revents) s = Some (Inr (rules', s'))" "I s" "set rules \<subseteq> set all_rules"
    "sorted_wrt (keeps_guard I guard) rules" "guarded guard s rules fds" "length fds \<le> length revents"
  shows "I s' \<and> subseq rules' rules"
  using assms
proof (induction rules arbitrary: fds revents s rules' s')
  case (Cons r rules)
  obtain p fds1 v revents1 where l: "fds = p # fds1" "revents = v # revents1"
    using Cons(6,7) by (cases fds; cases revents) (auto simp: guarded_def)
  have r: "r \<in> set all_rules" "set rules \<subseteq> set all_rules" "sorted_wrt (keeps_guard I guard) rules"
    "\<forall>r' \<in> set rules. keeps_guard I guard r r'"
    using Cons(4,5) by simp_all
  have g: "pfd_events p \<noteq> 0 \<longrightarrow> guard r s" "guarded guard s rules fds1" "length fds1 \<le> length revents1"
    using Cons(6,7) l by (simp_all add: guarded_def)
  let ?ready = "and v (pfd_events p) \<noteq> 0"
  show ?case
  proof (cases "and v POLLHUP \<noteq> 0 \<and> pfd_events p \<noteq> 0 \<and> \<not> ?ready")
    case True
    then obtain s1 where s1: "rule_cancel r s = Some (Inr s1)" "poll_results rules (zip fds1 revents1) s1 = Some (Inr (rules', s'))"
      using Cons(2) by (auto simp: l bind_run_Inr_iff Let_def split: if_splits)
    from Cons(1) [OF s1(2) cancel_inv [OF r(1) Cons(3) s1(1)] r(2,3) guarded_later [OF r(4) Cons(3) g(2)] g(3)] s1(1) show ?thesis by auto
  next
    case False
    then obtain s1 rules1 where s1: "(if ?ready then run_callback r s else Some (Inr s)) = Some (Inr s1)"
      "poll_results rules (zip fds1 revents1) s1 = Some (Inr (rules1, s'))" "rules' = r # rules1"
      using Cons(2) by (auto simp: l bind_run_Inr_iff Let_def split: if_splits)
    have "I s1 \<and> guarded guard s1 rules fds1"
    proof (cases ?ready)
      case True
      then have "rule_callback r s = Some (Inr s1)" "guard r s" using s1(1) run_callback_Inr g(1) by auto
      then show ?thesis using callback_inv [OF r(1) Cons(3)] guarded_later [OF r(4) Cons(3) g(2)] by blast
    next
      case False
      then show ?thesis using s1(1) Cons(3) g(2) by simp
    qed
    then show ?thesis using Cons(1) [OF s1(2) _ r(2,3) _ g(3)] s1(3) by simp
  qed
qed simp

text \<open>Waiting keeps the invariant, and only removes rules.\<close>

theorem wait_next_event_inv:
  assumes "wait_next_event poll t rules s = Some (Inr (res, rules', s'))" "I s" "subseq rules all_rules"
  shows "I s' \<and> subseq rules' rules"
proof -
  have rules: "set rules \<subseteq> set all_rules" "sorted_wrt (keeps_guard I guard) rules"
    using sorted_wrt_subseq [OF assms(3) keeps] by simp_all
  obtain rules1 fds b s1 where s1: "setup_rules rules s = Some (Inr (rules1, fds, b, s1))"
    using assms(1) by (auto simp: wait_next_event_def bind_run_Inr_iff)
  have i1: "I s1" "subseq rules1 rules" "guarded guard s1 rules1 fds"
    using setup_inv [OF s1 assms(2) rules] by simp_all
  have rules1: "set rules1 \<subseteq> set all_rules" "sorted_wrt (keeps_guard I guard) rules1"
    using sorted_wrt_subseq [OF i1(2) rules(2)] rules(1) by auto
  obtain r errno revents s2 where call: "poll fds t s1 = (r, errno, revents, s2)"
    by (cases "poll fds t s1") auto
  have i2: "I s2" using poll_inv [OF i1(1) call] .
  have "guard q s1 \<longrightarrow> guard q s2" if "q \<in> set rules1" for q using poll_guard [OF _ i1(1) call] rules1(1) that by blast
  then have g2: "guarded guard s2 rules1 fds" using i1(3) by (auto simp: guarded_def elim!: list.rel_mono_strong)
  consider "rules' = rules1" "s' = s1" | "rules' = rules1" "s' = s2"
    | "poll_results rules1 (zip fds (revents @ replicate (length fds) 0)) s2 = Some (Inr (rules', s'))"
    using assms(1) s1 call
    by (auto simp: wait_next_event_def bind_run_Inr_iff Let_def split: if_splits sum.splits)
  then show ?thesis
  proof cases
    case 3
    then show ?thesis using results_inv [OF 3 i2 rules1 g2] i1(2) subseq_order.order_trans by simp blast
  qed (use i1 i2 in simp_all)
qed

end

text \<open>When no callback fails and every one uses its descriptor or loses its interest, and no descriptor is in
  error, waiting returns.\<close>

locale safe_loop_client = loop_client +
  assumes cancel_runs: "r \<in> set all_rules \<Longrightarrow> I s \<Longrightarrow> \<exists>s'. rule_cancel r s = Some (Inr s')"
    and interest_runs: "r \<in> set all_rules \<Longrightarrow> I s \<Longrightarrow> \<exists>b. rule_interest r s = Inr b"
    and callback_runs: "r \<in> set all_rules \<Longrightarrow> I s \<Longrightarrow> guard r s \<Longrightarrow> \<exists>s'. run_callback r s = Some (Inr s')"
    and poll_sound: "I s \<Longrightarrow> poll fds t s = (n, errno, revents, s') \<Longrightarrow> v \<in> set revents \<Longrightarrow> and v (or POLLERR POLLNVAL) = 0"
begin

lemma setup_runs:
  assumes "I s" "set rules \<subseteq> set all_rules"
  shows "\<exists>x. setup_rules rules s = Some (Inr x)"
  using assms
proof (induction rules arbitrary: s)
  case (Cons r rules)
  have r: "r \<in> set all_rules" "set rules \<subseteq> set all_rules" using Cons(3) by simp_all
  obtain s1 where s1: "rule_cancel r s = Some (Inr s1)" using cancel_runs [OF r(1) Cons(2)] by blast
  obtain b where b: "rule_interest r s = Inr b" using interest_runs [OF r(1) Cons(2)] by blast
  from Cons(1) [OF cancel_inv [OF r(1) Cons(2) s1] r(2)] Cons(1) [OF Cons(2) r(2)] show ?case
    by (auto simp: s1 b Let_def)
qed auto

lemma results_run:
  assumes "I s" "set rules \<subseteq> set all_rules" "sorted_wrt (keeps_guard I guard) rules" "guarded guard s rules fds"
    "length fds \<le> length revents" "\<forall>v \<in> set revents. and v (or POLLERR POLLNVAL) = 0"
  shows "\<exists>x. poll_results rules (zip fds revents) s = Some (Inr x)"
  using assms
proof (induction rules arbitrary: fds revents s)
  case (Cons r rules)
  obtain p fds1 v revents1 where l: "fds = p # fds1" "revents = v # revents1"
    using Cons(5,6) by (cases fds; cases revents) (auto simp: guarded_def)
  have r: "r \<in> set all_rules" "set rules \<subseteq> set all_rules" "sorted_wrt (keeps_guard I guard) rules"
    "\<forall>r' \<in> set rules. keeps_guard I guard r r'" using Cons(3,4) by simp_all
  have g: "pfd_events p \<noteq> 0 \<longrightarrow> guard r s" "guarded guard s rules fds1" "length fds1 \<le> length revents1"
    "\<forall>v \<in> set revents1. and v (or POLLERR POLLNVAL) = 0" "and v (or POLLERR POLLNVAL) = 0"
    using Cons(5-7) l by (simp_all add: guarded_def)
  note ih = Cons(1) [OF _ r(2,3) _ g(3,4)]
  obtain s1 where s1: "rule_cancel r s = Some (Inr s1)" using cancel_runs [OF r(1) Cons(2)] by blast
  have "\<exists>x. poll_results rules (zip fds1 revents1) s1 = Some (Inr x)"
    using ih [OF cancel_inv [OF r(1) Cons(2) s1] guarded_later [OF r(4) Cons(2) g(2)]] s1 by blast
  moreover have "\<exists>s2 x. (if and v (pfd_events p) \<noteq> 0 then run_callback r s else Some (Inr s)) = Some (Inr s2) \<and>
      poll_results rules (zip fds1 revents1) s2 = Some (Inr x)"
  proof (cases "and v (pfd_events p) \<noteq> 0")
    case True
    then have gr: "guard r s" using g(1) by auto
    then obtain s2 where s2: "run_callback r s = Some (Inr s2)" using callback_runs [OF r(1) Cons(2)] by blast
    note cb = run_callback_Inr [OF s2]
    show ?thesis
      using True s2 ih [OF callback_inv [OF r(1) Cons(2) gr cb] guarded_later [OF r(4) Cons(2) g(2)]] gr cb by auto
  next
    case False
    then show ?thesis using ih [OF Cons(2) g(2)] by simp
  qed
  ultimately show ?case using g(5) s1 by (auto simp: l Let_def)
qed simp

theorem wait_next_event_runs:
  assumes "I s" "subseq rules all_rules"
  shows "\<exists>x. wait_next_event poll t rules s = Some (Inr x)"
proof -
  have rules: "set rules \<subseteq> set all_rules" "sorted_wrt (keeps_guard I guard) rules"
    using sorted_wrt_subseq [OF assms(2) keeps] by simp_all
  obtain rules1 fds b s1 where s1: "setup_rules rules s = Some (Inr (rules1, fds, b, s1))"
    using setup_runs [OF assms(1) rules(1)] by auto
  have i1: "I s1" "subseq rules1 rules" "guarded guard s1 rules1 fds"
    using setup_inv [OF s1 assms(1) rules] by simp_all
  have rules1: "set rules1 \<subseteq> set all_rules" "sorted_wrt (keeps_guard I guard) rules1"
    using sorted_wrt_subseq [OF i1(2) rules(2)] rules(1) by auto
  obtain r errno revents s2 where call: "poll fds t s1 = (r, errno, revents, s2)"
    by (cases "poll fds t s1") auto
  have "guard q s1 \<longrightarrow> guard q s2" if "q \<in> set rules1" for q using poll_guard [OF _ i1(1) call] rules1(1) that by blast
  then have g2: "guarded guard s2 rules1 fds" using i1(3) by (auto simp: guarded_def elim!: list.rel_mono_strong)
  have "\<forall>v \<in> set (revents @ replicate (length fds) 0). and v (or POLLERR POLLNVAL) = 0"
    using poll_sound [OF i1(1) call] by auto
  from results_run [OF poll_inv [OF i1(1) call] rules1 g2 _ this]
  obtain x where "poll_results rules1 (zip fds (revents @ replicate (length fds) 0)) s2 = Some (Inr x)" by auto
  then show ?thesis
    using s1 call by (cases x) (auto simp: wait_next_event_def Let_def split: sum.splits)
qed

end

end
