(* ===== verification/Adapter_Devices.thy ===== *)
theory Adapter_Devices
  imports Adapters Descriptors
begin

text \<open>
  The adapters with their devices: the classes of \<open>fd_adapter.hh/.cc\<close>, \<open>tuntap_adapter.hh/.cc\<close> and
  \<open>lossy_fd_adapter.hh\<close> as objects that hold a descriptor and call the operating system.

  \<open>TCPSpongeSocket\<close> is a template over the class of its adapter.  What it uses of that class is the record \<open>AdaptT\<close>,
  with one value for every class the program instantiates the template with.
\<close>

section \<open>The interface of an adapter\<close>

record ('a, 'k) AdaptT =
  adt_fd :: "'a \<Rightarrow> FDWrapper"
  adt_base :: "'a \<Rightarrow> FdAdapterBase"
  adt_set_base :: "FdAdapterBase \<Rightarrow> 'a \<Rightarrow> 'a"
  adt_read :: "'a \<Rightarrow> 'k \<Rightarrow> (TCPSegment option \<times> 'a \<times> 'k) result option"
  adt_write :: "TCPSegment \<Rightarrow> 'a \<Rightarrow> 'k \<Rightarrow> ('a \<times> 'k) result option"
  adt_tick :: "nat \<Rightarrow> 'a \<Rightarrow> 'k \<Rightarrow> ('a \<times> 'k) result option"

definition adt_config :: "('a, 'k) AdaptT \<Rightarrow> 'a \<Rightarrow> FdAdapterConfig" where
  "adt_config AD a = fa_cfg (adt_base AD a)"

definition adt_set_config :: "('a, 'k) AdaptT \<Rightarrow> FdAdapterConfig \<Rightarrow> 'a \<Rightarrow> 'a" where
  "adt_set_config AD cfg a = adt_set_base AD ((adt_base AD a)\<lparr>fa_cfg := cfg\<rparr>) a"

definition adt_set_listening :: "('a, 'k) AdaptT \<Rightarrow> bool \<Rightarrow> 'a \<Rightarrow> 'a" where
  "adt_set_listening AD l a = adt_set_base AD (set_listening (adt_base AD a) l) a"

text \<open>The default argument of \<open>FileDescriptor::read\<close> and of \<open>UDPSocket::recv\<close>.\<close>

definition default_limit :: nat where
  "default_limit = W64 - 1"

definition default_mtu :: nat where
  "default_mtu = 65536"

section \<open>TCP over IPv4 over a TUN device\<close>

record TunDevice =
  td_base :: FdAdapterBase
  td_tun :: FDWrapper

definition TunDevice_read :: "resolver \<Rightarrow> 'k Kernel \<Rightarrow> TunDevice \<Rightarrow> 'k \<Rightarrow> (TCPSegment option \<times> TunDevice \<times> 'k) result" where
  "TunDevice_read res K a k =
     bind_result (FileDescriptor_read K default_limit (td_tun a) k) (\<lambda>(packet, w, k).
     bind_result (TunFdAdapter_read res (td_base a) packet) (\<lambda>(seg, base).
     Inr (seg, \<lparr>td_base = base, td_tun = w\<rparr>, k)))"

definition TunDevice_write :: "resolver \<Rightarrow> 'k Kernel \<Rightarrow> TCPSegment \<Rightarrow> TunDevice \<Rightarrow> 'k \<Rightarrow> (TunDevice \<times> 'k) result" where
  "TunDevice_write res K seg a k =
     bind_result (wrap_tcp_in_ip res (td_base a) seg) (\<lambda>(ip_dgram, _).
     bind_result (IPv4Datagram_serialize ip_dgram) (\<lambda>l.
     bind_result (FileDescriptor_write K (BufferViewList_of_BufferList l) True (td_tun a) k) (\<lambda>(_, w, k).
     Inr (a\<lparr>td_tun := w\<rparr>, k))))"

definition TunAdapter :: "resolver \<Rightarrow> 'k Kernel \<Rightarrow> (TunDevice, 'k) AdaptT" where
  "TunAdapter res K =
     \<lparr>adt_fd = td_tun, adt_base = td_base, adt_set_base = (\<lambda>b a. a\<lparr>td_base := b\<rparr>),
      adt_read = (\<lambda>a k. Some (TunDevice_read res K a k)), adt_write = (\<lambda>seg a k. Some (TunDevice_write res K seg a k)),
      adt_tick = (\<lambda>ms a k. Some (Inr (a, k)))\<rparr>"

section \<open>TCP over UDP\<close>

record UDPDevice =
  ud_base :: FdAdapterBase
  ud_sock :: FDWrapper

definition UDPDevice_read :: "'k Kernel \<Rightarrow> UDPDevice \<Rightarrow> 'k \<Rightarrow> (TCPSegment option \<times> UDPDevice \<times> 'k) result" where
  "UDPDevice_read K a k =
     bind_result (UDPSocket_recv K default_mtu (ud_sock a) k) (\<lambda>((source_address, payload), w, k).
     bind_result (UDPSocketAdapter_read (ud_base a) source_address payload) (\<lambda>(seg, base).
     Inr (seg, \<lparr>ud_base = base, ud_sock = w\<rparr>, k)))"

definition UDPDevice_write :: "resolver \<Rightarrow> 'k Kernel \<Rightarrow> TCPSegment \<Rightarrow> UDPDevice \<Rightarrow> 'k \<Rightarrow> (UDPDevice \<times> 'k) result" where
  "UDPDevice_write res K seg a k =
     bind_result (set_ports res (ud_base a) seg) (\<lambda>seg.
     bind_result (TCPSegment_serialize seg 0) (\<lambda>l.
     bind_result (UDPSocket_sendto K (cfg_destination (fa_cfg (ud_base a))) (BufferViewList_of_BufferList l) (ud_sock a) k) (\<lambda>(w, k).
     Inr (a\<lparr>ud_sock := w\<rparr>, k))))"

definition UDPAdapter :: "resolver \<Rightarrow> 'k Kernel \<Rightarrow> (UDPDevice, 'k) AdaptT" where
  "UDPAdapter res K =
     \<lparr>adt_fd = ud_sock, adt_base = ud_base, adt_set_base = (\<lambda>b a. a\<lparr>ud_base := b\<rparr>),
      adt_read = (\<lambda>a k. Some (UDPDevice_read K a k)), adt_write = (\<lambda>seg a k. Some (UDPDevice_write res K seg a k)),
      adt_tick = (\<lambda>ms a k. Some (Inr (a, k)))\<rparr>"

section \<open>TCP over IPv4 over Ethernet\<close>

record TapDevice =
  ta_tap :: FDWrapper
  ta_adapter :: EthernetAdapter

text \<open>The frames are written one by one.\<close>

fun write_frames :: "'k Kernel \<Rightarrow> EthernetFrame list \<Rightarrow> FDWrapper \<Rightarrow> 'k \<Rightarrow> (FDWrapper \<times> 'k) result" where
  "write_frames K [] w k = Inr (w, k)"
| "write_frames K (frame # frames) w k =
     bind_result (FileDescriptor_write K (BufferViewList_of_BufferList (EthernetFrame_serialize frame)) True w k) (\<lambda>(_, w, k).
     write_frames K frames w k)"

definition TapDevice_send_pending :: "'k Kernel \<Rightarrow> TapDevice \<Rightarrow> 'k \<Rightarrow> (TapDevice \<times> 'k) result" where
  "TapDevice_send_pending K a k =
     bind_result (write_frames K (ni_frames_out (ea_interface (ta_adapter a))) (ta_tap a) k) (\<lambda>(w, k).
     Inr (\<lparr>ta_tap = w, ta_adapter = snd (send_pending (ta_adapter a))\<rparr>, k))"

definition TapDevice_new ::
  "resolver \<Rightarrow> 'k Kernel \<Rightarrow> FDWrapper \<Rightarrow> EthernetAddress \<Rightarrow> Address \<Rightarrow> Address \<Rightarrow> 'k \<Rightarrow> (TapDevice \<times> 'k) result" where
  "TapDevice_new res K tap eth_address ip_address next_hop k =
     bind_result (FdAdapterBase_new res) (\<lambda>base.
     bind_result (FileDescriptor_write K (BufferViewList_of_BufferList (EthernetFrame_serialize EthernetFrame_default)) True tap k) (\<lambda>(_, w, k).
     Inr (\<lparr>ta_tap = w, ta_adapter = \<lparr>ea_base = base, ea_interface = NetworkInterface_new eth_address ip_address, ea_next_hop = next_hop\<rparr>\<rparr>, k)))"

definition TapDevice_read ::
  "resolver \<Rightarrow> 'k Kernel \<Rightarrow> TapDevice \<Rightarrow> 'k \<Rightarrow> (TCPSegment option \<times> TapDevice \<times> 'k) result option" where
  "TapDevice_read res K a k =
     bind_run (Some (FileDescriptor_read K default_limit (ta_tap a) k)) (\<lambda>(packet, w, k).
     let a = a\<lparr>ta_tap := w\<rparr> in
     bind_run (Some (EthernetFrame_parse EthernetFrame_default (Buffer_new packet))) (\<lambda>(result, frame).
     if result \<noteq> NoError then Some (Inr (None, a, k)) else
     bind_run (recv_frame (ea_interface (ta_adapter a)) frame) (\<lambda>(ip_dgram, ni).
     bind_run (Some (TapDevice_send_pending K (a\<lparr>ta_adapter := (ta_adapter a)\<lparr>ea_interface := ni\<rparr>\<rparr>) k)) (\<lambda>(a, k).
     case ip_dgram of
       None \<Rightarrow> Some (Inr (None, a, k))
     | Some dgram \<Rightarrow>
         bind_run (Some (unwrap_tcp_in_ip res (ea_base (ta_adapter a)) dgram)) (\<lambda>(seg, base).
         Some (Inr (seg, a\<lparr>ta_adapter := (ta_adapter a)\<lparr>ea_base := base\<rparr>\<rparr>, k)))))))"

definition TapDevice_write :: "resolver \<Rightarrow> 'k Kernel \<Rightarrow> TCPSegment \<Rightarrow> TapDevice \<Rightarrow> 'k \<Rightarrow> (TapDevice \<times> 'k) result" where
  "TapDevice_write res K seg a k =
     bind_result (wrap_tcp_in_ip res (ea_base (ta_adapter a)) seg) (\<lambda>(dgram, _).
     bind_result (send_datagram (ea_interface (ta_adapter a)) dgram (ea_next_hop (ta_adapter a))) (\<lambda>ni.
     TapDevice_send_pending K (a\<lparr>ta_adapter := (ta_adapter a)\<lparr>ea_interface := ni\<rparr>\<rparr>) k))"

definition TapDevice_tick :: "'k Kernel \<Rightarrow> nat \<Rightarrow> TapDevice \<Rightarrow> 'k \<Rightarrow> (TapDevice \<times> 'k) result option" where
  "TapDevice_tick K ms_since_last_tick a k =
     bind_run (NetworkInterface_tick (ea_interface (ta_adapter a)) ms_since_last_tick) (\<lambda>ni.
     Some (TapDevice_send_pending K (a\<lparr>ta_adapter := (ta_adapter a)\<lparr>ea_interface := ni\<rparr>\<rparr>) k))"

definition EthernetDeviceAdapter :: "resolver \<Rightarrow> 'k Kernel \<Rightarrow> (TapDevice, 'k) AdaptT" where
  "EthernetDeviceAdapter res K =
     \<lparr>adt_fd = ta_tap, adt_base = (\<lambda>a. ea_base (ta_adapter a)),
      adt_set_base = (\<lambda>b a. a\<lparr>ta_adapter := (ta_adapter a)\<lparr>ea_base := b\<rparr>\<rparr>),
      adt_read = TapDevice_read res K, adt_write = (\<lambda>seg a k. Some (TapDevice_write res K seg a k)),
      adt_tick = TapDevice_tick K\<rparr>"

section \<open>Losses\<close>

text \<open>\<open>rand\<close> draws the next number of the generator.\<close>

record ('a, 'g) LossyDevice =
  ld_rand :: 'g
  ld_adapter :: 'a

definition LossyDevice_should_drop ::
  "('g \<Rightarrow> 32 word \<times> 'g) \<Rightarrow> ('a, 'k) AdaptT \<Rightarrow> bool \<Rightarrow> ('a, 'g) LossyDevice \<Rightarrow> bool \<times> ('a, 'g) LossyDevice" where
  "LossyDevice_should_drop rand AD uplink a =
     (let cfg = adt_config AD (ld_adapter a);
          loss = (if uplink then cfg_loss_rate_up cfg else cfg_loss_rate_dn cfg)
      in if loss \<noteq> 0 then let (n, g) = rand (ld_rand a) in ((ucast n :: 16 word) < loss, a\<lparr>ld_rand := g\<rparr>) else (False, a))"

definition LossyDevice_read ::
  "('g \<Rightarrow> 32 word \<times> 'g) \<Rightarrow> ('a, 'k) AdaptT \<Rightarrow> ('a, 'g) LossyDevice \<Rightarrow> 'k \<Rightarrow>
     (TCPSegment option \<times> ('a, 'g) LossyDevice \<times> 'k) result option" where
  "LossyDevice_read rand AD a k =
     bind_run (adt_read AD (ld_adapter a) k) (\<lambda>(ret, adapter, k).
     let (drop, a) = LossyDevice_should_drop rand AD False (a\<lparr>ld_adapter := adapter\<rparr>)
     in Some (Inr (if drop then None else ret, a, k)))"

definition LossyDevice_write ::
  "('g \<Rightarrow> 32 word \<times> 'g) \<Rightarrow> ('a, 'k) AdaptT \<Rightarrow> TCPSegment \<Rightarrow> ('a, 'g) LossyDevice \<Rightarrow> 'k \<Rightarrow> (('a, 'g) LossyDevice \<times> 'k) result option" where
  "LossyDevice_write rand AD seg a k =
     (let (drop, a) = LossyDevice_should_drop rand AD True a
      in if drop then Some (Inr (a, k))
         else bind_run (adt_write AD seg (ld_adapter a) k) (\<lambda>(adapter, k). Some (Inr (a\<lparr>ld_adapter := adapter\<rparr>, k))))"

definition LossyAdapter :: "('g \<Rightarrow> 32 word \<times> 'g) \<Rightarrow> ('a, 'k) AdaptT \<Rightarrow> (('a, 'g) LossyDevice, 'k) AdaptT" where
  "LossyAdapter rand AD =
     \<lparr>adt_fd = (\<lambda>a. adt_fd AD (ld_adapter a)), adt_base = (\<lambda>a. adt_base AD (ld_adapter a)),
      adt_set_base = (\<lambda>b a. a\<lparr>ld_adapter := adt_set_base AD b (ld_adapter a)\<rparr>),
      adt_read = LossyDevice_read rand AD, adt_write = LossyDevice_write rand AD,
      adt_tick = (\<lambda>ms a k. bind_run (adt_tick AD ms (ld_adapter a) k) (\<lambda>(adapter, k). Some (Inr (a\<lparr>ld_adapter := adapter\<rparr>, k))))\<rparr>"

section \<open>An adapter keeps to its own descriptor\<close>

text \<open>What the bytes that have passed through the stream sockets depend on: only \<open>read\<close> and \<open>writev\<close> on them.\<close>

definition pipes_ok :: "'k Kernel \<Rightarrow> ('k \<Rightarrow> int \<Rightarrow> bytes) \<Rightarrow> ('k \<Rightarrow> int \<Rightarrow> bytes) \<Rightarrow> bool" where
  "pipes_ok K inp out \<longleftrightarrow> read_ok K inp \<and> writev_ok K out \<and>
     (\<forall>fd n k r errno buf k'. k_read K fd n k = (r, errno, buf, k') \<longrightarrow> out k' = out k) \<and>
     (\<forall>fd iovs k r errno k'. k_writev K fd iovs k = (r, errno, k') \<longrightarrow> inp k' = inp k) \<and>
     (\<forall>fd how k r errno k'. k_shutdown K fd how k = (r, errno, k') \<longrightarrow> inp k' = inp k \<and> out k' = out k) \<and>
     (\<forall>fds t k r errno revents k'. k_poll K fds t k = (r, errno, revents, k') \<longrightarrow> inp k' = inp k \<and> out k' = out k) \<and>
     (\<forall>fd n k r errno buf addr k'. k_recvfrom K fd n k = (r, errno, buf, addr, k') \<longrightarrow> inp k' = inp k \<and> out k' = out k) \<and>
     (\<forall>fd addr iovs k r errno k'. k_sendmsg K fd addr iovs k = (r, errno, k') \<longrightarrow> inp k' = inp k \<and> out k' = out k)"

lemma pipes_okD:
  assumes "pipes_ok K inp out"
  shows "read_ok K inp" "writev_ok K out"
    "\<And>fd n k r errno buf k'. k_read K fd n k = (r, errno, buf, k') \<Longrightarrow> out k' = out k"
    "\<And>fd iovs k r errno k'. k_writev K fd iovs k = (r, errno, k') \<Longrightarrow> inp k' = inp k"
    "\<And>fd how k r errno k'. k_shutdown K fd how k = (r, errno, k') \<Longrightarrow> inp k' = inp k \<and> out k' = out k"
    "\<And>fds t k r errno revents k'. k_poll K fds t k = (r, errno, revents, k') \<Longrightarrow> inp k' = inp k \<and> out k' = out k"
    "\<And>fd n k r errno buf addr k'. k_recvfrom K fd n k = (r, errno, buf, addr, k') \<Longrightarrow> inp k' = inp k \<and> out k' = out k"
    "\<And>fd addr iovs k r errno k'. k_sendmsg K fd addr iovs k = (r, errno, k') \<Longrightarrow> inp k' = inp k \<and> out k' = out k"
  using assms unfolding pipes_ok_def by (elim conjE, (assumption | metis))+

definition same_pipe :: "('k \<Rightarrow> int \<Rightarrow> bytes) \<Rightarrow> ('k \<Rightarrow> int \<Rightarrow> bytes) \<Rightarrow> int \<Rightarrow> 'k \<Rightarrow> 'k \<Rightarrow> bool" where
  "same_pipe inp out fd k k' \<longleftrightarrow> inp k' fd = inp k fd \<and> out k' fd = out k fd"

definition adapter_ok :: "('a, 'k) AdaptT \<Rightarrow> ('k \<Rightarrow> int \<Rightarrow> bytes) \<Rightarrow> ('k \<Rightarrow> int \<Rightarrow> bytes) \<Rightarrow> int \<Rightarrow> bool" where
  "adapter_ok AD inp out fd \<longleftrightarrow> (\<forall>a. fd_num (adt_fd AD a) \<noteq> fd \<longrightarrow>
     (\<forall>k seg a' k'. adt_read AD a k = Some (Inr (seg, a', k')) \<longrightarrow> same_pipe inp out fd k k' \<and> fd_num (adt_fd AD a') \<noteq> fd) \<and>
     (\<forall>seg k a' k'. adt_write AD seg a k = Some (Inr (a', k')) \<longrightarrow> same_pipe inp out fd k k' \<and> fd_num (adt_fd AD a') \<noteq> fd) \<and>
     (\<forall>ms k a' k'. adt_tick AD ms a k = Some (Inr (a', k')) \<longrightarrow> same_pipe inp out fd k k' \<and> fd_num (adt_fd AD a') \<noteq> fd) \<and>
     (\<forall>b. fd_num (adt_fd AD (adt_set_base AD b a)) \<noteq> fd))"

lemma adapter_okI:
  assumes "\<And>a k seg a' k'. fd_num (adt_fd AD a) \<noteq> fd \<Longrightarrow> adt_read AD a k = Some (Inr (seg, a', k')) \<Longrightarrow>
      same_pipe inp out fd k k' \<and> fd_num (adt_fd AD a') \<noteq> fd"
    "\<And>a seg k a' k'. fd_num (adt_fd AD a) \<noteq> fd \<Longrightarrow> adt_write AD seg a k = Some (Inr (a', k')) \<Longrightarrow>
      same_pipe inp out fd k k' \<and> fd_num (adt_fd AD a') \<noteq> fd"
    "\<And>a ms k a' k'. fd_num (adt_fd AD a) \<noteq> fd \<Longrightarrow> adt_tick AD ms a k = Some (Inr (a', k')) \<Longrightarrow>
      same_pipe inp out fd k k' \<and> fd_num (adt_fd AD a') \<noteq> fd"
    "\<And>a b. fd_num (adt_fd AD a) \<noteq> fd \<Longrightarrow> fd_num (adt_fd AD (adt_set_base AD b a)) \<noteq> fd"
  shows "adapter_ok AD inp out fd"
  unfolding adapter_ok_def using assms by blast

lemma adapter_okD:
  assumes "adapter_ok AD inp out fd" "fd_num (adt_fd AD a) \<noteq> fd"
  shows "adt_read AD a k = Some (Inr (seg, a', k')) \<Longrightarrow> same_pipe inp out fd k k' \<and> fd_num (adt_fd AD a') \<noteq> fd"
    "adt_write AD seg1 a k = Some (Inr (a', k')) \<Longrightarrow> same_pipe inp out fd k k' \<and> fd_num (adt_fd AD a') \<noteq> fd"
    "adt_tick AD ms a k = Some (Inr (a', k')) \<Longrightarrow> same_pipe inp out fd k k' \<and> fd_num (adt_fd AD a') \<noteq> fd"
    "fd_num (adt_fd AD (adt_set_base AD b a)) \<noteq> fd"
  using assms unfolding adapter_ok_def by blast+

lemma same_pipe_refl [simp]: "same_pipe inp out fd k k"
  by (simp add: same_pipe_def)

lemma same_pipe_trans: "same_pipe inp out fd k k' \<Longrightarrow> same_pipe inp out fd k' k'' \<Longrightarrow> same_pipe inp out fd k k''"
  by (simp add: same_pipe_def)

text \<open>Reading and writing a descriptor.\<close>

lemma FileDescriptor_read_pipe:
  assumes "pipes_ok K inp out" "FileDescriptor_read K limit w k = Inr (str, w', k')"
  shows "inp k' = (inp k)(fd_num w := inp k (fd_num w) @ str)" "out k' = out k" "length str \<le> limit"
    "w' = register_read (w\<lparr>fd_eof := (fd_eof w \<or> (limit > 0 \<and> str = []))\<rparr>)"
proof -
  show "inp k' = (inp k)(fd_num w := inp k (fd_num w) @ str)" "length str \<le> limit"
    "w' = register_read (w\<lparr>fd_eof := (fd_eof w \<or> (limit > 0 \<and> str = []))\<rparr>)"
    using FileDescriptor_read_Inr [OF pipes_okD(1) [OF assms(1)] assms(2)] by simp_all
  show "out k' = out k"
    using assms(2) pipes_okD(3) [OF assms(1)]
    by (auto simp: FileDescriptor_read_def Let_def bind_result_Inr_iff split: prod.splits if_splits)
qed

lemma write_loop_other:
  assumes "pipes_ok K inp out" "write_loop K write_all buffer n w k = Inr (n', w', k')"
  shows "inp k' = inp k \<and> fd_num w' = fd_num w \<and> (\<forall>fd. fd \<noteq> fd_num w \<longrightarrow> out k' fd = out k fd)"
  using assms
proof (induction K write_all buffer n w k rule: write_loop.induct)
  case (1 K write_all buffer n w k)
  obtain r errno k1 where call: "k_writev K (fd_num w) (BufferViewList_as_iovecs buffer) k = (r, errno, k1)"
    by (cases "k_writev K (fd_num w) (BufferViewList_as_iovecs buffer) k") auto
  then have "inp k1 = inp k" using pipes_okD(4) [OF 1(2)] by blast
  moreover have "\<forall>fd. fd \<noteq> fd_num w \<longrightarrow> out k1 fd = out k fd"
    using writev_okD [OF pipes_okD(2) [OF 1(2)] call] by (auto split: if_splits)
  ultimately have k1: "inp k1 = inp k \<and> fd_num (register_write w) = fd_num w \<and> (\<forall>fd. fd \<noteq> fd_num w \<longrightarrow> out k1 fd = out k fd)"
    by (simp add: register_write_def)
  obtain x where x: "SystemCall r errno 0 = Inr x" "\<not> (x = 0 \<and> BufferViewList_size buffer \<noteq> 0)" "\<not> x > to_ssize (BufferViewList_size buffer)"
    using 1(3) call by (auto simp: write_loop.simps [of K write_all buffer] Let_def bind_result_Inr_iff split: if_splits)
  obtain buffer' where b: "BufferViewList_remove_prefix buffer (of_ssize x) = Inr buffer'"
    using 1(3) call x by (auto simp: write_loop.simps [of K write_all buffer] Let_def bind_result_Inr_iff split: if_splits)
  have eq: "(if write_all \<and> BufferViewList_size buffer' \<noteq> 0
      then write_loop K write_all buffer' (u64_add n (of_ssize x)) (register_write w) k1
      else Inr (u64_add n (of_ssize x), register_write w, k1)) = Inr (n', w', k')"
    using 1(3) by (simp only: write_loop.simps [of K write_all buffer] call Let_def prod.case x(1) bind_result.simps
        if_not_P [OF x(2)] if_not_P [OF x(3)] b)
  show ?case
  proof (cases "write_all \<and> BufferViewList_size buffer' \<noteq> 0")
    case True
    then have "write_loop K write_all buffer' (u64_add n (of_ssize x)) (register_write w) k1 = Inr (n', w', k')" using eq by simp
    from 1(1) [OF call [symmetric] refl refl x refl b refl True 1(2) this] k1 show ?thesis by simp
  next
    case False
    have "k1 = k'" "register_write w = w'" using eq [unfolded if_not_P [OF False]] by simp_all
    then show ?thesis using k1 by simp
  qed
qed

lemma FileDescriptor_write_pipe:
  assumes "pipes_ok K inp out" "FileDescriptor_write K buffer write_all w k = Inr (n, w', k')" "length (concat buffer) < 2 ^ 63"
  shows "inp k' = inp k" "out k' = (out k)(fd_num w := out k (fd_num w) @ take n (concat buffer))" "n \<le> length (concat buffer)"
    "fd_num w' = fd_num w" "\<not> write_all \<Longrightarrow> w' = register_write w"
proof -
  have "0 + length (concat buffer) < W64" using assms(3) by (simp add: W64_def)
  from write_loop_Inr [OF pipes_okD(2) [OF assms(1)] assms(3) this assms(2) [unfolded FileDescriptor_write_def]]
  show "out k' = (out k)(fd_num w := out k (fd_num w) @ take n (concat buffer))" "n \<le> length (concat buffer)"
    "\<not> write_all \<Longrightarrow> w' = register_write w"
    by auto
  show "inp k' = inp k" "fd_num w' = fd_num w" using write_loop_other [OF assms(1)] assms(2) by (simp_all add: FileDescriptor_write_def)
qed

lemma FileDescriptor_write_other:
  assumes "pipes_ok K inp out" "FileDescriptor_write K buffer write_all w k = Inr (n, w', k')" "fd_num w \<noteq> fd"
  shows "same_pipe inp out fd k k' \<and> fd_num w' \<noteq> fd"
  using write_loop_other [OF assms(1)] assms(2,3) by (auto simp: FileDescriptor_write_def same_pipe_def)

lemma FileDescriptor_read_other:
  assumes "pipes_ok K inp out" "FileDescriptor_read K limit w k = Inr (str, w', k')" "fd_num w \<noteq> fd"
  shows "same_pipe inp out fd k k' \<and> fd_num w' \<noteq> fd"
  using FileDescriptor_read_pipe [OF assms(1,2)] assms(3) by (auto simp: same_pipe_def register_read_def)

lemma UDPSocket_other:
  assumes "pipes_ok K inp out" "fd_num w \<noteq> fd"
  shows "UDPSocket_recv K mtu w k = Inr (d, w', k') \<Longrightarrow> same_pipe inp out fd k k' \<and> fd_num w' \<noteq> fd"
    "UDPSocket_sendto K dest payload w k = Inr (w', k') \<Longrightarrow> same_pipe inp out fd k k' \<and> fd_num w' \<noteq> fd"
  using assms(2) pipes_okD(7,8) [OF assms(1)]
  by (auto simp: UDPSocket_recv_def UDPSocket_sendto_def sendmsg_helper_def Let_def bind_result_Inr_iff same_pipe_def register_read_def
      register_write_def split: prod.splits if_splits)

lemma write_frames_other:
  assumes "pipes_ok K inp out" "write_frames K frames w k = Inr (w', k')" "fd_num w \<noteq> fd"
  shows "same_pipe inp out fd k k' \<and> fd_num w' \<noteq> fd"
  using assms(2,3)
proof (induction frames arbitrary: w k)
  case (Cons frame frames)
  obtain n w1 k1 where w1: "FileDescriptor_write K (BufferViewList_of_BufferList (EthernetFrame_serialize frame)) True w k = Inr (n, w1, k1)"
    "write_frames K frames w1 k1 = Inr (w', k')"
    using Cons(2) by (auto simp: bind_result_Inr_iff)
  note o = FileDescriptor_write_other [OF assms(1) w1(1) Cons(3)]
  show ?case using Cons(1) [OF w1(2)] o same_pipe_trans [of inp out fd k k1 k'] by blast
qed simp

lemma TapDevice_send_pending_other:
  assumes "pipes_ok K inp out" "TapDevice_send_pending K a k = Inr (a', k')" "fd_num (ta_tap a) \<noteq> fd"
  shows "same_pipe inp out fd k k' \<and> fd_num (ta_tap a') \<noteq> fd"
proof -
  obtain w where "write_frames K (ni_frames_out (ea_interface (ta_adapter a))) (ta_tap a) k = Inr (w, k')" "ta_tap a' = w"
    using assms(2) by (auto simp: TapDevice_send_pending_def bind_result_Inr_iff)
  then show ?thesis using write_frames_other [OF assms(1) _ assms(3)] by blast
qed

lemma TunAdapter_ok:
  assumes "pipes_ok K inp out"
  shows "adapter_ok (TunAdapter res K) inp out fd"
  by (rule adapter_okI)
    (auto simp: TunAdapter_def TunDevice_read_def TunDevice_write_def bind_result_Inr_iff
       dest: FileDescriptor_read_other [OF assms] FileDescriptor_write_other [OF assms] split: prod.splits)

lemma UDPAdapter_ok:
  assumes "pipes_ok K inp out"
  shows "adapter_ok (UDPAdapter res K) inp out fd"
  by (rule adapter_okI)
    (auto simp: UDPAdapter_def UDPDevice_read_def UDPDevice_write_def bind_result_Inr_iff dest: UDPSocket_other [OF assms] split: prod.splits)

lemma EthernetDeviceAdapter_ok:
  assumes "pipes_ok K inp out"
  shows "adapter_ok (EthernetDeviceAdapter res K) inp out fd"
proof (rule adapter_okI)
  fix a k seg a' k'
  assume fd: "fd_num (adt_fd (EthernetDeviceAdapter res K) a) \<noteq> fd"
  assume "adt_read (EthernetDeviceAdapter res K) a k = Some (Inr (seg, a', k'))"
  then obtain packet w k1 where r: "FileDescriptor_read K default_limit (ta_tap a) k = Inr (packet, w, k1)"
    "a' = a\<lparr>ta_tap := w\<rparr> \<and> k' = k1 \<or> (\<exists>ni b. TapDevice_send_pending K (a\<lparr>ta_tap := w, ta_adapter := ni\<rparr>) k1 = Inr (b, k') \<and> ta_tap a' = ta_tap b)"
    by (auto simp: EthernetDeviceAdapter_def TapDevice_read_def bind_run_Inr_iff Let_def split: if_splits option.splits prod.splits)
      blast+
  have o: "same_pipe inp out fd k k1" "fd_num w \<noteq> fd"
    using FileDescriptor_read_other [OF assms r(1)] fd by (simp_all add: EthernetDeviceAdapter_def)
  show "same_pipe inp out fd k k' \<and> fd_num (adt_fd (EthernetDeviceAdapter res K) a') \<noteq> fd"
    using r(2) o TapDevice_send_pending_other [OF assms] same_pipe_trans [OF o(1)] by (fastforce simp: EthernetDeviceAdapter_def)
next
  fix a seg k a' k'
  assume "fd_num (adt_fd (EthernetDeviceAdapter res K) a) \<noteq> fd" "adt_write (EthernetDeviceAdapter res K) seg a k = Some (Inr (a', k'))"
  then show "same_pipe inp out fd k k' \<and> fd_num (adt_fd (EthernetDeviceAdapter res K) a') \<noteq> fd"
    using TapDevice_send_pending_other [OF assms] by (fastforce simp: EthernetDeviceAdapter_def TapDevice_write_def bind_result_Inr_iff)
next
  fix a ms k a' k'
  assume "fd_num (adt_fd (EthernetDeviceAdapter res K) a) \<noteq> fd" "adt_tick (EthernetDeviceAdapter res K) ms a k = Some (Inr (a', k'))"
  then show "same_pipe inp out fd k k' \<and> fd_num (adt_fd (EthernetDeviceAdapter res K) a') \<noteq> fd"
    using TapDevice_send_pending_other [OF assms] by (fastforce simp: EthernetDeviceAdapter_def TapDevice_tick_def bind_run_Inr_iff)
qed (simp add: EthernetDeviceAdapter_def)

lemma LossyAdapter_ok:
  assumes "adapter_ok AD inp out fd"
  shows "adapter_ok (LossyAdapter rand AD) inp out fd"
proof (rule adapter_okI)
  have drop: "ld_adapter (snd (LossyDevice_should_drop rand AD uplink a)) = ld_adapter a" for uplink a
    by (simp add: LossyDevice_should_drop_def Let_def split_beta)
  {
    fix a k seg a' k'
    assume fd: "fd_num (adt_fd (LossyAdapter rand AD) a) \<noteq> fd" and rd: "adt_read (LossyAdapter rand AD) a k = Some (Inr (seg, a', k'))"
    obtain ret b where b: "adt_read AD (ld_adapter a) k = Some (Inr (ret, b, k'))"
      "a' = snd (LossyDevice_should_drop rand AD False (a\<lparr>ld_adapter := b\<rparr>))"
      using rd by (auto simp: LossyAdapter_def LossyDevice_read_def bind_run_Inr_iff split_beta)
    have "ld_adapter a' = b" unfolding b(2) drop by simp
    with b(1) show "same_pipe inp out fd k k' \<and> fd_num (adt_fd (LossyAdapter rand AD) a') \<noteq> fd"
      using adapter_okD(1) [OF assms] fd by (simp add: LossyAdapter_def)
  next
    fix a seg k a' k'
    assume fd: "fd_num (adt_fd (LossyAdapter rand AD) a) \<noteq> fd" and wr: "adt_write (LossyAdapter rand AD) seg a k = Some (Inr (a', k'))"
    obtain d a1 where d: "LossyDevice_should_drop rand AD True a = (d, a1)" by (cases "LossyDevice_should_drop rand AD True a")
    have a1: "ld_adapter a1 = ld_adapter a" using drop [of True a] by (simp add: d)
    show "same_pipe inp out fd k k' \<and> fd_num (adt_fd (LossyAdapter rand AD) a') \<noteq> fd"
    proof (cases d)
      case True
      then show ?thesis using wr fd a1 by (simp add: LossyAdapter_def LossyDevice_write_def d)
    next
      case False
      then obtain b where "adt_write AD seg (ld_adapter a) k = Some (Inr (b, k'))" "ld_adapter a' = b"
        using wr a1 by (auto simp: LossyAdapter_def LossyDevice_write_def d bind_run_Inr_iff)
      then show ?thesis using adapter_okD(2) [OF assms] fd by (simp add: LossyAdapter_def)
    qed
  next
    fix a ms k a' k'
    assume fd: "fd_num (adt_fd (LossyAdapter rand AD) a) \<noteq> fd" and tk: "adt_tick (LossyAdapter rand AD) ms a k = Some (Inr (a', k'))"
    obtain b where "adt_tick AD ms (ld_adapter a) k = Some (Inr (b, k'))" "ld_adapter a' = b"
      using tk by (auto simp: LossyAdapter_def bind_run_Inr_iff)
    then show "same_pipe inp out fd k k' \<and> fd_num (adt_fd (LossyAdapter rand AD) a') \<noteq> fd"
      using adapter_okD(3) [OF assms] fd by (simp add: LossyAdapter_def)
  }
qed (use adapter_okD(4) [OF assms] in \<open>simp add: LossyAdapter_def\<close>)

text \<open>The bytes that reach the TUN device are the packet of the adapter.\<close>

lemma TunDevice_write_packet:
  assumes "pipes_ok K inp out" "TunFdAdapter_write res (td_base a) seg = Inr (packet, seg1)" "length packet < 2 ^ 63"
    "TunDevice_write res K seg a k = Inr (a', k')"
  shows "out k' = (out k)(fd_num (td_tun a) := out k (fd_num (td_tun a)) @ packet)"
proof -
  obtain dg l where w: "wrap_tcp_in_ip res (td_base a) seg = Inr (dg, seg1)" "IPv4Datagram_serialize dg = Inr l" "packet = BufferList_concatenate l"
    using assms(2) by (auto simp: TunFdAdapter_write_def bind_result_Inr_iff)
  have c: "concat (BufferViewList_of_BufferList l) = packet"
    by (simp add: w(3) BufferViewList_of_BufferList_def BufferList_concatenate_eq)
  obtain n w1 where f: "FileDescriptor_write K (BufferViewList_of_BufferList l) True (td_tun a) k = Inr (n, w1, k')"
    using assms(4) w by (auto simp: TunDevice_write_def bind_result_Inr_iff)
  have "write_loop K True (BufferViewList_of_BufferList l) 0 (td_tun a) k = Inr (n, w1, k')" using f by (simp add: FileDescriptor_write_def)
  moreover have "length (concat (BufferViewList_of_BufferList l)) < 2 ^ 63" "0 + length (concat (BufferViewList_of_BufferList l)) < W64"
    using assms(3) unfolding c by (simp_all add: W64_def)
  ultimately have "\<exists>m \<le> length (concat (BufferViewList_of_BufferList l)). m = length (concat (BufferViewList_of_BufferList l)) \<and>
      out k' = (out k)(fd_num (td_tun a) := out k (fd_num (td_tun a)) @ take m (concat (BufferViewList_of_BufferList l)))"
    using write_loop_Inr [OF pipes_okD(2) [OF assms(1)], of "BufferViewList_of_BufferList l" 0 True "td_tun a" k n w1 k'] by blast
  then show ?thesis unfolding c by auto
qed

section \<open>The segments of an adapter\<close>

text \<open>An adapter that records the segments it has delivered and those it was given to send, and is otherwise the
  adapter it wraps.\<close>

record 'a Logged =
  lg_adapter :: 'a
  lg_got :: "TCPSegment list"
  lg_sent :: "TCPSegment list"

definition logged :: "('a, 'k) AdaptT \<Rightarrow> ('a Logged, 'k) AdaptT" where
  "logged AD =
     \<lparr>adt_fd = (\<lambda>a. adt_fd AD (lg_adapter a)), adt_base = (\<lambda>a. adt_base AD (lg_adapter a)),
      adt_set_base = (\<lambda>b a. a\<lparr>lg_adapter := adt_set_base AD b (lg_adapter a)\<rparr>),
      adt_read = (\<lambda>a k. bind_run (adt_read AD (lg_adapter a) k) (\<lambda>(seg, b, k).
        Some (Inr (seg, a\<lparr>lg_adapter := b, lg_got := lg_got a @ (case seg of None \<Rightarrow> [] | Some g \<Rightarrow> [g])\<rparr>, k)))),
      adt_write = (\<lambda>seg a k. bind_run (adt_write AD seg (lg_adapter a) k) (\<lambda>(b, k).
        Some (Inr (a\<lparr>lg_adapter := b, lg_sent := lg_sent a @ [seg]\<rparr>, k)))),
      adt_tick = (\<lambda>ms a k. bind_run (adt_tick AD ms (lg_adapter a) k) (\<lambda>(b, k). Some (Inr (a\<lparr>lg_adapter := b\<rparr>, k))))\<rparr>"

lemma logged_ok:
  assumes "adapter_ok AD inp out fd"
  shows "adapter_ok (logged AD) inp out fd"
proof (rule adapter_okI)
  fix a k seg a' k'
  assume fd: "fd_num (adt_fd (logged AD) a) \<noteq> fd" and "adt_read (logged AD) a k = Some (Inr (seg, a', k'))"
  then have "adt_read AD (lg_adapter a) k = Some (Inr (seg, lg_adapter a', k'))" by (auto simp: logged_def bind_run_Inr_iff)
  then show "same_pipe inp out fd k k' \<and> fd_num (adt_fd (logged AD) a') \<noteq> fd"
    using adapter_okD(1) [OF assms] fd by (simp add: logged_def)
next
  fix a seg k a' k'
  assume fd: "fd_num (adt_fd (logged AD) a) \<noteq> fd" and "adt_write (logged AD) seg a k = Some (Inr (a', k'))"
  then have "adt_write AD seg (lg_adapter a) k = Some (Inr (lg_adapter a', k'))" by (auto simp: logged_def bind_run_Inr_iff)
  then show "same_pipe inp out fd k k' \<and> fd_num (adt_fd (logged AD) a') \<noteq> fd"
    using adapter_okD(2) [OF assms] fd by (simp add: logged_def)
next
  fix a ms k a' k'
  assume fd: "fd_num (adt_fd (logged AD) a) \<noteq> fd" and "adt_tick (logged AD) ms a k = Some (Inr (a', k'))"
  then have "adt_tick AD ms (lg_adapter a) k = Some (Inr (lg_adapter a', k'))" by (auto simp: logged_def bind_run_Inr_iff)
  then show "same_pipe inp out fd k k' \<and> fd_num (adt_fd (logged AD) a') \<noteq> fd"
    using adapter_okD(3) [OF assms] fd by (simp add: logged_def)
qed (use adapter_okD(4) [OF assms] in \<open>simp add: logged_def\<close>)

end
