(* ===== verification/Spec2Isabelle.thy ===== *)
theory Spec2Isabelle
  imports Simulator TCP_Network Event_Loop Adapter_Devices
begin

text \<open>
  A verification development for the sponge TCP/IP stack.

  \<^bold>\<open>The program.\<close>  \<open>src/libsponge\<close> implements TCP on top of IPv4 and Ethernet.  From the bottom up: byte buffers and a
  parser for network byte order; the headers and messages of TCP, IPv4, Ethernet and ARP; a byte stream with
  flow control and a reassembler of substrings; the receiver and the sender of TCP, and the connection that
  joins them; a network interface that resolves addresses by ARP, and a router; adapters that carry segments
  over IPv4, UDP or Ethernet.  \<open>src/apps/network_simulator.cc\<close> puts hosts and a router together.

  \<^bold>\<open>Conventions\<close> (\<open>Sponge_Prelude\<close>).  A class is a record, a method a function from the object and its arguments
  to the result and the updated object.  \<open>size_t\<close> and \<open>uint64_t\<close> values are natural numbers with wrapping
  operations (\<open>u64_add\<close>, \<open>u64_sub\<close>); fields of packets are words of their width.  An exception, a failed
  assertion and the overflow of a signed integer are the \<open>Inl\<close> values of a result.  A loop that may not end is a
  \<open>partial_function (option)\<close> whose value \<open>None\<close> means that it runs forever; every other loop is a recursion that
  terminates, with the number of elements left or the size of a queue as its measure.  There is no fuel in the
  model.  \<open>std::map\<close> is a sorted association list (\<open>Ordered_Map\<close>, the locale \<open>finite_map\<close>).  What the code
  takes from the operating system is an argument: the resolver of addresses (a record with \<open>getaddrinfo\<close> and
  \<open>getnameinfo\<close>, and \<open>resolver_ok\<close> for what is documented of them), random numbers, the bytes a device delivers,
  the time that has passed.

  \<^bold>\<open>The parts and their theories.\<close>

  \<^item> \<open>Wrapping_Integers\<close> (\<open>wrapping_integers.hh/.cc\<close>): \<open>wrap\<close> and \<open>unwrap\<close>; \<open>unwrap\<close> gives the closest number and
    inverts \<open>wrap\<close>.
  \<^item> \<open>Byte_Stream\<close> (\<open>byte_stream.hh/.cc\<close>): every method; first in, first out for any sequence of calls, through the
    locale \<open>byte_channel\<close>.
  \<^item> \<open>Stream_Reassembler\<close> (\<open>stream_reassembler.hh/.cc\<close>): \<open>push_substring\<close> with its trimming and assembling loops;
    any pushes give a prefix of the stream, and pushes that cover it give all of it.
  \<^item> \<open>Buffers\<close>, \<open>Net_Parser\<close>, \<open>Checksum\<close> (\<open>util/buffer\<close>, \<open>util/parser\<close>, \<open>util/util\<close>): buffers, the parser (with
    the locales \<open>front_string\<close> and \<open>wire_format\<close>), the Internet checksum.
  \<^item> \<open>TCP_Segments\<close>, \<open>IPv4\<close>, \<open>Ethernet\<close> (\<open>tcp_helpers\<close>): parsing and serializing of segments, datagrams, frames and
    ARP messages; round trips, and that no input makes a parser throw.
  \<^item> \<open>TCP_Receivers\<close>, \<open>TCP_Senders\<close>, \<open>TCP_State\<close>, \<open>TCP_Connection\<close> (\<open>tcp_receiver\<close>, \<open>tcp_sender\<close>, \<open>tcp_state\<close>,
    \<open>tcp_connection\<close>): every method, with an invariant that relates the state to the whole stream of bytes
    written (\<open>rv_inv\<close>, \<open>ts_inv\<close>, \<open>tc_inv\<close>), and that every method keeps it.
  \<^item> \<open>TCP_Network\<close>: two connections over a network that loses, duplicates and reorders segments, as the
    inductive step relation \<open>net_step\<close>; the bytes read are a prefix of the bytes written, a clean close means
    that everything has arrived, and every segment is processed without an exception.
  \<^item> \<open>Text_Numbers\<close>, \<open>Addresses\<close> (\<open>util/address\<close>): numbers as text, socket addresses.
  \<^item> \<open>Network_Interface\<close> (\<open>network_interface.hh/.cc\<close>): \<open>send_datagram\<close>, \<open>recv_frame\<close> and \<open>tick\<close> with the invariant
    \<open>ni_inv\<close>; two interfaces resolve an address and deliver the datagram; \<open>tick\<close> runs forever exactly when five
    seconds or more pass at once while a request is outstanding.
  \<^item> \<open>Routing\<close> (\<open>router.hh/.cc\<close>): the loop over the table is the longest prefix match, and \<open>route\<close> sends every
    datagram where it belongs.
  \<^item> \<open>Adapters\<close> (\<open>fd_adapter\<close>, \<open>tcp_over_ip\<close>, \<open>tuntap_adapter\<close>, \<open>lossy_fd_adapter\<close>): the locale \<open>segment_carrier\<close>,
    interpreted for the adapter over a TUN device and for the one over UDP; what one end writes the other reads.
  \<^item> \<open>Printing\<close>: the \<open>to_string\<close> and \<open>summary\<close> functions and \<open>hexdump\<close>.
  \<^item> \<open>Simulator\<close> (\<open>apps/network_simulator.cc\<close>): hosts, the network and the tests; the network never fails, whatever
    its hosts send.

  \<^bold>\<open>Bounds.\<close>  The theorems on a whole TCP connection hold for streams shorter than \<open>2 ^ 31\<close> bytes, where an absolute
  sequence number stays within half of the 32-bit space of its checkpoint; those on datagrams for at most 65535
  bytes, the range of the length field.  \<open>simulate\<close> runs 256 rounds; the theorem holds for every number of them.

  \<^bold>\<open>Not modelled.\<close>  Debugging output.  \<open>FileDescriptor\<close>, \<open>Socket\<close>, \<open>TunTapFD\<close>, \<open>SystemCall\<close>, the clock and the seeding of
  the random generator only pass calls to the operating system.  \<open>EventLoop\<close> and \<open>TCPSpongeSocket\<close> run callbacks
  and a thread around \<open>poll\<close>; the methods they call are all modelled.  The programs under \<open>src/apps\<close> other than
  the simulator parse arguments and connect standard input and output to sockets; those under \<open>src/doctests\<close> are
  examples for the documentation, and \<open>src/tests\<close> holds the test programs.
\<close>

end
